(* ===== verification/Prelude.thy ===== *)
theory Prelude
  imports Complex_Main "HOL-Library.Word" "HOL-Library.List_Lexorder" "HOL-Library.Char_ord"
begin

text \<open>
  What every component of the development shares: the names of Rust's machine integers, its
  \<open>Result\<close> type (a sum, \<open>Inl\<close> the error) with the \<open>?\<close> operator as \<open>res_bind\<close>, fallible folds
  and maps, checked and saturating arithmetic, little-endian byte strings, byte-string \<open>&str\<close>
  values, decimal printing and parsing, and the lemma collections the component proofs use.
\<close>

named_theorems result_simps \<open>inversion of computations in the result type\<close>
named_theorems arith_simps \<open>checked and saturating machine arithmetic read as natural numbers\<close>

section \<open>Machine integers\<close>

type_synonym u8 = "8 word"
type_synonym u16 = "16 word"
type_synonym u32 = "32 word"
type_synonym u64 = "64 word"

text \<open>
  \<open>usize\<close> values (lengths and offsets of byte buffers) are natural numbers, with the 64-bit bound
  written out in every checked operation. Fields that the wire formats or the counters fix to a
  width are words of that width.
\<close>

type_synonym usize = nat

definition usize_bound :: nat where
  "usize_bound = 18446744073709551616"

definition usize_add :: "usize \<Rightarrow> usize \<Rightarrow> usize option" where
  "usize_add a b = (if a + b < usize_bound then Some (a + b) else None)"

definition usize_sub :: "usize \<Rightarrow> usize \<Rightarrow> usize option" where
  "usize_sub a b = (if b \<le> a then Some (a - b) else None)"

definition checked_add :: "'a::len word \<Rightarrow> 'a word \<Rightarrow> 'a word option" where
  "checked_add a b = (if unat a + unat b < 2 ^ LENGTH('a) then Some (a + b) else None)"

definition checked_sub :: "'a::len word \<Rightarrow> 'a word \<Rightarrow> 'a word option" where
  "checked_sub a b = (if b \<le> a then Some (a - b) else None)"

definition checked_mul :: "'a::len word \<Rightarrow> 'a word \<Rightarrow> 'a word option" where
  "checked_mul a b = (if unat a * unat b < 2 ^ LENGTH('a) then Some (a * b) else None)"

definition saturating_add :: "'a::len word \<Rightarrow> 'a word \<Rightarrow> 'a word" where
  "saturating_add a b = (if unat a + unat b < 2 ^ LENGTH('a) then a + b else - 1)"

definition saturating_sub :: "'a::len word \<Rightarrow> 'a word \<Rightarrow> 'a word" where
  "saturating_sub a b = (if b \<le> a then a - b else 0)"

lemma usize_add_Some [arith_simps]:
  "usize_add a b = Some c \<longleftrightarrow> c = a + b \<and> a + b < usize_bound"
  by (auto simp: usize_add_def)

lemma usize_add_None [arith_simps]: "usize_add a b = None \<longleftrightarrow> usize_bound \<le> a + b"
  by (auto simp: usize_add_def)

lemma usize_sub_Some [arith_simps]: "usize_sub a b = Some c \<longleftrightarrow> b \<le> a \<and> c = a - b"
  by (auto simp: usize_sub_def)

lemma unat_add_no_overflow:
  fixes a b :: "'a::len word"
  assumes "unat a + unat b < 2 ^ LENGTH('a)"
  shows "unat (a + b) = unat a + unat b"
  using assms by (simp add: unat_word_ariths)

lemma unat_bound: "unat (w :: 'a::len word) < 2 ^ LENGTH('a)"
  by (rule unsigned_less)

lemma u8_bound: "unat (w :: u8) < 256"
  using unat_bound [of w] by simp

lemma u16_bound: "unat (w :: u16) < 65536"
  using unat_bound [of w] by simp

lemma u32_bound: "unat (w :: u32) < 4294967296"
  using unat_bound [of w] by simp

lemma u64_bound: "unat (w :: u64) < usize_bound"
  using unat_bound [of w] by (simp add: usize_bound_def)

lemma checked_add_Some [arith_simps]:
  fixes a b :: "'a::len word"
  shows "checked_add a b = Some c \<longleftrightarrow> unat c = unat a + unat b"
proof
  assume "checked_add a b = Some c"
  then show "unat c = unat a + unat b"
    by (auto simp: checked_add_def unat_add_no_overflow split: if_splits)
next
  assume eq: "unat c = unat a + unat b"
  have lt: "unat a + unat b < 2 ^ LENGTH('a)"
    using unsigned_less [of c] by (simp add: eq [symmetric])
  then have "unat (a + b) = unat c"
    by (simp add: eq unat_add_no_overflow)
  then have "a + b = c" by (rule word_unat_eq_iff [THEN iffD2])
  with lt show "checked_add a b = Some c" by (simp add: checked_add_def)
qed

lemma checked_add_None [arith_simps]:
  fixes a b :: "'a::len word"
  shows "checked_add a b = None \<longleftrightarrow> 2 ^ LENGTH('a) \<le> unat a + unat b"
  by (auto simp: checked_add_def)

lemma checked_sub_Some [arith_simps]:
  fixes a b :: "'a::len word"
  shows "checked_sub a b = Some c \<longleftrightarrow> b \<le> a \<and> c = a - b"
  by (auto simp: checked_sub_def)

lemma unat_sub_le:
  fixes a b :: "'a::len word"
  shows "b \<le> a \<Longrightarrow> unat (a - b) = unat a - unat b"
  by (simp add: unat_sub)

lemma unat_saturating_add [arith_simps]:
  fixes a b :: "'a::len word"
  shows "unat (saturating_add a b) = min (unat a + unat b) (2 ^ LENGTH('a) - 1)"
proof (cases "unat a + unat b < 2 ^ LENGTH('a)")
  case True
  then show ?thesis by (simp add: saturating_add_def unat_add_no_overflow)
next
  case False
  then show ?thesis by (simp add: saturating_add_def unsigned_minus_1_eq_mask mask_eq_exp_minus_1)
qed

lemma unat_saturating_sub [arith_simps]:
  fixes a b :: "'a::len word"
  shows "unat (saturating_sub a b) = unat a - unat b"
  by (simp add: saturating_sub_def unat_sub word_le_nat_alt)

section \<open>Results\<close>

definition res_bind :: "'e + 'a \<Rightarrow> ('a \<Rightarrow> 'e + 'b) \<Rightarrow> 'e + 'b" where
  "res_bind r f = (case r of Inl e \<Rightarrow> Inl e | Inr x \<Rightarrow> f x)"

definition map_err :: "('e \<Rightarrow> 'f) \<Rightarrow> 'e + 'a \<Rightarrow> 'f + 'a" where
  "map_err g r = (case r of Inl e \<Rightarrow> Inl (g e) | Inr x \<Rightarrow> Inr x)"

definition ok_or :: "'a option \<Rightarrow> 'e \<Rightarrow> 'e + 'a" where
  "ok_or x e = (case x of None \<Rightarrow> Inl e | Some y \<Rightarrow> Inr y)"

definition is_ok :: "'e + 'a \<Rightarrow> bool" where
  "is_ok r = (case r of Inl _ \<Rightarrow> False | Inr _ \<Rightarrow> True)"

lemma res_bind_simps [simp]:
  "res_bind (Inl e) f = Inl e"
  "res_bind (Inr x) f = f x"
  by (simp_all add: res_bind_def)

lemma map_err_simps [simp]:
  "map_err g (Inl e) = Inl (g e)"
  "map_err g (Inr x) = Inr x"
  by (simp_all add: map_err_def)

lemma ok_or_simps [simp]:
  "ok_or None e = Inl e"
  "ok_or (Some y) e = Inr y"
  by (simp_all add: ok_or_def)

lemma is_ok_simps [simp]:
  "\<not> is_ok (Inl e)"
  "is_ok (Inr x)"
  by (simp_all add: is_ok_def)

lemma is_ok_iff: "is_ok r \<longleftrightarrow> (\<exists>x. r = Inr x)"
  by (cases r) auto

lemma res_bind_Inr [result_simps]:
  "res_bind r f = Inr y \<longleftrightarrow> (\<exists>x. r = Inr x \<and> f x = Inr y)"
  by (cases r) auto

lemma res_bind_Inl [result_simps]:
  "res_bind r f = Inl e \<longleftrightarrow> r = Inl e \<or> (\<exists>x. r = Inr x \<and> f x = Inl e)"
  by (cases r) auto

lemma map_err_Inr [result_simps]: "map_err g r = Inr y \<longleftrightarrow> r = Inr y"
  by (cases r) auto

lemma map_err_Inl [result_simps]: "map_err g r = Inl e \<longleftrightarrow> (\<exists>d. r = Inl d \<and> e = g d)"
  by (cases r) auto

lemma ok_or_Inr [result_simps]: "ok_or x e = Inr y \<longleftrightarrow> x = Some y"
  by (cases x) auto

lemma ok_or_Inl [result_simps]: "ok_or x e = Inl d \<longleftrightarrow> x = None \<and> d = e"
  by (cases x) auto

text \<open>\<open>Iterator::try_fold\<close>, and \<open>map(..).collect::<Result<Vec<_>, _>>()\<close>.\<close>

fun try_fold :: "('s \<Rightarrow> 'a \<Rightarrow> 'e + 's) \<Rightarrow> 's \<Rightarrow> 'a list \<Rightarrow> 'e + 's" where
  "try_fold f s [] = Inr s"
| "try_fold f s (x # xs) = res_bind (f s x) (\<lambda>s'. try_fold f s' xs)"

fun res_map :: "('a \<Rightarrow> 'e + 'b) \<Rightarrow> 'a list \<Rightarrow> 'e + 'b list" where
  "res_map f [] = Inr []"
| "res_map f (x # xs) = res_bind (f x) (\<lambda>y. res_bind (res_map f xs) (\<lambda>ys. Inr (y # ys)))"

lemma try_fold_append:
  "try_fold f s (xs @ ys) = res_bind (try_fold f s xs) (\<lambda>s'. try_fold f s' ys)"
proof (induction xs arbitrary: s)
  case (Cons x xs)
  then show ?case by (cases "f s x") simp_all
qed simp

lemma try_fold_invariant:
  assumes "try_fold f s xs = Inr t" and "P s"
    and "\<And>s x s'. x \<in> set xs \<Longrightarrow> P s \<Longrightarrow> f s x = Inr s' \<Longrightarrow> P s'"
  shows "P t"
  using assms
proof (induction xs arbitrary: s)
  case (Cons x xs)
  then obtain s' where s': "f s x = Inr s'" and rest: "try_fold f s' xs = Inr t"
    by (auto simp: result_simps)
  have "P s'" using Cons.prems(2) s' by (rule Cons.prems(3) [rotated]) simp
  then show ?case using rest Cons.prems(3) by (intro Cons.IH [of s']) auto
qed simp

lemma res_map_Inr_iff:
  "res_map f xs = Inr ys \<longleftrightarrow> map f xs = map Inr ys"
proof (induction xs arbitrary: ys)
  case (Cons x xs)
  then show ?case by (cases ys) (auto simp: result_simps)
qed auto

lemma res_map_length: "res_map f xs = Inr ys \<Longrightarrow> length ys = length xs"
  by (metis length_map res_map_Inr_iff)

lemma res_map_nth:
  assumes "res_map f xs = Inr ys" and "i < length xs"
  shows "f (xs ! i) = Inr (ys ! i)"
proof -
  have len: "length ys = length xs" using assms(1) by (rule res_map_length)
  have "map f xs ! i = map Inr ys ! i" using assms(1) by (simp add: res_map_Inr_iff)
  then show ?thesis using assms(2) len by simp
qed

lemma res_map_ok: "(\<And>x. x \<in> set xs \<Longrightarrow> is_ok (f x)) \<Longrightarrow> is_ok (res_map f xs)"
proof (induction xs)
  case (Cons x xs)
  then obtain y ys where "f x = Inr y" "res_map f xs = Inr ys"
    by (fastforce simp: is_ok_iff)
  then show ?case by simp
qed simp

section \<open>Little-endian byte strings\<close>

fun le_nat_bytes :: "nat \<Rightarrow> nat \<Rightarrow> u8 list" where
  "le_nat_bytes 0 v = []"
| "le_nat_bytes (Suc n) v = word_of_nat (v mod 256) # le_nat_bytes n (v div 256)"

fun le_nat :: "u8 list \<Rightarrow> nat" where
  "le_nat [] = 0"
| "le_nat (b # bs) = unat b + 256 * le_nat bs"

definition u16_to_le_bytes :: "u16 \<Rightarrow> u8 list" where
  "u16_to_le_bytes w = le_nat_bytes 2 (unat w)"

definition u32_to_le_bytes :: "u32 \<Rightarrow> u8 list" where
  "u32_to_le_bytes w = le_nat_bytes 4 (unat w)"

definition u64_to_le_bytes :: "u64 \<Rightarrow> u8 list" where
  "u64_to_le_bytes w = le_nat_bytes 8 (unat w)"

definition word_from_le_bytes :: "u8 list \<Rightarrow> 'a::len word" where
  "word_from_le_bytes bs = word_of_nat (le_nat bs)"

lemma length_le_nat_bytes [simp]: "length (le_nat_bytes n v) = n"
  by (induction n arbitrary: v) auto

lemma le_nat_bytes_inverse: "le_nat (le_nat_bytes n v) = v mod 256 ^ n"
proof (induction n arbitrary: v)
  case (Suc n)
  have "unat (word_of_nat (v mod 256) :: u8) = v mod 256"
    by (simp add: unat_of_nat)
  then have "le_nat (le_nat_bytes (Suc n) v) = v mod 256 + 256 * (v div 256 mod 256 ^ n)"
    by (simp add: Suc.IH)
  also have "\<dots> = v mod (256 * 256 ^ n)"
    by (metis add.commute mod_mult2_eq)
  finally show ?case by simp
qed simp

lemma le_nat_bound: "le_nat bs < 256 ^ length bs"
proof (induction bs)
  case (Cons b bs)
  have "unat b < 256" using unsigned_less [of b] by simp
  moreover have "le_nat bs + 1 \<le> 256 ^ length bs" using Cons.IH by simp
  then have "256 * (le_nat bs + 1) \<le> 256 * 256 ^ length bs" by (rule mult_le_mono2)
  ultimately show ?case by simp
qed simp

lemma length_to_le_bytes [simp]:
  "length (u16_to_le_bytes a) = 2"
  "length (u32_to_le_bytes b) = 4"
  "length (u64_to_le_bytes c) = 8"
  by (simp_all add: u16_to_le_bytes_def u32_to_le_bytes_def u64_to_le_bytes_def)

lemma from_to_le_bytes [simp]:
  "word_from_le_bytes (u16_to_le_bytes a) = a"
  "word_from_le_bytes (u32_to_le_bytes b) = b"
  "word_from_le_bytes (u64_to_le_bytes c) = c"
proof -
  have "unat a < 2 ^ 16" "unat b < 2 ^ 32" "unat c < 2 ^ 64"
    using unsigned_less [of a] unsigned_less [of b] unsigned_less [of c] by simp_all
  then show "word_from_le_bytes (u16_to_le_bytes a) = a"
    "word_from_le_bytes (u32_to_le_bytes b) = b"
    "word_from_le_bytes (u64_to_le_bytes c) = c"
    by (simp_all add: word_from_le_bytes_def u16_to_le_bytes_def u32_to_le_bytes_def
        u64_to_le_bytes_def le_nat_bytes_inverse)
qed

lemma unat_word_from_le_bytes:
  assumes "8 * length bs \<le> LENGTH('a::len)"
  shows "unat (word_from_le_bytes bs :: 'a word) = le_nat bs"
proof -
  have "le_nat bs < 256 ^ length bs" by (rule le_nat_bound)
  also have "(256 :: nat) ^ length bs = 2 ^ (8 * length bs)" by (simp add: power_mult)
  also have "\<dots> \<le> 2 ^ LENGTH('a)" using assms by (rule power_increasing) simp
  finally show ?thesis by (simp add: word_from_le_bytes_def unat_of_nat take_bit_eq_mod)
qed

lemma le_bytes_le_nat: "le_nat_bytes (length bs) (le_nat bs) = bs"
proof (induction bs)
  case (Cons b bs)
  have "unat b < 256" by (rule u8_bound)
  then show ?case using Cons.IH by simp
qed simp

lemma to_from_le_bytes:
  "length bs = 2 \<Longrightarrow> u16_to_le_bytes (word_from_le_bytes bs) = bs"
  "length bs = 4 \<Longrightarrow> u32_to_le_bytes (word_from_le_bytes bs) = bs"
  "length bs = 8 \<Longrightarrow> u64_to_le_bytes (word_from_le_bytes bs) = bs"
  using le_bytes_le_nat [of bs]
  by (simp_all add: u16_to_le_bytes_def u32_to_le_bytes_def u64_to_le_bytes_def
      unat_word_from_le_bytes)

lemma drop_take_split:
  "m + n \<le> length xs \<Longrightarrow> drop m xs = take n (drop m xs) @ drop (m + n) xs"
  by (metis add.commute append_take_drop_id drop_drop)

section \<open>Strings\<close>

text \<open>
  A Rust string is its UTF-8 bytes; a \<^typ>\<open>string\<close> holds one byte per character, so \<open>length\<close> is
  \<open>str::len\<close> and the lexicographic order of \<open>List_Lexorder\<close> is Rust's \<open>Ord\<close> on strings.
\<close>

definition str_bytes :: "string \<Rightarrow> u8 list" where
  "str_bytes s = map (\<lambda>c. word_of_nat (of_char c)) s"

definition bytes_str :: "u8 list \<Rightarrow> string" where
  "bytes_str bs = map (\<lambda>b. char_of (unat b)) bs"

lemma length_str_bytes [simp]: "length (str_bytes s) = length s"
  by (simp add: str_bytes_def)

lemma length_bytes_str [simp]: "length (bytes_str bs) = length bs"
  by (simp add: bytes_str_def)

lemma unat_byte_of_char: "unat (word_of_nat (of_char c) :: u8) = of_char c"
proof -
  have "of_char c < (256 :: nat)" using nat_of_char_less_256 [of c] by simp
  then show ?thesis by (simp add: unat_of_nat take_bit_eq_mod)
qed

lemma bytes_str_bytes [simp]: "bytes_str (str_bytes s) = s"
  by (simp add: bytes_str_def str_bytes_def comp_def unat_byte_of_char)

lemma str_bytes_str [simp]: "str_bytes (bytes_str bs) = bs"
proof -
  have "(word_of_nat (of_char (char_of (unat b) :: char)) :: u8) = b" for b :: u8
  proof -
    have "unat b < 256" using unsigned_less [of b] by simp
    then show ?thesis by simp
  qed
  then show ?thesis by (simp add: bytes_str_def str_bytes_def comp_def)
qed

text \<open>\<open>str::from_utf8\<close> accepts exactly the well-formed UTF-8 byte sequences.\<close>

definition utf8_cont :: "u8 \<Rightarrow> bool" where
  "utf8_cont b \<longleftrightarrow> 0x80 \<le> b \<and> b \<le> 0xBF"

definition utf8_second :: "u8 \<Rightarrow> u8 \<Rightarrow> bool" where
  "utf8_second a b \<longleftrightarrow>
     utf8_cont b \<and> (a = 0xE0 \<longrightarrow> 0xA0 \<le> b) \<and> (a = 0xED \<longrightarrow> b \<le> 0x9F)
     \<and> (a = 0xF0 \<longrightarrow> 0x90 \<le> b) \<and> (a = 0xF4 \<longrightarrow> b \<le> 0x8F)"

fun utf8_valid :: "u8 list \<Rightarrow> bool" where
  "utf8_valid [] = True"
| "utf8_valid (a # bs) =
     (if a < 0x80 then utf8_valid bs
      else if 0xC2 \<le> a \<and> a \<le> 0xDF then
        (case bs of b # r \<Rightarrow> utf8_cont b \<and> utf8_valid r | _ \<Rightarrow> False)
      else if 0xE0 \<le> a \<and> a \<le> 0xEF then
        (case bs of b # c # r \<Rightarrow> utf8_second a b \<and> utf8_cont c \<and> utf8_valid r | _ \<Rightarrow> False)
      else if 0xF0 \<le> a \<and> a \<le> 0xF4 then
        (case bs of b # c # d # r \<Rightarrow>
            utf8_second a b \<and> utf8_cont c \<and> utf8_cont d \<and> utf8_valid r
          | _ \<Rightarrow> False)
      else False)"

definition is_ascii :: "string \<Rightarrow> bool" where
  "is_ascii s \<longleftrightarrow> (\<forall>c \<in> set s. of_char c < (128 :: nat))"

lemma utf8_valid_ascii: "(\<forall>b \<in> set bs. b < 0x80) \<Longrightarrow> utf8_valid bs"
  by (induction bs) auto

lemma utf8_valid_str_bytes: "is_ascii s \<Longrightarrow> utf8_valid (str_bytes s)"
proof (rule utf8_valid_ascii)
  assume a: "is_ascii s"
  show "\<forall>b \<in> set (str_bytes s). b < 0x80"
    using a by (auto simp: str_bytes_def is_ascii_def word_less_nat_alt unat_byte_of_char)
qed

text \<open>\<open>str::starts_with\<close>, \<open>str::split\<close> on one character.\<close>

fun starts_with :: "string \<Rightarrow> string \<Rightarrow> bool" where
  "starts_with s [] = True"
| "starts_with [] (p # ps) = False"
| "starts_with (c # cs) (p # ps) = (c = p \<and> starts_with cs ps)"

fun split_on :: "char \<Rightarrow> string \<Rightarrow> string list" where
  "split_on d [] = [[]]"
| "split_on d (c # cs) =
     (if c = d then [] # split_on d cs
      else (case split_on d cs of [] \<Rightarrow> [[c]] | w # ws \<Rightarrow> (c # w) # ws))"

fun join_with :: "string \<Rightarrow> string list \<Rightarrow> string" where
  "join_with sep [] = []"
| "join_with sep [w] = w"
| "join_with sep (w # ws) = w @ sep @ join_with sep ws"

lemma starts_with_append: "starts_with s p \<longleftrightarrow> (\<exists>r. s = p @ r)"
  by (induction s p rule: starts_with.induct) auto

lemma split_on_not_Nil [simp]: "split_on d s \<noteq> []"
  by (induction s) (auto split: list.splits)

lemma split_on_join: "join_with [d] (split_on d s) = s"
proof (induction s)
  case (Cons c cs)
  obtain w ws where eq: "split_on d cs = w # ws"
    by (cases "split_on d cs") auto
  show ?case
  proof (cases "c = d")
    case True
    then show ?thesis using Cons.IH eq by simp
  next
    case False
    then show ?thesis using Cons.IH eq by (cases ws) auto
  qed
qed simp

lemma split_on_no_sep: "w \<in> set (split_on d s) \<Longrightarrow> d \<notin> set w"
proof (induction s arbitrary: w)
  case (Cons c cs)
  then show ?case by (auto split: if_splits list.splits)
qed simp

lemma split_on_Cons_no_sep: "d \<notin> set w \<Longrightarrow> split_on d w = [w]"
  by (induction w) auto

lemma split_on_append_sep:
  "d \<notin> set w \<Longrightarrow> split_on d (w @ d # s) = w # split_on d s"
  by (induction w) auto

lemma split_on_join_with:
  assumes "ws \<noteq> []" and "\<forall>w \<in> set ws. d \<notin> set w"
  shows "split_on d (join_with [d] ws) = ws"
  using assms
proof (induction ws rule: induct_list012)
  case (3 w v ws)
  then show ?case by (simp add: split_on_append_sep)
qed (auto simp: split_on_Cons_no_sep)

section \<open>Decimal numerals\<close>

definition digit_char :: "nat \<Rightarrow> char" where
  "digit_char d = char_of (48 + d)"

fun dec_digits :: "nat \<Rightarrow> nat list" where
  "dec_digits n = (if n < 10 then [n] else dec_digits (n div 10) @ [n mod 10])"

declare dec_digits.simps [simp del]

text \<open>\<open>{}\<close> of an unsigned integer, and \<open>{:0w}\<close>.\<close>

definition show_nat :: "nat \<Rightarrow> string" where
  "show_nat n = map digit_char (dec_digits n)"

definition show_padded :: "nat \<Rightarrow> nat \<Rightarrow> string" where
  "show_padded w n = replicate (w - length (show_nat n)) (CHR ''0'') @ show_nat n"

text \<open>\<open>{}\<close> of a signed integer.\<close>

definition show_int :: "int \<Rightarrow> string" where
  "show_int i = (if i < 0 then CHR ''-'' # show_nat (nat (- i)) else show_nat (nat i))"

definition char_digit :: "char \<Rightarrow> nat option" where
  "char_digit c =
     (let v = of_char c in if 48 \<le> v \<and> v \<le> 57 then Some (v - 48) else None)"

fun read_digits :: "nat \<Rightarrow> string \<Rightarrow> nat option" where
  "read_digits acc [] = Some acc"
| "read_digits acc (c # cs) =
     (case char_digit c of None \<Rightarrow> None | Some d \<Rightarrow> read_digits (10 * acc + d) cs)"

text \<open>
  \<open>str::parse\<close> for an unsigned integer below \<open>bound\<close>: an optional sign \<open>+\<close>, at least one digit,
  and a value in range.
\<close>

definition parse_unsigned :: "nat \<Rightarrow> string \<Rightarrow> nat option" where
  "parse_unsigned bound s =
     (let ds = (case s of [] \<Rightarrow> [] | c # cs \<Rightarrow> if c = CHR ''+'' then cs else s)
      in if ds = [] then None
         else (case read_digits 0 ds of
                 None \<Rightarrow> None
               | Some v \<Rightarrow> if v < bound then Some v else None))"

lemma dec_digits_not_Nil [simp]: "dec_digits n \<noteq> []"
  by (subst dec_digits.simps) simp

lemma dec_digits_small: "\<forall>d \<in> set (dec_digits n). d < 10"
proof (induction n rule: dec_digits.induct)
  case (1 n)
  then show ?case by (subst dec_digits.simps) auto
qed

lemma char_digit_digit_char: "d < 10 \<Longrightarrow> char_digit (digit_char d) = Some d"
  by (simp add: char_digit_def digit_char_def Let_def)

lemma read_digits_append:
  "read_digits acc (xs @ ys) =
     (case read_digits acc xs of None \<Rightarrow> None | Some a \<Rightarrow> read_digits a ys)"
  by (induction acc xs rule: read_digits.induct) (auto split: option.splits)

lemma read_digits_dec: "read_digits 0 (map digit_char (dec_digits n)) = Some n"
proof (induction n rule: dec_digits.induct)
  case (1 n)
  show ?case
  proof (cases "n < 10")
    case True
    then show ?thesis by (subst dec_digits.simps) (simp add: char_digit_digit_char)
  next
    case False
    then show ?thesis
      by (subst dec_digits.simps) (simp add: read_digits_append 1 char_digit_digit_char)
  qed
qed

lemma show_nat_not_Nil [simp]: "show_nat n \<noteq> []"
  by (simp add: show_nat_def)

lemma digit_char_not:
  assumes "d < 10" and "of_char c \<notin> {48..<58 :: nat}"
  shows "digit_char d \<noteq> c"
proof
  assume "digit_char d = c"
  then have "of_char c = (48 + d) mod 256" by (auto simp: digit_char_def)
  with assms show False by simp
qed

lemma show_nat_chars:
  "c \<in> set (show_nat n) \<Longrightarrow> of_char c \<in> {48..<58 :: nat}"
  using dec_digits_small [of n] by (auto simp: show_nat_def digit_char_def)

lemma parse_show_nat: "n < bound \<Longrightarrow> parse_unsigned bound (show_nat n) = Some n"
proof -
  assume b: "n < bound"
  obtain c cs where eq: "show_nat n = c # cs" by (cases "show_nat n") auto
  then have "of_char c \<in> {48..<58 :: nat}" using show_nat_chars [of c n] by simp
  then have "c \<noteq> CHR ''+''" by auto
  then show ?thesis
    using b eq read_digits_dec [of n] by (simp add: parse_unsigned_def show_nat_def)
qed

lemma length_show_padded: "w \<le> length (show_padded w n)"
  by (simp add: show_padded_def)

end
