(* ===== verification/Float64.thy ===== *)
theory Float64
  imports Prelude
begin

text \<open>
  Rust's \<open>f64\<close>: finite values as the rationals they denote, the infinities and a NaN, every
  arithmetic operation rounding its exact result to the nearest binary64 value, ties to even, with
  gradual underflow and overflow to infinity. Comparison is IEEE's (no NaN compares to anything);
  the class order of the type is \<open>f64::total_cmp\<close>. The two zeros are one value, and the NaNs are
  one value: no result of the modelled code depends on the difference except the printed sign of a
  zero. The lemmas bound rounding: it is monotone, exact on small integers, and keeps the unit
  interval.
\<close>

section \<open>Values\<close>

datatype f64 = NegInf | Fin rat | PosInf | NaN

fun f64_rank :: "f64 \<Rightarrow> nat" where
  "f64_rank NegInf = 0"
| "f64_rank (Fin q) = 1"
| "f64_rank PosInf = 2"
| "f64_rank NaN = 3"

fun f64_rat :: "f64 \<Rightarrow> rat" where
  "f64_rat (Fin q) = q"
| "f64_rat _ = 0"

instantiation f64 :: linorder
begin

definition less_eq_f64 :: "f64 \<Rightarrow> f64 \<Rightarrow> bool" where
  "less_eq_f64 a b \<longleftrightarrow>
     f64_rank a < f64_rank b \<or> (f64_rank a = f64_rank b \<and> f64_rat a \<le> f64_rat b)"

definition less_f64 :: "f64 \<Rightarrow> f64 \<Rightarrow> bool" where
  "less_f64 a b \<longleftrightarrow> a \<le> b \<and> \<not> b \<le> (a :: f64)"

instance
proof
  fix x y z :: f64
  show "(x < y) = (x \<le> y \<and> \<not> y \<le> x)" by (rule less_f64_def)
  show "x \<le> x" by (simp add: less_eq_f64_def)
  show "x \<le> y \<Longrightarrow> y \<le> z \<Longrightarrow> x \<le> z" by (auto simp: less_eq_f64_def)
  show "x \<le> y \<Longrightarrow> y \<le> x \<Longrightarrow> x = y"
    by (cases x; cases y) (auto simp: less_eq_f64_def)
  show "x \<le> y \<or> y \<le> x" by (auto simp: less_eq_f64_def)
qed

end

lemma less_eq_f64_Fin [simp]: "Fin a \<le> Fin b \<longleftrightarrow> a \<le> b"
  by (simp add: less_eq_f64_def)

lemma less_f64_Fin [simp]: "Fin a < Fin b \<longleftrightarrow> a < b"
  by (auto simp: less_f64_def)

section \<open>Rounding\<close>

definition round_half_even :: "rat \<Rightarrow> int" where
  "round_half_even x =
     (let f = \<lfloor>x\<rfloor>; r = x - of_int f
      in if r < 1 / 2 then f else if 1 / 2 < r then f + 1 else if even f then f else f + 1)"

fun nat_log2 :: "nat \<Rightarrow> nat" where
  "nat_log2 n = (if n < 2 then 0 else Suc (nat_log2 (n div 2)))"

declare nat_log2.simps [simp del]

text \<open>The binary exponent of a positive rational: \<open>2 powi e \<le> q < 2 powi (e + 1)\<close>.\<close>

definition rat_exponent :: "rat \<Rightarrow> int" where
  "rat_exponent q =
     (case quotient_of q of (n, d) \<Rightarrow>
        let k = int (nat_log2 (nat n)) - int (nat_log2 (nat d))
        in if 2 powi k \<le> q then k else k - 1)"

definition f64_ulp :: "rat \<Rightarrow> rat" where
  "f64_ulp q = 2 powi (max (- 1074) (rat_exponent q - 52))"

definition round_pos :: "rat \<Rightarrow> rat" where
  "round_pos q = (if q = 0 then 0 else of_int (round_half_even (q / f64_ulp q)) * f64_ulp q)"

definition fl :: "rat \<Rightarrow> f64" where
  "fl q =
     (let m = round_pos \<bar>q\<bar>
      in if 2 ^ 1024 \<le> m then (if q < 0 then NegInf else PosInf)
         else Fin (if q < 0 then - m else m))"

section \<open>Operations\<close>

fun f64_neg :: "f64 \<Rightarrow> f64" where
  "f64_neg NaN = NaN"
| "f64_neg PosInf = NegInf"
| "f64_neg NegInf = PosInf"
| "f64_neg (Fin a) = Fin (- a)"

fun f64_add :: "f64 \<Rightarrow> f64 \<Rightarrow> f64" where
  "f64_add (Fin a) (Fin b) = fl (a + b)"
| "f64_add NaN _ = NaN"
| "f64_add _ NaN = NaN"
| "f64_add PosInf NegInf = NaN"
| "f64_add NegInf PosInf = NaN"
| "f64_add PosInf _ = PosInf"
| "f64_add NegInf _ = NegInf"
| "f64_add (Fin a) b = b"

definition f64_sub :: "f64 \<Rightarrow> f64 \<Rightarrow> f64" where
  "f64_sub a b = f64_add a (f64_neg b)"

definition signed_inf :: "rat \<Rightarrow> f64" where
  "signed_inf s = (if s = 0 then NaN else if s < 0 then NegInf else PosInf)"

fun f64_sign :: "f64 \<Rightarrow> rat" where
  "f64_sign NegInf = - 1"
| "f64_sign PosInf = 1"
| "f64_sign (Fin a) = sgn a"
| "f64_sign NaN = 0"

fun f64_mul :: "f64 \<Rightarrow> f64 \<Rightarrow> f64" where
  "f64_mul (Fin a) (Fin b) = fl (a * b)"
| "f64_mul NaN _ = NaN"
| "f64_mul _ NaN = NaN"
| "f64_mul a b = signed_inf (f64_sign a * f64_sign b)"

fun f64_div :: "f64 \<Rightarrow> f64 \<Rightarrow> f64" where
  "f64_div (Fin a) (Fin b) = (if b = 0 then signed_inf (sgn a) else fl (a / b))"
| "f64_div NaN _ = NaN"
| "f64_div _ NaN = NaN"
| "f64_div (Fin a) _ = Fin 0"
| "f64_div a (Fin b) = signed_inf (f64_sign a * (if b < 0 then - 1 else 1))"
| "f64_div _ _ = NaN"

fun f64_le :: "f64 \<Rightarrow> f64 \<Rightarrow> bool" where
  "f64_le NaN _ = False"
| "f64_le _ NaN = False"
| "f64_le a b = (a \<le> b)"

fun f64_lt :: "f64 \<Rightarrow> f64 \<Rightarrow> bool" where
  "f64_lt NaN _ = False"
| "f64_lt _ NaN = False"
| "f64_lt a b = (a < b)"

definition f64_eq :: "f64 \<Rightarrow> f64 \<Rightarrow> bool" where
  "f64_eq a b = (a \<noteq> NaN \<and> a = b)"

fun f64_is_finite :: "f64 \<Rightarrow> bool" where
  "f64_is_finite (Fin _) = True"
| "f64_is_finite _ = False"

text \<open>\<open>n as f64\<close> of an unsigned integer.\<close>

definition f64_of_nat :: "nat \<Rightarrow> f64" where
  "f64_of_nat n = fl (of_nat n)"

text \<open>\<open>f64::round\<close> rounds half away from zero; \<open>f64::floor\<close>; \<open>x as usize\<close> and \<open>x as u64\<close> saturate
  and take NaN to zero.\<close>

definition round_half_away :: "rat \<Rightarrow> int" where
  "round_half_away q = (if q < 0 then - \<lfloor>- q + 1 / 2\<rfloor> else \<lfloor>q + 1 / 2\<rfloor>)"

fun f64_round :: "f64 \<Rightarrow> f64" where
  "f64_round (Fin q) = Fin (of_int (round_half_away q))"
| "f64_round x = x"

fun f64_floor :: "f64 \<Rightarrow> f64" where
  "f64_floor (Fin q) = Fin (of_int \<lfloor>q\<rfloor>)"
| "f64_floor x = x"

fun f64_to_u64 :: "f64 \<Rightarrow> nat" where
  "f64_to_u64 (Fin q) = (if q < 0 then 0 else min (nat \<lfloor>q\<rfloor>) (usize_bound - 1))"
| "f64_to_u64 PosInf = usize_bound - 1"
| "f64_to_u64 _ = 0"

definition f64_sum :: "f64 list \<Rightarrow> f64" where
  "f64_sum xs = foldl f64_add (Fin 0) xs"

section \<open>Facts about rounding\<close>

lemma round_half_even_ge: "of_int i \<le> x \<Longrightarrow> i \<le> round_half_even x"
proof -
  assume "of_int i \<le> x"
  then have "i \<le> \<lfloor>x\<rfloor>" by (simp add: le_floor_iff)
  then show ?thesis by (simp add: round_half_even_def Let_def)
qed

lemma round_half_even_le:
  assumes "x \<le> of_int i"
  shows "round_half_even x \<le> i"
proof (cases "\<lfloor>x\<rfloor> = i")
  case True
  with assms have "x = of_int i" by linarith
  then show ?thesis by (simp add: round_half_even_def)
next
  case False
  with assms have "\<lfloor>x\<rfloor> < i" by linarith
  then show ?thesis by (simp add: round_half_even_def Let_def)
qed

lemma round_half_even_mono:
  assumes "x \<le> y"
  shows "round_half_even x \<le> round_half_even y"
proof (cases "\<lfloor>x\<rfloor> = \<lfloor>y\<rfloor>")
  case True
  with assms show ?thesis by (auto simp: round_half_even_def Let_def)
next
  case False
  with assms have "\<lfloor>x\<rfloor> + 1 \<le> \<lfloor>y\<rfloor>" using floor_mono [OF assms] by linarith
  moreover have "round_half_even x \<le> \<lfloor>x\<rfloor> + 1" by (simp add: round_half_even_def Let_def)
  moreover have "\<lfloor>y\<rfloor> \<le> round_half_even y" by (simp add: round_half_even_def Let_def)
  ultimately show ?thesis by linarith
qed

lemma round_half_even_of_int [simp]: "round_half_even (of_int i) = i"
  by (simp add: round_half_even_def)

lemma nat_log2_bounds: "0 < n \<Longrightarrow> 2 ^ nat_log2 n \<le> n \<and> n < 2 ^ (nat_log2 n + 1)"
proof (induction n rule: nat_log2.induct)
  case (1 n)
  show ?case
  proof (cases "n < 2")
    case True
    with "1.prems" show ?thesis by (subst (1 2) nat_log2.simps) simp
  next
    case False
    then have "2 ^ nat_log2 (n div 2) \<le> n div 2 \<and> n div 2 < 2 ^ (nat_log2 (n div 2) + 1)"
      using "1.IH" by simp
    then have "2 * 2 ^ nat_log2 (n div 2) \<le> n \<and> n < 2 * 2 ^ (nat_log2 (n div 2) + 1)"
      by (auto simp del: power_Suc)
    with False show ?thesis by (subst (1 2) nat_log2.simps) simp
  qed
qed

lemma rat_exponent_bounds:
  assumes "0 < q"
  shows "2 powi (rat_exponent q) \<le> q" and "q < 2 powi (rat_exponent q + 1)"
proof -
  obtain n d where nd: "quotient_of q = (n, d)" by (cases "quotient_of q")
  have d: "0 < d" using nd quotient_of_denom_pos by blast
  have q: "q = of_int n / of_int d" using nd by (rule quotient_of_div)
  have n: "0 < n" using assms d by (simp add: q zero_less_divide_iff)
  define a b where "a = nat_log2 (nat n)" and "b = nat_log2 (nat d)"
  have na: "2 ^ a \<le> nat n" "nat n < 2 ^ (a + 1)" and db: "2 ^ b \<le> nat d" "nat d < 2 ^ (b + 1)"
    using nat_log2_bounds [of "nat n"] nat_log2_bounds [of "nat d"] n d
    by (simp_all add: a_def b_def)
  have na': "(2 :: rat) ^ a \<le> of_int n" "of_int n < (2 :: rat) ^ (a + 1)"
    using na n by (metis of_nat_le_iff of_nat_nat of_nat_numeral of_nat_power order_less_imp_le of_int_of_nat_eq)
      (use na n in \<open>metis of_nat_less_iff of_nat_nat of_nat_numeral of_nat_power order_less_imp_le of_int_of_nat_eq\<close>)
  have db': "(2 :: rat) ^ b \<le> of_int d" "of_int d < (2 :: rat) ^ (b + 1)"
    using db d by (metis of_nat_le_iff of_nat_nat of_nat_numeral of_nat_power order_less_imp_le of_int_of_nat_eq)
      (use db d in \<open>metis of_nat_less_iff of_nat_nat of_nat_numeral of_nat_power order_less_imp_le of_int_of_nat_eq\<close>)
  define k where "k = int a - int b"
  have up: "q < 2 powi (k + 1)"
  proof -
    have "of_int n / of_int d < (2 :: rat) ^ (a + 1) / 2 ^ b"
      using na' db' d by (intro frac_less) (auto simp: n less_imp_le)
    also have "\<dots> = 2 powi (int (a + 1) - int b)"
      by (simp add: power_int_diff power_int_add)
    finally show ?thesis by (simp add: q k_def algebra_simps)
  qed
  have lo: "2 powi (k - 1) < q"
  proof -
    have "2 powi (int a - int (b + 1)) = (2 :: rat) ^ a / 2 ^ (b + 1)"
      by (simp add: power_int_diff power_int_add)
    also have "\<dots> < of_int n / of_int d"
      using na' db' d by (intro frac_less2) auto
    finally show ?thesis by (simp add: q k_def algebra_simps)
  qed
  have e: "rat_exponent q = (if 2 powi k \<le> q then k else k - 1)"
    by (simp add: rat_exponent_def nd a_def b_def k_def Let_def)
  show "2 powi (rat_exponent q) \<le> q" using lo by (simp add: e)
  show "q < 2 powi (rat_exponent q + 1)" using up by (simp add: e)
qed

lemma powi2_le_iff [simp]: "(2 :: rat) powi j \<le> 2 powi k \<longleftrightarrow> j \<le> k"
  using power_int_increasing [of j k "2 :: rat"] power_int_strict_increasing [of k j "2 :: rat"]
  by (cases "j \<le> k") auto

lemma powi2_less_iff [simp]: "(2 :: rat) powi j < 2 powi k \<longleftrightarrow> j < k"
  using powi2_le_iff [of k j] by (simp add: not_le [symmetric])

lemma f64_ulp_pos [simp]: "0 < f64_ulp q"
  by (simp add: f64_ulp_def)

lemma round_pos_le_multiple:
  assumes "0 \<le> q" and "q \<le> of_int i * f64_ulp q"
  shows "round_pos q \<le> of_int i * f64_ulp q"
proof (cases "q = 0")
  case True
  with assms show ?thesis by (simp add: round_pos_def)
next
  case False
  have "q / f64_ulp q \<le> of_int i" using assms by (simp add: pos_divide_le_eq)
  then have "round_half_even (q / f64_ulp q) \<le> i" by (rule round_half_even_le)
  then show ?thesis using False by (simp add: round_pos_def)
qed

lemma round_pos_ge_multiple:
  assumes "0 < q" and "of_int i * f64_ulp q \<le> q"
  shows "of_int i * f64_ulp q \<le> round_pos q"
proof -
  have "of_int i \<le> q / f64_ulp q" using assms by (simp add: pos_le_divide_eq)
  then have "i \<le> round_half_even (q / f64_ulp q)" by (rule round_half_even_ge)
  then show ?thesis using assms(1) by (simp add: round_pos_def)
qed

lemma round_pos_nonneg: "0 \<le> q \<Longrightarrow> 0 \<le> round_pos q"
proof (cases "q = 0")
  case False
  assume "0 \<le> q"
  with False show ?thesis using round_pos_ge_multiple [of q 0] by simp
qed (simp add: round_pos_def)

lemma powi_multiple_of_ulp:
  assumes "max (- 1074) (rat_exponent q - 52) \<le> k"
  shows "\<exists>i. (2 :: rat) powi k = of_int i * f64_ulp q"
proof -
  define m where "m = max (- 1074) (rat_exponent q - 52)"
  have "(2 :: rat) powi k = 2 powi (k - m) * 2 powi m"
    by (simp add: power_int_add [symmetric])
  also have "(2 :: rat) powi (k - m) = of_int (2 ^ nat (k - m))"
    using assms by (simp add: m_def power_int_def)
  finally show ?thesis by (auto simp: f64_ulp_def m_def)
qed

lemma rat_exponent_mono:
  assumes "0 < q" and "q \<le> r"
  shows "rat_exponent q \<le> rat_exponent r"
proof (rule ccontr)
  assume "\<not> rat_exponent q \<le> rat_exponent r"
  then have "(2 :: rat) powi (rat_exponent r + 1) \<le> 2 powi (rat_exponent q)"
    by (intro power_int_increasing) auto
  then show False
    using rat_exponent_bounds [of q] rat_exponent_bounds [of r] assms by linarith
qed

lemma round_pos_mono:
  assumes "0 \<le> q" and "q \<le> r"
  shows "round_pos q \<le> round_pos r"
proof (cases "q = 0")
  case True
  with assms show ?thesis using round_pos_nonneg [of r] by (simp add: round_pos_def)
next
  case False
  with assms have q: "0 < q" and r: "0 < r" by simp_all
  let ?m = "\<lambda>q. max (- 1074) (rat_exponent q - 52)"
  have e: "rat_exponent q \<le> rat_exponent r" using q assms(2) by (rule rat_exponent_mono)
  show ?thesis
  proof (cases "?m q = ?m r")
    case True
    then have u: "f64_ulp q = f64_ulp r" by (simp only: f64_ulp_def)
    have "q / f64_ulp r \<le> r / f64_ulp r" using assms(2) by (simp add: divide_right_mono less_imp_le)
    then have "round_half_even (q / f64_ulp r) \<le> round_half_even (r / f64_ulp r)"
      by (rule round_half_even_mono)
    then show ?thesis using q r u by (simp add: round_pos_def less_imp_le)
  next
    case False
    with e have lt: "?m q < ?m r" by linarith
    obtain i where i: "(2 :: rat) powi (rat_exponent r) = of_int i * f64_ulp q"
      using powi_multiple_of_ulp [of q "rat_exponent r"] lt by force
    obtain j where j: "(2 :: rat) powi (rat_exponent r) = of_int j * f64_ulp r"
      using powi_multiple_of_ulp [of r "rat_exponent r"] lt by force
    have "rat_exponent q + 1 \<le> rat_exponent r" using lt by linarith
    then have "(2 :: rat) powi (rat_exponent q + 1) \<le> 2 powi (rat_exponent r)"
      by (intro power_int_increasing) auto
    then have "q \<le> of_int i * f64_ulp q" using rat_exponent_bounds(2) [OF q] i by linarith
    then have "round_pos q \<le> 2 powi (rat_exponent r)"
      using round_pos_le_multiple [of q i] q i by simp
    moreover have "2 powi (rat_exponent r) \<le> round_pos r"
      using round_pos_ge_multiple [of r j] r j rat_exponent_bounds(1) [OF r] by simp
    ultimately show ?thesis by simp
  qed
qed

lemma rat_exponent_powi [simp]: "rat_exponent (2 powi k) = k"
proof -
  have pos: "(0 :: rat) < 2 powi k" by simp
  have "rat_exponent (2 powi k) \<le> k"
    using rat_exponent_bounds(1) [OF pos] by simp
  moreover have "k < rat_exponent (2 powi k) + 1"
    using rat_exponent_bounds(2) [OF pos] by (simp only: powi2_less_iff)
  ultimately show ?thesis by linarith
qed

lemma round_pos_exact:
  assumes "q = of_int i * f64_ulp q"
  shows "round_pos q = q"
proof -
  have "f64_ulp q \<noteq> 0" using f64_ulp_pos [of q] by (rule less_imp_neq [symmetric])
  then have "q / f64_ulp q = of_int i" using assms by (simp add: divide_eq_eq)
  then show ?thesis using assms by (simp add: round_pos_def)
qed

lemma round_pos_powi: "- 1022 \<le> k \<Longrightarrow> round_pos (2 powi k) = 2 powi k"
  using powi_multiple_of_ulp [of "2 powi k" k] round_pos_exact by auto

lemma round_pos_1 [simp]: "round_pos 1 = 1"
  using round_pos_powi [of 0] by simp

lemma round_pos_0 [simp]: "round_pos 0 = 0"
  by (simp add: round_pos_def)

lemma round_pos_dyadic:
  assumes "n < 2 ^ 53" and "k \<le> 1000"
  shows "round_pos (of_nat n / 2 ^ k) = of_nat n / 2 ^ k"
proof (cases "n = 0")
  case False
  define q where "q = (of_nat n / 2 ^ k :: rat)"
  have q: "0 < q" using False by (simp add: q_def)
  have "(2 :: rat) powi (rat_exponent q) < 2 powi (53 - int k)"
  proof -
    have "(of_nat n :: rat) < of_nat (2 ^ 53)" using assms(1) by (simp only: of_nat_less_iff)
    then have "q < 2 ^ 53 / 2 ^ k" unfolding q_def by (intro divide_strict_right_mono) simp_all
    also have "(2 :: rat) ^ 53 / 2 ^ k = 2 powi (53 - int k)" by (simp add: power_int_diff)
    finally show ?thesis using rat_exponent_bounds(1) [OF q] by linarith
  qed
  then have "rat_exponent q < 53 - int k" by (simp only: powi2_less_iff)
  then obtain i where "(2 :: rat) powi (- int k) = of_int i * f64_ulp q"
    using powi_multiple_of_ulp [of q "- int k"] assms(2) by force
  then have "q = of_int (int n * i) * f64_ulp q"
    by (simp add: q_def mult.assoc power_int_minus divide_inverse)
  then have "round_pos q = q" by (rule round_pos_exact)
  then show ?thesis by (simp add: q_def)
qed simp

lemma round_pos_nat: "n < 2 ^ 53 \<Longrightarrow> round_pos (of_nat n) = of_nat n"
  using round_pos_dyadic [of n 0] by simp

section \<open>Facts about operations\<close>

lemma fl_nonneg:
  assumes "0 \<le> q" and "round_pos q < 2 ^ 1024"
  shows "fl q = Fin (round_pos q)"
  using assms by (simp add: fl_def)

lemma fl_unit:
  assumes "0 \<le> q" and "q \<le> 1"
  shows "\<exists>r. fl q = Fin r \<and> 0 \<le> r \<and> r \<le> 1"
proof -
  have le: "round_pos q \<le> 1" using round_pos_mono [OF assms] by simp
  have "(1 :: rat) < 2 ^ 1024" by (rule one_less_power) simp_all
  then have "fl q = Fin (round_pos q)" using assms(1) le by (intro fl_nonneg) linarith+
  then show ?thesis using le round_pos_nonneg [OF assms(1)] by simp
qed

lemma fl_0 [simp]: "fl 0 = Fin 0"
  by (simp add: fl_def)

lemma fl_1 [simp]: "fl 1 = Fin 1"
  by (simp add: fl_def)

lemma round_pos_u64:
  assumes "n < 2 ^ 64"
  shows "round_pos (of_nat n) < 2 ^ 1024"
proof -
  have "(of_nat n :: rat) \<le> of_nat (2 ^ 64)" using assms by (simp only: of_nat_le_iff less_imp_le)
  then have "(of_nat n :: rat) \<le> 2 powi 64" by simp
  then have "round_pos (of_nat n) \<le> round_pos (2 powi 64)" by (intro round_pos_mono) simp_all
  also have "\<dots> = 2 ^ 64" by (subst round_pos_powi) simp_all
  also have "\<dots> < (2 :: rat) ^ 1024" by (rule power_strict_increasing) simp_all
  finally show ?thesis .
qed

lemma f64_of_nat_u64: "n < 2 ^ 64 \<Longrightarrow> f64_of_nat n = Fin (round_pos (of_nat n))"
  unfolding f64_of_nat_def by (rule fl_nonneg) (simp, rule round_pos_u64)

lemma f64_of_nat_exact: "n < 2 ^ 53 \<Longrightarrow> f64_of_nat n = Fin (of_nat n)"
  by (subst f64_of_nat_u64) (simp_all add: round_pos_nat)

lemma round_pos_ge_1: "0 < n \<Longrightarrow> 1 \<le> round_pos (of_nat n)"
  using round_pos_mono [of 1 "of_nat n"] by simp

text \<open>Dyadic rationals of at most 53 significant bits are exact: the values witnesses compute with.\<close>

lemma fl_dyadic:
  assumes "n < 2 ^ 53" and "k \<le> 1000"
  shows "fl (of_nat n / 2 ^ k) = Fin (of_nat n / 2 ^ k)"
proof -
  have "(of_nat n :: rat) < of_nat (2 ^ 53)" using assms(1) by (simp only: of_nat_less_iff)
  then have "(of_nat n / 2 ^ k :: rat) < 2 ^ 53 / 2 ^ k"
    by (intro divide_strict_right_mono) simp_all
  also have "\<dots> \<le> (2 :: rat) ^ 53 / 1" by (intro divide_left_mono) simp_all
  also have "\<dots> < 2 ^ 1024" by simp
  finally have "round_pos (of_nat n / 2 ^ k :: rat) < 2 ^ 1024"
    by (simp only: round_pos_dyadic [OF assms])
  then have "fl (of_nat n / 2 ^ k) = Fin (round_pos (of_nat n / 2 ^ k))"
    by (intro fl_nonneg) simp_all
  then show ?thesis by (simp only: round_pos_dyadic [OF assms])
qed

text \<open>A ratio of two counters is a finite value of the unit interval.\<close>

lemma f64_ratio_unit:
  assumes "a \<le> b" and "0 < b" and "b < 2 ^ 64"
  shows "\<exists>r. f64_div (f64_of_nat a) (f64_of_nat b) = Fin r \<and> 0 \<le> r \<and> r \<le> 1"
proof -
  have b1: "1 \<le> round_pos (of_nat b)" using assms(2) by (rule round_pos_ge_1)
  have ab: "round_pos (of_nat a) \<le> round_pos (of_nat b)"
    using assms(1) by (intro round_pos_mono) simp_all
  have a0: "0 \<le> round_pos (of_nat a)" by (simp add: round_pos_nonneg)
  have "0 \<le> round_pos (of_nat a) / round_pos (of_nat b)"
    and "round_pos (of_nat a) / round_pos (of_nat b) \<le> 1"
    using a0 b1 ab by simp_all
  then show ?thesis using assms b1 fl_unit by (simp add: f64_of_nat_u64)
qed

lemma f64_one_minus_unit:
  "0 \<le> r \<Longrightarrow> r \<le> 1 \<Longrightarrow> \<exists>s. f64_sub (Fin 1) (Fin r) = Fin s \<and> 0 \<le> s \<and> s \<le> 1"
  using fl_unit [of "1 - r"] by (simp add: f64_sub_def)

lemma f64_finite_iff: "f64_is_finite x \<longleftrightarrow> (\<exists>q. x = Fin q)"
  by (cases x) auto

lemma f64_le_Fin [simp]: "f64_le (Fin a) (Fin b) \<longleftrightarrow> a \<le> b"
  by simp

end
