(* ===== verification/Cohort.thy ===== *)
theory Cohort
  imports Prelude
begin

text \<open>
  Cohort names (\<open>vectorseam-core/src/cohort.rs\<close>): the grammar check with its nine errors in the
  source's order, the validated newtype with its derived order, and the facts other components rest
  on: a valid name is exactly one to eight path-safe segments, so it is ASCII, fits the segment
  header, and cannot escape or alias a storage prefix.
\<close>

section \<open>Definitions\<close>

definition MAX_COHORT_NAME_BYTES :: nat where
  "MAX_COHORT_NAME_BYTES = 255"

definition MAX_COHORT_SEGMENTS :: nat where
  "MAX_COHORT_SEGMENTS = 8"

definition MAX_COHORT_SEGMENT_BYTES :: nat where
  "MAX_COHORT_SEGMENT_BYTES = 63"

datatype cohort_name_error =
    Empty
  | NameTooLong
  | NonAscii
  | TooManySegments
  | EmptySegment
  | SegmentTooLong
  | DotSegment
  | ReservedWindowSegment
  | InvalidSegment

definition is_allowed_segment_byte :: "char \<Rightarrow> bool" where
  "is_allowed_segment_byte c =
     (let b = of_char c :: nat
      in (48 \<le> b \<and> b \<le> 57) \<or> (65 \<le> b \<and> b \<le> 90) \<or> (97 \<le> b \<and> b \<le> 122)
         \<or> c = CHR ''.'' \<or> c = CHR ''_'' \<or> c = CHR ''-'' \<or> c = CHR ''='')"

definition validate_segment :: "string \<Rightarrow> cohort_name_error + unit" where
  "validate_segment segment =
     (if segment = [] then Inl EmptySegment
      else if length segment > MAX_COHORT_SEGMENT_BYTES then Inl SegmentTooLong
      else if segment = ''.'' \<or> segment = ''..'' then Inl DotSegment
      else if starts_with segment ''window='' then Inl ReservedWindowSegment
      else if list_all is_allowed_segment_byte segment then Inr ()
      else Inl InvalidSegment)"

definition validate_cohort_name :: "string \<Rightarrow> cohort_name_error + unit" where
  "validate_cohort_name name =
     (if name = [] then Inl Empty
      else if length name > MAX_COHORT_NAME_BYTES then Inl NameTooLong
      else if \<not> is_ascii name then Inl NonAscii
      else
        let segments = split_on (CHR ''/'') name
        in if length segments > MAX_COHORT_SEGMENTS then Inl TooManySegments
           else try_fold (\<lambda>_ segment. validate_segment segment) () segments)"

definition is_valid_cohort_name :: "string \<Rightarrow> bool" where
  "is_valid_cohort_name name = is_ok (validate_cohort_name name)"

datatype cohort_name = CohortName string

fun as_str :: "cohort_name \<Rightarrow> string" where
  "as_str (CohortName s) = s"

definition cohort_new :: "string \<Rightarrow> cohort_name_error + cohort_name" where
  "cohort_new name = res_bind (validate_cohort_name name) (\<lambda>_. Inr (CohortName name))"

text \<open>The derived \<open>Ord\<close> of the newtype is the order of the string inside.\<close>

instantiation cohort_name :: linorder
begin

definition less_eq_cohort_name :: "cohort_name \<Rightarrow> cohort_name \<Rightarrow> bool" where
  "less_eq_cohort_name a b \<longleftrightarrow> as_str a \<le> as_str b"

definition less_cohort_name :: "cohort_name \<Rightarrow> cohort_name \<Rightarrow> bool" where
  "less_cohort_name a b \<longleftrightarrow> as_str a < as_str b"

instance
proof
  fix x y z :: cohort_name
  show "(x < y) = (x \<le> y \<and> \<not> y \<le> x)"
    by (auto simp: less_eq_cohort_name_def less_cohort_name_def)
  show "x \<le> x" by (simp add: less_eq_cohort_name_def)
  show "x \<le> y \<Longrightarrow> y \<le> z \<Longrightarrow> x \<le> z" by (simp add: less_eq_cohort_name_def)
  show "x \<le> y \<Longrightarrow> y \<le> x \<Longrightarrow> x = y"
    by (cases x; cases y) (simp add: less_eq_cohort_name_def)
  show "x \<le> y \<or> y \<le> x" by (auto simp: less_eq_cohort_name_def)
qed

end

text \<open>The grammar as the documentation states it, and the type's invariant.\<close>

definition cohort_segment :: "string \<Rightarrow> bool" where
  "cohort_segment s \<longleftrightarrow>
     1 \<le> length s \<and> length s \<le> 63 \<and> s \<noteq> ''.'' \<and> s \<noteq> ''..''
     \<and> \<not> (\<exists>r. s = ''window='' @ r) \<and> (\<forall>c \<in> set s. is_allowed_segment_byte c)"

definition cohort_ok :: "cohort_name \<Rightarrow> bool" where
  "cohort_ok c \<longleftrightarrow> is_valid_cohort_name (as_str c)"

section \<open>Facts\<close>

lemmas cohort_limits = MAX_COHORT_NAME_BYTES_def MAX_COHORT_SEGMENTS_def MAX_COHORT_SEGMENT_BYTES_def

lemma validate_segment_ok: "validate_segment s = Inr () \<longleftrightarrow> cohort_segment s"
  by (auto simp: validate_segment_def cohort_segment_def cohort_limits starts_with_append
      list_all_iff Suc_le_eq)

lemma validate_segments_ok:
  "try_fold (\<lambda>_ s. validate_segment s) () ws = Inr () \<longleftrightarrow> (\<forall>w \<in> set ws. cohort_segment w)"
  by (induction ws) (auto simp: result_simps validate_segment_ok)

lemma is_valid_cohort_name_iff:
  "is_valid_cohort_name s \<longleftrightarrow>
     s \<noteq> [] \<and> length s \<le> 255 \<and> is_ascii s \<and> length (split_on (CHR ''/'') s) \<le> 8
     \<and> (\<forall>w \<in> set (split_on (CHR ''/'') s). cohort_segment w)"
  by (auto simp: is_valid_cohort_name_def validate_cohort_name_def cohort_limits Let_def is_ok_iff
      validate_segments_ok)

lemma allowed_byte_ascii: "is_allowed_segment_byte c \<Longrightarrow> of_char c < (128 :: nat)"
  by (auto simp: is_allowed_segment_byte_def Let_def)

lemma slash_not_allowed [simp]: "\<not> is_allowed_segment_byte (CHR ''/'')"
  by (simp add: is_allowed_segment_byte_def)

lemma cohort_segment_no_slash: "cohort_segment w \<Longrightarrow> CHR ''/'' \<notin> set w"
  by (auto simp: cohort_segment_def)

lemma cohort_new_Inr [result_simps]:
  "cohort_new s = Inr c \<longleftrightarrow> c = CohortName s \<and> is_valid_cohort_name s"
  by (auto simp: cohort_new_def is_valid_cohort_name_def is_ok_iff result_simps)

lemma cohort_new_ok: "cohort_ok c \<Longrightarrow> cohort_new (as_str c) = Inr c"
  by (cases c) (simp add: cohort_new_Inr cohort_ok_def)

lemma cohort_ok_length: "cohort_ok c \<Longrightarrow> length (as_str c) \<le> 255"
  by (simp add: cohort_ok_def is_valid_cohort_name_iff)

lemma cohort_ok_ascii: "cohort_ok c \<Longrightarrow> is_ascii (as_str c)"
  by (simp add: cohort_ok_def is_valid_cohort_name_iff)

lemma set_join_with:
  "set (join_with [d] ws) \<subseteq> insert d (\<Union>w \<in> set ws. set w)"
  by (induction ws rule: induct_list012) auto

lemma grammar_ascii:
  assumes "\<forall>w \<in> set ws. cohort_segment w"
  shows "is_ascii (join_with ''/'' ws)"
proof -
  have "of_char c < (128 :: nat)" if "c \<in> set (join_with ''/'' ws)" for c
  proof -
    have "c = CHR ''/'' \<or> is_allowed_segment_byte c"
      using that set_join_with [of "CHR ''/''" ws] assms by (auto simp: cohort_segment_def)
    then show ?thesis using allowed_byte_ascii by auto
  qed
  then show ?thesis by (simp add: is_ascii_def)
qed

section \<open>Properties\<close>

text \<open>
  C40. The validator accepts exactly the documented grammar: one to eight segments of path-safe
  characters joined by slashes, none of them a dot segment or a reserved \<open>window=\<close> segment, in at
  most 255 bytes. The characters of a segment exclude the slash, so the segments are unique.
\<close>

theorem valid_cohort_name_grammar:
  "is_valid_cohort_name s \<longleftrightarrow>
     length s \<le> 255 \<and>
     (\<exists>ws. 1 \<le> length ws \<and> length ws \<le> 8 \<and> (\<forall>w \<in> set ws. cohort_segment w)
        \<and> s = join_with ''/'' ws)"
proof
  assume "is_valid_cohort_name s"
  then have "length s \<le> 255" and "length (split_on (CHR ''/'') s) \<le> 8"
    and "\<forall>w \<in> set (split_on (CHR ''/'') s). cohort_segment w"
    by (simp_all add: is_valid_cohort_name_iff)
  then show "length s \<le> 255 \<and> (\<exists>ws. 1 \<le> length ws \<and> length ws \<le> 8
      \<and> (\<forall>w \<in> set ws. cohort_segment w) \<and> s = join_with ''/'' ws)"
    by (intro conjI exI [of _ "split_on (CHR ''/'') s"]) (simp_all add: split_on_join Suc_le_eq)
next
  assume "length s \<le> 255 \<and> (\<exists>ws. 1 \<le> length ws \<and> length ws \<le> 8
      \<and> (\<forall>w \<in> set ws. cohort_segment w) \<and> s = join_with ''/'' ws)"
  then obtain ws where s: "length s \<le> 255" "s = join_with ''/'' ws"
    and "1 \<le> length ws" and ws': "length ws \<le> 8" "\<forall>w \<in> set ws. cohort_segment w"
    by blast
  have "ws \<noteq> []" using \<open>1 \<le> length ws\<close> by (cases ws) simp_all
  note ws = this ws'
  have "\<forall>w \<in> set ws. CHR ''/'' \<notin> set w"
    using ws(3) cohort_segment_no_slash by blast
  then have split: "split_on (CHR ''/'') s = ws" using ws(1) s(2) split_on_join_with by simp
  moreover have "s \<noteq> []"
  proof
    assume "s = []"
    then have "ws = [[]]" using split by simp
    then show False using ws(3) by (simp add: cohort_segment_def)
  qed
  ultimately show "is_valid_cohort_name s"
    using s ws grammar_ascii by (simp add: is_valid_cohort_name_iff)
qed

theorem valid_cohort_name_grammar_witness:
  "is_valid_cohort_name ''shop/search''"
  unfolding valid_cohort_name_grammar
  by (intro conjI exI [of _ "[''shop'', ''search'']"]) (simp_all add: cohort_segment_def is_allowed_segment_byte_def)

end
