(* ===== verification/Window.thy ===== *)
theory Window
  imports Cohort
begin

text \<open>
  Window arithmetic and object keys (\<open>vectorseam-core/src/window.rs\<close>): the aligned window start on
  64-bit words, the conversion of days to a civil date on signed integers with Rust's truncating
  division, and the storage key of a segment. A ULID is its printed string, made outside this code.
  The lemmas show that the start is the greatest aligned time not after its argument and that no
  timestamp of the collector's range is an error.
\<close>

section \<open>Definitions\<close>

definition SECONDS_PER_DAY :: nat where
  "SECONDS_PER_DAY = 86400"

definition SECONDS_PER_HOUR :: nat where
  "SECONDS_PER_HOUR = 3600"

definition SECONDS_PER_MINUTE :: nat where
  "SECONDS_PER_MINUTE = 60"

datatype window_error = ZeroDuration | TimestampOutOfRange

definition aligned_window_start :: "u64 \<Rightarrow> u32 \<Rightarrow> window_error + u64" where
  "aligned_window_start unix_seconds window_seconds =
     (if window_seconds = 0 then Inl ZeroDuration
      else let width = ucast window_seconds :: u64
           in Inr (unix_seconds - unix_seconds mod width))"

text \<open>Rust's \<open>/\<close> on signed integers truncates towards zero.\<close>

definition tdiv :: "int \<Rightarrow> int \<Rightarrow> int" where
  "tdiv a b = sgn a * sgn b * (\<bar>a\<bar> div \<bar>b\<bar>)"

definition i64_checked_add :: "int \<Rightarrow> int \<Rightarrow> int option" where
  "i64_checked_add a b =
     (if - (2 ^ 63) \<le> a + b \<and> a + b < 2 ^ 63 then Some (a + b) else None)"

definition civil_from_days :: "int \<Rightarrow> window_error + int \<times> int \<times> int" where
  "civil_from_days days_since_unix_epoch =
     res_bind (ok_or (i64_checked_add days_since_unix_epoch 719468) TimestampOutOfRange) (\<lambda>z.
       let era = tdiv (if 0 \<le> z then z else z - 146096) 146097;
           doe = z - era * 146097;
           yoe = tdiv (doe - tdiv doe 1460 + tdiv doe 36524 - tdiv doe 146096) 365;
           year = yoe + era * 400;
           doy = doe - (365 * yoe + tdiv yoe 4 - tdiv yoe 100);
           mp = tdiv (5 * doy + 2) 153;
           day = doy - tdiv (153 * mp + 2) 5 + 1;
           month = mp + (if mp < 10 then 3 else - 9);
           adjusted_year = year + (if month \<le> 2 then 1 else 0)
       in Inr (adjusted_year, month, day))"

text \<open>\<open>{:0w}\<close> of a signed integer: the sign counts towards the width.\<close>

definition show_int_padded :: "nat \<Rightarrow> int \<Rightarrow> string" where
  "show_int_padded w i =
     (if i < 0 then CHR ''-'' # show_padded (w - 1) (nat (- i)) else show_padded w (nat i))"

definition format_window_timestamp :: "u64 \<Rightarrow> window_error + string" where
  "format_window_timestamp window_start =
     (let days = unat window_start div SECONDS_PER_DAY;
          seconds_of_day = unat window_start mod SECONDS_PER_DAY
      in if 2 ^ 63 \<le> days then Inl TimestampOutOfRange
         else res_bind (civil_from_days (int days)) (\<lambda>(year, month, day).
           let hour = seconds_of_day div SECONDS_PER_HOUR;
               minute = (seconds_of_day mod SECONDS_PER_HOUR) div SECONDS_PER_MINUTE
           in Inr (show_int_padded 4 year @ show_int_padded 2 month @ show_int_padded 2 day
                @ ''T'' @ show_padded 2 hour @ show_padded 2 minute @ ''Z'')))"

definition object_key :: "cohort_name \<Rightarrow> u64 \<Rightarrow> string \<Rightarrow> window_error + string" where
  "object_key cohort window_start part =
     res_bind (format_window_timestamp window_start) (\<lambda>timestamp.
       Inr (''cohorts/'' @ as_str cohort @ ''/window='' @ timestamp @ ''/part-'' @ part
            @ ''.vseam''))"

text \<open>A string slice panics when its bounds are not in the string.\<close>

definition str_slice :: "nat \<Rightarrow> nat \<Rightarrow> string \<Rightarrow> string option" where
  "str_slice a b s = (if a \<le> b \<and> b \<le> length s then Some (take (b - a) (drop a s)) else None)"

section \<open>Facts\<close>

lemmas second_consts = SECONDS_PER_DAY_def SECONDS_PER_HOUR_def SECONDS_PER_MINUTE_def

lemma tdiv_nonneg: "0 \<le> a \<Longrightarrow> 0 < b \<Longrightarrow> tdiv a b = a div b"
  by (cases "a = 0") (simp_all add: tdiv_def)

lemma unat_ucast_u32 [simp]: "unat (ucast (w :: u32) :: u64) = unat w"
  using u32_bound [of w] by (simp add: unsigned_ucast_eq take_bit_nat_eq_self)

lemma aligned_window_start_Inr:
  "aligned_window_start t w = Inr s \<longleftrightarrow>
     w \<noteq> 0 \<and> unat s = unat t div unat w * unat w"
proof -
  have le: "t mod ucast w \<le> t" by (simp add: word_le_nat_alt unat_mod_distrib)
  have "unat (t - t mod ucast w) = unat t - unat t mod unat w"
    using le by (simp add: unat_sub_le unat_mod_distrib)
  also have "\<dots> = unat t div unat w * unat w" by (simp add: minus_mod_eq_div_mult)
  finally have eq: "unat (t - t mod ucast w) = unat t div unat w * unat w" .
  have "aligned_window_start t w = Inr s \<longleftrightarrow> w \<noteq> 0 \<and> t - t mod ucast w = s"
    by (simp add: aligned_window_start_def Let_def)
  also have "\<dots> \<longleftrightarrow> w \<noteq> 0 \<and> unat (t - t mod ucast w) = unat s"
    by (simp add: word_unat_eq_iff)
  finally show ?thesis using eq by auto
qed

lemma aligned_window_start_total:
  "w \<noteq> 0 \<Longrightarrow> \<exists>s. aligned_window_start t w = Inr s"
  by (simp add: aligned_window_start_def Let_def)

lemma aligned_window_start_le: "aligned_window_start t w = Inr s \<Longrightarrow> s \<le> t"
  by (simp add: aligned_window_start_Inr word_le_nat_alt)

lemma civil_from_days_total:
  "0 \<le> n \<Longrightarrow> n < 2 ^ 62 \<Longrightarrow> \<exists>y m d. civil_from_days n = Inr (y, m, d)"
  by (simp add: civil_from_days_def i64_checked_add_def Let_def)

lemma days_bound: "unat (t :: u64) div SECONDS_PER_DAY < 2 ^ 48"
  using u64_bound [of t] by (simp add: second_consts usize_bound_def div_less_iff_less_mult)

lemma format_window_timestamp_total: "\<exists>s. format_window_timestamp t = Inr s"
proof -
  let ?n = "unat t div SECONDS_PER_DAY"
  have n: "?n < 2 ^ 48" by (rule days_bound)
  then have "int ?n < 2 ^ 48" by (metis of_nat_less_iff of_nat_numeral of_nat_power)
  then obtain y m d where "civil_from_days (int ?n) = Inr (y, m, d)"
    using civil_from_days_total [of "int ?n"] by auto
  then show ?thesis using n by (simp add: format_window_timestamp_def Let_def)
qed

lemma length_show_int_padded: "0 < w \<Longrightarrow> w \<le> length (show_int_padded w i)"
  using length_show_padded [of "w - 1"] length_show_padded [of w]
  by (auto simp: show_int_padded_def Suc_le_eq le_diff_conv intro: order_trans)

lemma length_timestamp:
  assumes "format_window_timestamp t = Inr s"
  shows "14 \<le> length s"
proof -
  obtain y m d h n where s: "s = show_int_padded 4 y @ show_int_padded 2 m @ show_int_padded 2 d
      @ ''T'' @ show_padded 2 h @ show_padded 2 n @ ''Z''"
    using assms by (auto simp: format_window_timestamp_def Let_def result_simps split: if_splits)
  have "4 \<le> length (show_int_padded 4 y)" "2 \<le> length (show_int_padded 2 m)"
    "2 \<le> length (show_int_padded 2 d)" "2 \<le> length (show_padded 2 h)" "2 \<le> length (show_padded 2 n)"
    by (simp_all add: length_show_int_padded length_show_padded)
  then show ?thesis unfolding s length_append by simp
qed

section \<open>Properties\<close>

text \<open>
  The aligned window start is the window that contains the timestamp: it is a multiple of the
  width, not after the timestamp, and less than one width before it; and it is the only such time.
\<close>

lemma aligned_window_start_spec:
  assumes "w \<noteq> 0"
  shows "aligned_window_start t w = Inr s \<longleftrightarrow>
     unat w dvd unat s \<and> unat s \<le> unat t \<and> unat t < unat s + unat w"
proof
  assume "aligned_window_start t w = Inr s"
  then have s: "unat s = unat t div unat w * unat w" by (simp add: aligned_window_start_Inr)
  have "0 < unat w" using assms by (simp add: unat_gt_0)
  then have "unat t mod unat w < unat w" by simp
  then have "unat t < unat s + unat w" using s div_mult_mod_eq [of "unat t" "unat w"] by linarith
  then show "unat w dvd unat s \<and> unat s \<le> unat t \<and> unat t < unat s + unat w"
    using s by simp
next
  assume r: "unat w dvd unat s \<and> unat s \<le> unat t \<and> unat t < unat s + unat w"
  then obtain k where k: "unat s = k * unat w" by (metis dvd_def mult.commute)
  have "unat t div unat w = k"
    using r k by (intro div_nat_eqI) (simp_all add: mult.commute)
  then show "aligned_window_start t w = Inr s" using assms k by (simp add: aligned_window_start_Inr)
qed

end
