(* ===== verification/Frame.thy ===== *)
theory Frame
  imports Prelude
begin

text \<open>
  Bounds-checked little-endian reads (\<open>vectorseam-core/src/binary.rs\<close>) and the protocol v1 frame
  envelope (\<open>vectorseam-core/src/frame.rs\<close>): the parser with each of its errors in order, and the
  encoder that states the wire format. The lemmas show that the parser accepts exactly the
  encodings of well-formed frames, and never looks at the vector payload.
\<close>

section \<open>Bounds-checked reads\<close>

datatype byte_read_error =
    Read_Truncated (needed: usize) (actual: usize)
  | Read_LengthOverflow

definition read_exact :: "u8 list \<Rightarrow> usize \<Rightarrow> usize \<Rightarrow> byte_read_error + u8 list" where
  "read_exact buffer offset len =
     res_bind (ok_or (usize_add offset len) Read_LengthOverflow) (\<lambda>stop.
       if stop \<le> length buffer then Inr (take len (drop offset buffer))
       else Inl (Read_Truncated stop (length buffer)))"

definition read_u16_le :: "u8 list \<Rightarrow> usize \<Rightarrow> byte_read_error + u16" where
  "read_u16_le buffer offset =
     res_bind (read_exact buffer offset 2) (\<lambda>bytes. Inr (word_from_le_bytes bytes))"

definition read_u32_le :: "u8 list \<Rightarrow> usize \<Rightarrow> byte_read_error + u32" where
  "read_u32_le buffer offset =
     res_bind (read_exact buffer offset 4) (\<lambda>bytes. Inr (word_from_le_bytes bytes))"

definition read_u64_le :: "u8 list \<Rightarrow> usize \<Rightarrow> byte_read_error + u64" where
  "read_u64_le buffer offset =
     res_bind (read_exact buffer offset 8) (\<lambda>bytes. Inr (word_from_le_bytes bytes))"

section \<open>Frame envelope\<close>

definition FRAME_MAGIC :: "u8 list" where
  "FRAME_MAGIC = str_bytes ''VQS1''"

definition FRAME_VERSION :: u32 where
  "FRAME_VERSION = 1"

definition FIXED_FRAME_HEADER_LEN :: usize where
  "FIXED_FRAME_HEADER_LEN = 28"

definition FRAME_LEN_FIELD_LEN :: usize where
  "FRAME_LEN_FIELD_LEN = 4"

definition FRAME_LEN_REMAINING_HEADER :: usize where
  "FRAME_LEN_REMAINING_HEADER = FIXED_FRAME_HEADER_LEN - FRAME_LEN_FIELD_LEN"

datatype frame_error =
    Frame_Truncated usize usize
  | Frame_BadMagic
  | Frame_BadVersion u32
  | Frame_NameLenExceedsFrame
  | Frame_FrameLenMismatch usize usize
  | Frame_InvalidNameUtf8
  | Frame_LengthOverflow

fun frame_error_from_read :: "byte_read_error \<Rightarrow> frame_error" where
  "frame_error_from_read (Read_Truncated n a) = Frame_Truncated n a"
| "frame_error_from_read Read_LengthOverflow = Frame_LengthOverflow"

record frame_header =
  fh_frame_len :: u32
  fh_dtype :: u32
  fh_name_len :: u32
  fh_dimension :: u32
  fh_vector_len :: u32
  fh_name :: string

text \<open>\<open>usize::try_from\<close> of a \<open>u32\<close> always succeeds on the 64-bit platforms modelled here.\<close>

definition usize_from_u32 :: "u32 \<Rightarrow> usize option" where
  "usize_from_u32 w = (if unat w < usize_bound then Some (unat w) else None)"

definition frame_u32 :: "u8 list \<Rightarrow> usize \<Rightarrow> frame_error + u32" where
  "frame_u32 buffer offset = map_err frame_error_from_read (read_u32_le buffer offset)"

definition parse_frame_header :: "u8 list \<Rightarrow> frame_error + frame_header" where
  "parse_frame_header buffer =
     (if length buffer < FIXED_FRAME_HEADER_LEN
      then Inl (Frame_Truncated FIXED_FRAME_HEADER_LEN (length buffer))
      else
      res_bind (frame_u32 buffer 0) (\<lambda>frame_len.
      res_bind (ok_or (usize_from_u32 frame_len) Frame_LengthOverflow) (\<lambda>frame_len_usize.
      res_bind (ok_or (usize_add frame_len_usize FRAME_LEN_FIELD_LEN) Frame_LengthOverflow)
        (\<lambda>declared_total.
      if declared_total \<noteq> length buffer
      then Inl (Frame_FrameLenMismatch declared_total (length buffer))
      else if frame_len_usize < FRAME_LEN_REMAINING_HEADER
      then Inl (Frame_Truncated FIXED_FRAME_HEADER_LEN declared_total)
      else if take 4 (drop 4 buffer) \<noteq> FRAME_MAGIC then Inl Frame_BadMagic
      else
      res_bind (frame_u32 buffer 8) (\<lambda>version.
      if version \<noteq> FRAME_VERSION then Inl (Frame_BadVersion version)
      else
      res_bind (frame_u32 buffer 12) (\<lambda>dtype.
      res_bind (frame_u32 buffer 16) (\<lambda>name_len.
      res_bind (frame_u32 buffer 20) (\<lambda>dimension.
      res_bind (frame_u32 buffer 24) (\<lambda>vector_len.
      res_bind (ok_or (usize_from_u32 name_len) Frame_LengthOverflow) (\<lambda>name_len_usize.
      res_bind (ok_or (usize_from_u32 vector_len) Frame_LengthOverflow) (\<lambda>vector_len_usize.
      let name_start = FIXED_FRAME_HEADER_LEN in
      res_bind (ok_or (usize_add name_start name_len_usize) Frame_LengthOverflow)
        (\<lambda>vector_start.
      if declared_total < vector_start then Inl Frame_NameLenExceedsFrame
      else
      res_bind (ok_or (usize_add vector_start vector_len_usize) Frame_LengthOverflow)
        (\<lambda>expected_total.
      if expected_total \<noteq> declared_total
      then Inl (Frame_FrameLenMismatch declared_total expected_total)
      else
      let name = take (vector_start - name_start) (drop name_start buffer)
      in if \<not> utf8_valid name then Inl Frame_InvalidNameUtf8
         else Inr \<lparr>fh_frame_len = frame_len, fh_dtype = dtype, fh_name_len = name_len,
                   fh_dimension = dimension, fh_vector_len = vector_len,
                   fh_name = bytes_str name\<rparr>)))))))))))))"

definition total_frame_len :: "u8 list \<Rightarrow> frame_error + usize" where
  "total_frame_len buffer =
     (if length buffer < FRAME_LEN_FIELD_LEN
      then Inl (Frame_Truncated FRAME_LEN_FIELD_LEN (length buffer))
      else
      res_bind (frame_u32 buffer 0) (\<lambda>frame_len.
      res_bind (ok_or (usize_from_u32 frame_len) Frame_LengthOverflow) (\<lambda>n.
      ok_or (usize_add n FRAME_LEN_FIELD_LEN) Frame_LengthOverflow)))"

text \<open>The wire format, as an encoder of a header and a vector payload.\<close>

definition encode_frame :: "frame_header \<Rightarrow> u8 list \<Rightarrow> u8 list" where
  "encode_frame h vec =
     u32_to_le_bytes (fh_frame_len h) @ FRAME_MAGIC @ u32_to_le_bytes FRAME_VERSION
     @ u32_to_le_bytes (fh_dtype h) @ u32_to_le_bytes (fh_name_len h)
     @ u32_to_le_bytes (fh_dimension h) @ u32_to_le_bytes (fh_vector_len h)
     @ str_bytes (fh_name h) @ vec"

definition frame_wf :: "frame_header \<Rightarrow> u8 list \<Rightarrow> bool" where
  "frame_wf h vec \<longleftrightarrow>
     unat (fh_name_len h) = length (fh_name h) \<and> unat (fh_vector_len h) = length vec
     \<and> unat (fh_frame_len h) = 24 + length (fh_name h) + length vec
     \<and> utf8_valid (str_bytes (fh_name h))"

section \<open>Facts\<close>

lemmas frame_consts = FIXED_FRAME_HEADER_LEN_def FRAME_LEN_FIELD_LEN_def
  FRAME_LEN_REMAINING_HEADER_def FRAME_VERSION_def

lemma length_FRAME_MAGIC [simp]: "length FRAME_MAGIC = 4"
  by (simp add: FRAME_MAGIC_def)

lemma usize_from_u32_eq [simp]: "usize_from_u32 w = Some (unat w)"
proof -
  show ?thesis using u32_bound [of w] by (simp add: usize_from_u32_def usize_bound_def)
qed

lemma usize_add_u32 [simp]:
  "n < usize_bound - 2 ^ 33 \<Longrightarrow> usize_add n (unat (w :: u32)) = Some (n + unat w)"
  using u32_bound [of w] by (simp add: usize_add_def usize_bound_def)

lemma usize_add_u32' [simp]:
  "n < usize_bound - 2 ^ 33 \<Longrightarrow> usize_add (unat (w :: u32)) n = Some (unat w + n)"
  using u32_bound [of w] by (simp add: usize_add_def usize_bound_def)

lemma read_exact_Inr [result_simps]:
  "read_exact buffer offset len = Inr bs \<longleftrightarrow>
     offset + len < usize_bound \<and> offset + len \<le> length buffer
     \<and> bs = take len (drop offset buffer)"
  by (auto simp: read_exact_def result_simps arith_simps)

lemma read_exact_in_range:
  "offset + len \<le> length buffer \<Longrightarrow> offset + len < usize_bound \<Longrightarrow>
     read_exact buffer offset len = Inr (take len (drop offset buffer))"
  by (simp add: result_simps)

lemma frame_u32_in_range:
  "offset + 4 \<le> length buffer \<Longrightarrow> offset + 4 < usize_bound \<Longrightarrow>
     frame_u32 buffer offset = Inr (word_from_le_bytes (take 4 (drop offset buffer)))"
  by (simp add: frame_u32_def read_u32_le_def read_exact_in_range)

lemma total_frame_len_eq:
  "4 \<le> length buffer \<Longrightarrow>
     total_frame_len buffer = Inr (unat (word_from_le_bytes (take 4 buffer) :: u32) + 4)"
  by (simp add: total_frame_len_def frame_consts frame_u32_in_range usize_bound_def)

lemma total_frame_len_Inl:
  "total_frame_len buffer = Inl e \<longleftrightarrow>
     length buffer < 4 \<and> e = Frame_Truncated 4 (length buffer)"
proof (cases "4 \<le> length buffer")
  case True
  then show ?thesis by (simp add: total_frame_len_eq)
next
  case False
  then show ?thesis by (auto simp: total_frame_len_def frame_consts)
qed

text \<open>What the parser computes on a buffer of at least the fixed header, in one equation.\<close>

lemma parse_frame_header_eq:
  assumes "28 \<le> length buffer"
  shows "parse_frame_header buffer =
    (let frame_len = word_from_le_bytes (take 4 buffer) :: u32;
         version = word_from_le_bytes (take 4 (drop 8 buffer)) :: u32;
         name_len = word_from_le_bytes (take 4 (drop 16 buffer)) :: u32;
         vector_len = word_from_le_bytes (take 4 (drop 24 buffer)) :: u32;
         name = take (unat name_len) (drop 28 buffer)
     in if unat frame_len + 4 \<noteq> length buffer
        then Inl (Frame_FrameLenMismatch (unat frame_len + 4) (length buffer))
        else if take 4 (drop 4 buffer) \<noteq> FRAME_MAGIC then Inl Frame_BadMagic
        else if version \<noteq> 1 then Inl (Frame_BadVersion version)
        else if length buffer < 28 + unat name_len then Inl Frame_NameLenExceedsFrame
        else if 28 + unat name_len + unat vector_len \<noteq> length buffer
        then Inl (Frame_FrameLenMismatch (length buffer) (28 + unat name_len + unat vector_len))
        else if \<not> utf8_valid name then Inl Frame_InvalidNameUtf8
        else Inr \<lparr>fh_frame_len = frame_len,
                  fh_dtype = word_from_le_bytes (take 4 (drop 12 buffer)),
                  fh_name_len = name_len,
                  fh_dimension = word_from_le_bytes (take 4 (drop 20 buffer)),
                  fh_vector_len = vector_len, fh_name = bytes_str name\<rparr>)"
proof -
  have ub: "usize_add (28 + unat w) (unat v) = Some (28 + unat w + unat v)" for v w :: u32
    using u32_bound [of w] u32_bound [of v] by (simp add: usize_add_def usize_bound_def)
  have r: "frame_u32 buffer n = Inr (word_from_le_bytes (take 4 (drop n buffer)))"
    if "n \<le> 24" for n
    using assms that by (intro frame_u32_in_range) (simp_all add: usize_bound_def)
  have c: "28 < usize_bound - 2 ^ 33" "4 < usize_bound - 2 ^ 33"
    by (simp_all add: usize_bound_def)
  show ?thesis
    using assms c by (simp add: parse_frame_header_def frame_consts r ub Let_def)
qed

lemma encode_frame_parts:
  assumes "frame_wf h vec"
  defines "b \<equiv> encode_frame h vec"
  shows "length b = 28 + length (fh_name h) + length vec"
    and "take 4 b = u32_to_le_bytes (fh_frame_len h)"
    and "take 4 (drop 4 b) = FRAME_MAGIC"
    and "take 4 (drop 8 b) = u32_to_le_bytes FRAME_VERSION"
    and "take 4 (drop 12 b) = u32_to_le_bytes (fh_dtype h)"
    and "take 4 (drop 16 b) = u32_to_le_bytes (fh_name_len h)"
    and "take 4 (drop 20 b) = u32_to_le_bytes (fh_dimension h)"
    and "take 4 (drop 24 b) = u32_to_le_bytes (fh_vector_len h)"
    and "take (length (fh_name h)) (drop 28 b) = str_bytes (fh_name h)"
  by (simp_all add: b_def encode_frame_def)

lemma parse_encode_frame:
  assumes "frame_wf h vec"
  shows "parse_frame_header (encode_frame h vec) = Inr h"
proof -
  note parts = encode_frame_parts [OF assms]
  have "28 \<le> length (encode_frame h vec)" using parts(1) by simp
  then show ?thesis
    using assms by (simp add: parse_frame_header_eq parts frame_wf_def Let_def FRAME_VERSION_def)
qed

lemma parse_frame_header_inv:
  assumes "parse_frame_header buffer = Inr h"
  shows "\<exists>vec. frame_wf h vec \<and> buffer = encode_frame h vec"
proof -
  have len: "28 \<le> length buffer"
    using assms by (auto simp: parse_frame_header_def frame_consts split: if_splits)
  note eqs = assms [unfolded parse_frame_header_eq [OF len] Let_def]
  let ?n = "unat (fh_name_len h)"
  define vec where "vec = drop (28 + ?n) buffer"
  have h: "fh_frame_len h = word_from_le_bytes (take 4 buffer)"
    "fh_dtype h = word_from_le_bytes (take 4 (drop 12 buffer))"
    "fh_name_len h = word_from_le_bytes (take 4 (drop 16 buffer))"
    "fh_dimension h = word_from_le_bytes (take 4 (drop 20 buffer))"
    "fh_vector_len h = word_from_le_bytes (take 4 (drop 24 buffer))"
    "fh_name h = bytes_str (take ?n (drop 28 buffer))" and mag: "take 4 (drop 4 buffer) = FRAME_MAGIC"
    and ver: "word_from_le_bytes (take 4 (drop 8 buffer)) = FRAME_VERSION"
    and tot: "unat (fh_frame_len h) + 4 = length buffer"
    and lens: "28 + ?n + unat (fh_vector_len h) = length buffer"
    and utf: "utf8_valid (take ?n (drop 28 buffer))"
    using eqs by (auto simp: FRAME_VERSION_def split: if_splits)
  have wf: "frame_wf h vec"
    using tot lens utf by (auto simp: frame_wf_def h(6) vec_def min_def)
  have restore: "u32_to_le_bytes (word_from_le_bytes (take 4 (drop k buffer))) = take 4 (drop k buffer)"
    if "k \<le> 24" for k
    using that len by (intro to_from_le_bytes) simp
  have "buffer = take 4 buffer @ take 4 (drop 4 buffer) @ take 4 (drop 8 buffer)
      @ take 4 (drop 12 buffer) @ take 4 (drop 16 buffer) @ take 4 (drop 20 buffer)
      @ take 4 (drop 24 buffer) @ take ?n (drop 28 buffer) @ vec"
    using drop_take_split [of 0 4 buffer] drop_take_split [of 4 4 buffer]
      drop_take_split [of 8 4 buffer] drop_take_split [of 12 4 buffer]
      drop_take_split [of 16 4 buffer] drop_take_split [of 20 4 buffer]
      drop_take_split [of 24 4 buffer] drop_take_split [of 28 ?n buffer] len lens
    by (simp add: vec_def)
  also have "\<dots> = encode_frame h vec"
    using restore [of 0] restore [of 8] restore [of 12] restore [of 16] restore [of 20] restore [of 24] ver
    by (simp add: encode_frame_def h mag FRAME_VERSION_def)
  finally show ?thesis using wf by blast
qed

section \<open>Properties\<close>

text \<open>
  C14. The frame parser accepts a buffer and returns a header exactly when the buffer is the wire
  encoding of that header and some vector payload whose lengths agree with the length fields: it is
  both sound (nothing else is accepted) and complete (every well-formed frame is).
\<close>

theorem parse_frame_header_exact:
  "parse_frame_header buffer = Inr h \<longleftrightarrow>
     (\<exists>vec. frame_wf h vec \<and> buffer = encode_frame h vec)"
proof
  assume "parse_frame_header buffer = Inr h"
  then show "\<exists>vec. frame_wf h vec \<and> buffer = encode_frame h vec" by (rule parse_frame_header_inv)
next
  assume "\<exists>vec. frame_wf h vec \<and> buffer = encode_frame h vec"
  then show "parse_frame_header buffer = Inr h" using parse_encode_frame by auto
qed

text \<open>
  On a 64-bit platform the length arithmetic of the frame parser cannot overflow: whatever the
  buffer, neither the parser nor the length peek ever reports \<open>LengthOverflow\<close>, so every length
  error is a truncation or a mismatch.
\<close>

lemma frame_parser_never_overflows:
  "parse_frame_header buffer \<noteq> Inl Frame_LengthOverflow
   \<and> total_frame_len buffer \<noteq> Inl Frame_LengthOverflow"
proof -
  have "parse_frame_header buffer \<noteq> Inl Frame_LengthOverflow"
  proof (cases "28 \<le> length buffer")
    case True
    then show ?thesis by (simp add: parse_frame_header_eq Let_def)
  next
    case False
    then show ?thesis by (simp add: parse_frame_header_def frame_consts)
  qed
  then show ?thesis by (simp add: total_frame_len_Inl)
qed

end
