(* ===== verification/Segment.thy ===== *)
theory Segment
  imports Frame Cohort
begin

text \<open>
  The \<open>.vseam\<close> segment format (\<open>vectorseam-core/src/segment.rs\<close>): the writer with its length
  checks, and the reader with every error, its header skip and its record loop. The loop's offset
  grows by at least twelve bytes per record, which is its termination proof. The lemmas show the
  round trip, that unknown header bytes are skipped, and that the reader accepts only bytes the
  writer could have made, header tail apart.
\<close>

section \<open>Definitions\<close>

definition SEGMENT_MAGIC :: "u8 list" where
  "SEGMENT_MAGIC = str_bytes ''VSG1''"

definition BASE_HEADER_LEN :: usize where
  "BASE_HEADER_LEN = 46"

definition FIXED_PREFIX_LEN :: usize where
  "FIXED_PREFIX_LEN = 8"

definition RECORD_TIME_LEN :: usize where
  "RECORD_TIME_LEN = 8"

definition MAX_SEGMENT_OVERHEAD_BYTES :: usize where
  "MAX_SEGMENT_OVERHEAD_BYTES = FIXED_PREFIX_LEN + BASE_HEADER_LEN + MAX_COHORT_NAME_BYTES"

record segment_header =
  sh_window_start :: u64
  sh_window_seconds :: u32
  sh_first_receive :: u64
  sh_last_receive :: u64
  sh_received_frame_count :: u64
  sh_record_count :: u64
  sh_cohort :: cohort_name

record segment_record =
  sr_receive_time :: u64
  sr_frame :: "u8 list"

record segment =
  seg_header :: segment_header
  seg_records :: "segment_record list"

datatype segment_error =
    Segment_BadMagic
  | Segment_Truncated usize usize
  | Segment_HeaderTooShort
  | Segment_CohortTooLong
  | Segment_InvalidCohortUtf8
  | Segment_InvalidCohort cohort_name_error
  | Segment_InvalidFrame frame_error
  | Segment_LengthOverflow

fun segment_error_from_read :: "byte_read_error \<Rightarrow> segment_error" where
  "segment_error_from_read (Read_Truncated n a) = Segment_Truncated n a"
| "segment_error_from_read Read_LengthOverflow = Segment_LengthOverflow"

definition segment_header_bytes :: "u32 \<Rightarrow> u16 \<Rightarrow> segment_header \<Rightarrow> u8 list" where
  "segment_header_bytes header_len cohort_len h =
     SEGMENT_MAGIC @ u32_to_le_bytes header_len @ u64_to_le_bytes (sh_window_start h)
     @ u32_to_le_bytes (sh_window_seconds h) @ u64_to_le_bytes (sh_first_receive h)
     @ u64_to_le_bytes (sh_last_receive h) @ u64_to_le_bytes (sh_received_frame_count h)
     @ u64_to_le_bytes (sh_record_count h) @ u16_to_le_bytes cohort_len
     @ str_bytes (as_str (sh_cohort h))"

definition segment_record_bytes :: "segment_record \<Rightarrow> u8 list" where
  "segment_record_bytes r = u64_to_le_bytes (sr_receive_time r) @ sr_frame r"

definition write_segment :: "segment_header \<Rightarrow> segment_record list \<Rightarrow> segment_error + u8 list" where
  "write_segment header records =
     (let cohort = as_str (sh_cohort header) in
      res_bind (if length cohort < 65536 then Inr (word_of_nat (length cohort) :: u16)
                else Inl Segment_CohortTooLong) (\<lambda>cohort_len.
      res_bind (if BASE_HEADER_LEN + unat cohort_len < 2 ^ 32
                then Inr (word_of_nat (BASE_HEADER_LEN + unat cohort_len) :: u32)
                else Inl Segment_LengthOverflow) (\<lambda>header_len.
      res_bind (try_fold (\<lambda>sum record.
          res_bind (map_err Segment_InvalidFrame (parse_frame_header (sr_frame record))) (\<lambda>_.
            ok_or (Option.bind (usize_add sum RECORD_TIME_LEN)
                     (\<lambda>value. usize_add value (length (sr_frame record)))) Segment_LengthOverflow))
        0 records) (\<lambda>records_len.
      res_bind (ok_or (Option.bind (usize_add FIXED_PREFIX_LEN (unat header_len))
          (\<lambda>value. usize_add value records_len)) Segment_LengthOverflow) (\<lambda>capacity.
      Inr (segment_header_bytes header_len cohort_len header @ concat (map segment_record_bytes records)))))))"

definition segment_read :: "byte_read_error + 'a \<Rightarrow> segment_error + 'a" where
  "segment_read r = map_err segment_error_from_read r"

text \<open>One turn of the record loop at an offset inside the buffer.\<close>

definition read_record :: "u8 list \<Rightarrow> usize \<Rightarrow> segment_error + segment_record \<times> usize" where
  "read_record buffer record_offset =
     res_bind (ok_or (usize_add record_offset RECORD_TIME_LEN) Segment_LengthOverflow)
       (\<lambda>receive_time_end.
     if length buffer < receive_time_end
     then Inl (Segment_Truncated receive_time_end (length buffer))
     else
     res_bind (segment_read (read_u64_le buffer record_offset)) (\<lambda>receive_time.
     let frame_start = receive_time_end in
     res_bind (map_err Segment_InvalidFrame (total_frame_len (drop frame_start buffer)))
       (\<lambda>frame_total_len.
     res_bind (ok_or (usize_add frame_start frame_total_len) Segment_LengthOverflow)
       (\<lambda>frame_end.
     if length buffer < frame_end then Inl (Segment_Truncated frame_end (length buffer))
     else
     let frame = take (frame_end - frame_start) (drop frame_start buffer) in
     res_bind (map_err Segment_InvalidFrame (parse_frame_header frame)) (\<lambda>_.
     Inr (\<lparr>sr_receive_time = receive_time, sr_frame = frame\<rparr>, frame_end))))))"

lemma read_record_progress:
  assumes "read_record buffer off = Inr (r, off')"
  shows "off < off'"
  using assms
  by (auto simp: read_record_def Let_def result_simps arith_simps RECORD_TIME_LEN_def
      split: if_splits)

function read_records :: "u8 list \<Rightarrow> usize \<Rightarrow> segment_error + segment_record list" where
  "read_records buffer record_offset =
     (if record_offset < length buffer then
        (case read_record buffer record_offset of
           Inl e \<Rightarrow> Inl e
         | Inr (r, frame_end) \<Rightarrow>
             res_bind (read_records buffer frame_end) (\<lambda>rs. Inr (r # rs)))
      else Inr [])"
  by pat_completeness auto
termination
  by (relation "measure (\<lambda>(buffer, off). length buffer - off)")
    (auto dest!: read_record_progress intro: diff_less_mono2)

declare read_records.simps [simp del]

definition read_segment :: "u8 list \<Rightarrow> segment_error + segment" where
  "read_segment buffer =
     (if length buffer < FIXED_PREFIX_LEN
      then Inl (Segment_Truncated FIXED_PREFIX_LEN (length buffer))
      else if take 4 buffer \<noteq> SEGMENT_MAGIC then Inl Segment_BadMagic
      else
      res_bind (segment_read (read_u32_le buffer 4)) (\<lambda>header_len_u32.
      let header_len = unat header_len_u32 in
      if header_len < BASE_HEADER_LEN then Inl Segment_HeaderTooShort
      else
      res_bind (ok_or (usize_add FIXED_PREFIX_LEN header_len) Segment_LengthOverflow) (\<lambda>header_end.
      if length buffer < header_end then Inl (Segment_Truncated header_end (length buffer))
      else
      let offset = FIXED_PREFIX_LEN in
      res_bind (segment_read (read_u64_le buffer offset)) (\<lambda>window_start.
      let offset = offset + 8 in
      res_bind (segment_read (read_u32_le buffer offset)) (\<lambda>window_seconds.
      let offset = offset + 4 in
      res_bind (segment_read (read_u64_le buffer offset)) (\<lambda>first_receive.
      let offset = offset + 8 in
      res_bind (segment_read (read_u64_le buffer offset)) (\<lambda>last_receive.
      let offset = offset + 8 in
      res_bind (segment_read (read_u64_le buffer offset)) (\<lambda>received_frame_count.
      let offset = offset + 8 in
      res_bind (segment_read (read_u64_le buffer offset)) (\<lambda>record_count.
      let offset = offset + 8 in
      res_bind (segment_read (read_u16_le buffer offset)) (\<lambda>cohort_len_u16.
      let cohort_len = unat cohort_len_u16; offset = offset + 2 in
      res_bind (ok_or (usize_add offset cohort_len) Segment_LengthOverflow) (\<lambda>cohort_end.
      if header_end < cohort_end then Inl Segment_HeaderTooShort
      else
      let cohort_bytes = take (cohort_end - offset) (drop offset buffer) in
      if \<not> utf8_valid cohort_bytes then Inl Segment_InvalidCohortUtf8
      else
      res_bind (map_err Segment_InvalidCohort (cohort_new (bytes_str cohort_bytes))) (\<lambda>cohort.
      res_bind (read_records buffer header_end) (\<lambda>records.
      Inr \<lparr>seg_header = \<lparr>sh_window_start = window_start, sh_window_seconds = window_seconds,
              sh_first_receive = first_receive, sh_last_receive = last_receive,
              sh_received_frame_count = received_frame_count, sh_record_count = record_count,
              sh_cohort = cohort\<rparr>,
            seg_records = records\<rparr>)))))))))))))"

text \<open>
  The format: a known header, a tail of unknown header bytes counted by \<open>header_len\<close>, and the
  records back to back.
\<close>

definition segment_layout :: "segment \<Rightarrow> u8 list \<Rightarrow> bool" where
  "segment_layout seg buffer \<longleftrightarrow>
     cohort_ok (sh_cohort (seg_header seg))
     \<and> (\<forall>r \<in> set (seg_records seg). is_ok (parse_frame_header (sr_frame r)))
     \<and> (\<exists>header_len cohort_len tail.
          unat cohort_len = length (as_str (sh_cohort (seg_header seg)))
          \<and> unat header_len = BASE_HEADER_LEN + unat cohort_len + length tail
          \<and> buffer = segment_header_bytes header_len cohort_len (seg_header seg) @ tail
                     @ concat (map segment_record_bytes (seg_records seg)))"

section \<open>Facts\<close>

lemmas segment_consts = BASE_HEADER_LEN_def FIXED_PREFIX_LEN_def RECORD_TIME_LEN_def

lemma length_SEGMENT_MAGIC [simp]: "length SEGMENT_MAGIC = 4"
  by (simp add: SEGMENT_MAGIC_def)

lemma length_segment_header_bytes [simp]:
  "length (segment_header_bytes hl cl h) = 54 + length (as_str (sh_cohort h))"
  by (simp add: segment_header_bytes_def)

lemma length_record_bytes [simp]: "length (segment_record_bytes r) = 8 + length (sr_frame r)"
  by (simp add: segment_record_bytes_def)

lemma read_word_in_range:
  assumes "off + n \<le> length buffer" and "off + n < usize_bound"
  shows "n = 8 \<Longrightarrow> read_u64_le buffer off = Inr (word_from_le_bytes (take n (drop off buffer)))"
    and "n = 4 \<Longrightarrow> read_u32_le buffer off = Inr (word_from_le_bytes (take n (drop off buffer)))"
    and "n = 2 \<Longrightarrow> read_u16_le buffer off = Inr (word_from_le_bytes (take n (drop off buffer)))"
  using assms
  by (simp_all add: read_u64_le_def read_u32_le_def read_u16_le_def read_exact_in_range)

lemma frame_ok_length:
  assumes "parse_frame_header f = Inr h"
  shows "28 \<le> length f" and "unat (word_from_le_bytes (take 4 f) :: u32) + 4 = length f"
proof -
  obtain vec where wf: "frame_wf h vec" and f: "f = encode_frame h vec"
    using parse_frame_header_inv [OF assms] by blast
  note parts = encode_frame_parts [OF wf, folded f]
  show "28 \<le> length f" using parts(1) by simp
  show "unat (word_from_le_bytes (take 4 f) :: u32) + 4 = length f"
    using wf by (simp add: parts(1,2) frame_wf_def)
qed

lemma read_record_bytes:
  assumes ok: "is_ok (parse_frame_header (sr_frame r))"
    and b: "length (pre @ segment_record_bytes r @ post) < usize_bound"
  shows "read_record (pre @ segment_record_bytes r @ post) (length pre) =
           Inr (r, length pre + length (segment_record_bytes r))"
proof -
  let ?b = "pre @ segment_record_bytes r @ post" and ?o = "length pre" and ?f = "sr_frame r"
  obtain h where h: "parse_frame_header ?f = Inr h" using ok by (auto simp: is_ok_iff)
  note fl = frame_ok_length [OF h]
  have t: "read_u64_le ?b ?o = Inr (sr_receive_time r)"
    using b by (subst read_word_in_range(1) [where n = 8]) (simp_all add: segment_record_bytes_def)
  have d: "drop 8 (segment_record_bytes r) = ?f" by (simp add: segment_record_bytes_def)
  have tot: "total_frame_len (?f @ post) = Inr (length ?f)"
    using fl by (subst total_frame_len_eq) simp_all
  have a: "usize_add ?o 8 = Some (?o + 8)"
    and a': "usize_add (?o + 8) (length ?f) = Some (?o + 8 + length ?f)"
    using b by (simp_all add: usize_add_def)
  show ?thesis
    by (simp add: read_record_def segment_consts a t segment_read_def Let_def d tot a' h)
qed

lemma read_records_concat:
  assumes "\<forall>r \<in> set rs. is_ok (parse_frame_header (sr_frame r))"
    and "length (pre @ concat (map segment_record_bytes rs)) < usize_bound"
  shows "read_records (pre @ concat (map segment_record_bytes rs)) (length pre) = Inr rs"
  using assms
proof (induction rs arbitrary: pre)
  case Nil
  then show ?case by (subst read_records.simps) simp
next
  case (Cons r rs)
  let ?rest = "concat (map segment_record_bytes rs)"
  have step: "read_record (pre @ segment_record_bytes r @ ?rest) (length pre) =
      Inr (r, length (pre @ segment_record_bytes r))"
    using Cons.prems by (subst read_record_bytes) simp_all
  have "read_records ((pre @ segment_record_bytes r) @ ?rest) (length (pre @ segment_record_bytes r)) = Inr rs"
    using Cons.prems by (intro Cons.IH) simp_all
  then show ?case using step by (subst read_records.simps) simp
qed

lemma read_record_Inr:
  assumes "read_record buffer off = Inr (r, off')" and "off \<le> length buffer"
  shows "off' \<le> length buffer \<and> is_ok (parse_frame_header (sr_frame r))
     \<and> drop off buffer = segment_record_bytes r @ drop off' buffer"
proof -
  let ?f = "sr_frame r"
  have t8: "off + 8 \<le> length buffer" and off': "off' \<le> length buffer" "off + 8 \<le> off'"
    and time: "sr_receive_time r = word_from_le_bytes (take 8 (drop off buffer))"
    and f: "?f = take (off' - (off + 8)) (drop (off + 8) buffer)"
    and ok: "is_ok (parse_frame_header ?f)"
    using assms(1)
    by (auto simp: read_record_def Let_def result_simps arith_simps segment_consts segment_read_def
        read_u64_le_def is_ok_iff split: if_splits)
  have "u64_to_le_bytes (sr_receive_time r) = take 8 (drop off buffer)"
    using t8 by (simp add: time to_from_le_bytes)
  moreover have "drop off buffer = take 8 (drop off buffer) @ drop (off + 8) buffer"
    using t8 by (intro drop_take_split)
  moreover have "drop (off + 8) buffer = ?f @ drop off' buffer"
    using drop_take_split [of "off + 8" "off' - (off + 8)" buffer] off' f by simp
  ultimately have "drop off buffer = segment_record_bytes r @ drop off' buffer"
    by (simp add: segment_record_bytes_def)
  then show ?thesis using off' ok by blast
qed

lemma read_records_Inr:
  assumes "read_records buffer off = Inr rs" and "off \<le> length buffer"
  shows "(\<forall>r \<in> set rs. is_ok (parse_frame_header (sr_frame r)))
     \<and> drop off buffer = concat (map segment_record_bytes rs)"
  using assms
proof (induction buffer off arbitrary: rs rule: read_records.induct)
  case (1 buffer off)
  show ?case
  proof (cases "off < length buffer")
    case False
    then show ?thesis using "1.prems" by (subst (asm) read_records.simps) simp
  next
    case True
    obtain r off' rs' where step: "read_record buffer off = Inr (r, off')"
      and rest: "read_records buffer off' = Inr rs'" and rs: "rs = r # rs'"
      using "1.prems"(1) True
      by (subst (asm) read_records.simps) (auto simp: result_simps split: sum.splits)
    note inv = read_record_Inr [OF step "1.prems"(2)]
    have "(\<forall>r \<in> set rs'. is_ok (parse_frame_header (sr_frame r)))
        \<and> drop off' buffer = concat (map segment_record_bytes rs')"
      using True step rest inv by (intro "1.IH" [OF True step refl]) auto
    then show ?thesis using inv rs by simp
  qed
qed

lemma segment_header_parts:
  fixes h :: segment_header and hl :: u32 and cl :: u16
  defines "b \<equiv> \<lambda>rest. segment_header_bytes hl cl h @ rest"
  shows "take 4 (b rest) = SEGMENT_MAGIC"
    and "take 4 (drop 4 (b rest)) = u32_to_le_bytes hl"
    and "take 8 (drop 8 (b rest)) = u64_to_le_bytes (sh_window_start h)"
    and "take 4 (drop 16 (b rest)) = u32_to_le_bytes (sh_window_seconds h)"
    and "take 8 (drop 20 (b rest)) = u64_to_le_bytes (sh_first_receive h)"
    and "take 8 (drop 28 (b rest)) = u64_to_le_bytes (sh_last_receive h)"
    and "take 8 (drop 36 (b rest)) = u64_to_le_bytes (sh_received_frame_count h)"
    and "take 8 (drop 44 (b rest)) = u64_to_le_bytes (sh_record_count h)"
    and "take 2 (drop 52 (b rest)) = u16_to_le_bytes cl"
    and "take (length (as_str (sh_cohort h))) (drop 54 (b rest)) = str_bytes (as_str (sh_cohort h))"
  by (simp_all add: b_def segment_header_bytes_def)

lemma read_segment_layout:
  assumes layout: "segment_layout seg buffer" and bound: "length buffer < usize_bound"
  shows "read_segment buffer = Inr seg"
proof -
  let ?h = "seg_header seg" and ?rs = "seg_records seg"
  let ?n = "length (as_str (sh_cohort ?h))"
  obtain hl cl tail where cl: "unat cl = ?n"
    and hl: "unat hl = 46 + ?n + length tail"
    and buf: "buffer = segment_header_bytes hl cl ?h @ tail @ concat (map segment_record_bytes ?rs)"
    and co: "cohort_ok (sh_cohort ?h)"
    and fr: "\<forall>r \<in> set ?rs. is_ok (parse_frame_header (sr_frame r))"
    using layout by (auto simp: segment_layout_def segment_consts)
  note parts = segment_header_parts [where h = ?h and hl = hl and cl = cl
      and rest = "tail @ concat (map segment_record_bytes ?rs)", folded buf]
  have len: "8 + unat hl \<le> length buffer" "54 + ?n \<le> length buffer"
    using hl by (simp_all add: buf)
  have recs: "read_records buffer (8 + unat hl) = Inr ?rs"
  proof -
    let ?pre = "segment_header_bytes hl cl ?h @ tail"
    have pre: "length ?pre = 8 + unat hl" by (simp add: hl)
    have b: "?pre @ concat (map segment_record_bytes ?rs) = buffer" by (simp add: buf)
    show ?thesis using read_records_concat [OF fr, of ?pre] bound by (simp only: pre b)
  qed
  have utf: "utf8_valid (str_bytes (as_str (sh_cohort ?h)))"
    using co by (intro utf8_valid_str_bytes cohort_ok_ascii)
  have r: "m + 8 \<le> 54 \<Longrightarrow> read_u64_le buffer m = Inr (word_from_le_bytes (take 8 (drop m buffer)))"
    "m + 4 \<le> 54 \<Longrightarrow> read_u32_le buffer m = Inr (word_from_le_bytes (take 4 (drop m buffer)))"
    "m + 2 \<le> 54 \<Longrightarrow> read_u16_le buffer m = Inr (word_from_le_bytes (take 2 (drop m buffer)))"
    for m using len(2) by (simp_all add: read_word_in_range usize_bound_def)
  have ad: "usize_add 8 (unat hl) = Some (8 + unat hl)" "usize_add 54 ?n = Some (54 + ?n)"
    using u32_bound [of hl] u16_bound [of cl] cl by (simp_all add: usize_add_def usize_bound_def)
  have g: "\<not> length buffer < 8" "\<not> unat hl < 46" "\<not> length buffer < 8 + unat hl"
    "\<not> 8 + unat hl < 54 + ?n"
    using len hl cl by simp_all
  show ?thesis
    using co cohort_new_ok [OF co] utf
    by (simp add: read_segment_def segment_consts segment_read_def Let_def r parts g ad recs cl)
qed

lemma read_segment_Inr:
  assumes ok: "read_segment buffer = Inr seg"
  shows "segment_layout seg buffer"
proof -
  let ?h = "seg_header seg" and ?rs = "seg_records seg"
  define hl :: u32 where "hl = word_from_le_bytes (take 4 (drop 4 buffer))"
  define cl :: u16 where "cl = word_from_le_bytes (take 2 (drop 52 buffer))"
  note defs = read_segment_def segment_consts segment_read_def Let_def read_u64_le_def read_u32_le_def
    read_u16_le_def
  have mag: "take 4 buffer = SEGMENT_MAGIC" and hl46: "46 \<le> unat hl"
    and he: "8 + unat hl \<le> length buffer" and ce: "54 + unat cl \<le> 8 + unat hl"
    and h: "sh_window_start ?h = word_from_le_bytes (take 8 (drop 8 buffer))"
      "sh_window_seconds ?h = word_from_le_bytes (take 4 (drop 16 buffer))"
      "sh_first_receive ?h = word_from_le_bytes (take 8 (drop 20 buffer))"
      "sh_last_receive ?h = word_from_le_bytes (take 8 (drop 28 buffer))"
      "sh_received_frame_count ?h = word_from_le_bytes (take 8 (drop 36 buffer))"
      "sh_record_count ?h = word_from_le_bytes (take 8 (drop 44 buffer))"
    and co: "cohort_new (bytes_str (take (unat cl) (drop 54 buffer))) = Inr (sh_cohort ?h)"
    and recs: "read_records buffer (8 + unat hl) = Inr ?rs"
    using ok by (auto simp: defs result_simps arith_simps hl_def cl_def split: if_splits)
  let ?n = "length (as_str (sh_cohort ?h))"
  have co': "sh_cohort ?h = CohortName (bytes_str (take (unat cl) (drop 54 buffer)))"
    and valid: "cohort_ok (sh_cohort ?h)"
    using co by (auto simp: cohort_new_Inr cohort_ok_def)
  have n: "?n = unat cl" using ce he by (simp add: co')
  define tail where "tail = take (8 + unat hl - (54 + unat cl)) (drop (54 + unat cl) buffer)"
  have tl: "unat hl = 46 + unat cl + length tail" using ce he by (simp add: tail_def)
  have len: "54 \<le> length buffer" using hl46 he by simp
  note rr = read_records_Inr [OF recs he]
  have sp: "drop m buffer = take k (drop m buffer) @ drop (m + k) buffer"
    if "m + k \<le> 8 + unat hl" for m k
    using that he by (intro drop_take_split) simp
  have "buffer = take 4 buffer @ take 4 (drop 4 buffer) @ take 8 (drop 8 buffer)
      @ take 4 (drop 16 buffer) @ take 8 (drop 20 buffer) @ take 8 (drop 28 buffer)
      @ take 8 (drop 36 buffer) @ take 8 (drop 44 buffer) @ take 2 (drop 52 buffer)
      @ take (unat cl) (drop 54 buffer) @ tail @ drop (8 + unat hl) buffer"
    using sp [of 0 4] sp [of 4 4] sp [of 8 8] sp [of 16 4] sp [of 20 8] sp [of 28 8] sp [of 36 8]
      sp [of 44 8] sp [of 52 2] sp [of 54 "unat cl"]
      sp [of "54 + unat cl" "8 + unat hl - (54 + unat cl)"] ce hl46
    by (simp add: tail_def)
  also have "\<dots> = segment_header_bytes hl cl ?h @ tail @ concat (map segment_record_bytes ?rs)"
    using len by (simp add: segment_header_bytes_def mag hl_def cl_def h co' to_from_le_bytes
        rr [unfolded hl_def])
  finally show ?thesis
    using valid rr n tl by (auto simp: segment_layout_def segment_consts)
qed

lemma write_segment_Inr:
  assumes "write_segment h rs = Inr bytes" and "cohort_ok (sh_cohort h)"
  shows "segment_layout \<lparr>seg_header = h, seg_records = rs\<rparr> bytes"
proof -
  let ?n = "length (as_str (sh_cohort h))"
  have n: "?n \<le> 255" using assms(2) by (rule cohort_ok_length)
  have cl: "unat (word_of_nat ?n :: u16) = ?n"
    using n by (simp add: unat_of_nat take_bit_nat_eq_self)
  have w: "unat (word_of_nat m :: u32) = m" if "m < 2 ^ 32" for m
    using that by (simp add: unat_of_nat take_bit_nat_eq_self)
  have hl: "unat (word_of_nat (46 + ?n) :: u32) = 46 + ?n" by (rule w) (use n in simp)
  have fold_ok: "\<forall>r \<in> set xs. is_ok (parse_frame_header (sr_frame r))"
    if "try_fold (\<lambda>sum record.
          res_bind (map_err Segment_InvalidFrame (parse_frame_header (sr_frame record))) (\<lambda>_.
            ok_or (f sum record) Segment_LengthOverflow)) a xs = Inr t" for f a xs t
    using that by (induction xs arbitrary: a) (auto simp: result_simps is_ok_iff)
  have fr: "\<forall>r \<in> set rs. is_ok (parse_frame_header (sr_frame r))"
    and bytes: "bytes = segment_header_bytes (word_of_nat (46 + ?n)) (word_of_nat ?n) h
      @ concat (map segment_record_bytes rs)"
    using assms(1) n cl
    by (auto simp: write_segment_def Let_def result_simps segment_consts dest!: fold_ok)
  show ?thesis
    unfolding segment_layout_def
    using assms(2) fr cl hl bytes
    by (intro conjI exI [of _ "word_of_nat (46 + ?n)"] exI [of _ "word_of_nat ?n"] exI [of _ "[]"])
      (simp_all add: segment_consts)
qed

section \<open>An example segment\<close>

definition example_seg_frame :: "u8 list" where
  "example_seg_frame = encode_frame \<lparr>fh_frame_len = 32, fh_dtype = 1, fh_name_len = 4,
     fh_dimension = 1, fh_vector_len = 4, fh_name = ''prod''\<rparr> [0, 0, 128, 63]"

definition example_segment :: segment where
  "example_segment = \<lparr>seg_header = \<lparr>sh_window_start = 600, sh_window_seconds = 600,
       sh_first_receive = 700000000, sh_last_receive = 700000000, sh_received_frame_count = 2,
       sh_record_count = 1, sh_cohort = CohortName ''prod''\<rparr>,
     seg_records = [\<lparr>sr_receive_time = 700000000, sr_frame = example_seg_frame\<rparr>]\<rparr>"

definition example_segment_bytes :: "u8 list" where
  "example_segment_bytes = segment_header_bytes 50 4 (seg_header example_segment)
     @ concat (map segment_record_bytes (seg_records example_segment))"

lemma example_seg_frame_ok: "is_ok (parse_frame_header example_seg_frame)"
  unfolding example_seg_frame_def
  by (subst parse_encode_frame) (simp_all add: frame_wf_def utf8_valid_str_bytes is_ascii_def)

lemma length_example_seg_frame: "length example_seg_frame = 36"
  by (simp add: example_seg_frame_def encode_frame_def)

lemma example_segment_cohort: "cohort_ok (CohortName ''prod'')"
  by (simp add: cohort_ok_def is_valid_cohort_name_iff is_ascii_def cohort_segment_def
      is_allowed_segment_byte_def)

lemma length_example_segment_bytes: "length example_segment_bytes = 102"
  by (simp add: example_segment_bytes_def example_segment_def length_example_seg_frame)

lemma example_segment_written:
  "write_segment (seg_header example_segment) (seg_records example_segment) =
     Inr example_segment_bytes"
proof -
  obtain h where "parse_frame_header example_seg_frame = Inr h"
    using example_seg_frame_ok by (auto simp: is_ok_iff)
  then show ?thesis
    by (simp add: write_segment_def example_segment_def example_segment_bytes_def segment_consts
        length_example_seg_frame usize_add_def usize_bound_def Let_def)
qed

lemma read_example_segment: "read_segment example_segment_bytes = Inr example_segment"
proof -
  have "segment_layout \<lparr>seg_header = seg_header example_segment, seg_records = seg_records example_segment\<rparr>
      example_segment_bytes"
    by (rule write_segment_Inr [OF example_segment_written])
      (simp add: example_segment_def example_segment_cohort)
  then show ?thesis
    using read_segment_layout length_example_segment_bytes by (fastforce simp: usize_bound_def)
qed

section \<open>Properties\<close>

text \<open>
  C12. A segment the writer produces reads back as exactly the header and the records it was written
  from: every field, every receive time and every frame byte.
\<close>

theorem write_read_segment:
  assumes "write_segment h rs = Inr bytes" and "cohort_ok (sh_cohort h)"
    and "length bytes < usize_bound"
  shows "read_segment bytes = Inr \<lparr>seg_header = h, seg_records = rs\<rparr>"
  using read_segment_layout [OF write_segment_Inr [OF assms(1,2)] assms(3)] .

theorem write_read_segment_witness:
  "read_segment example_segment_bytes =
     Inr \<lparr>seg_header = seg_header example_segment, seg_records = seg_records example_segment\<rparr>"
  by (rule write_read_segment [OF example_segment_written])
    (simp_all add: example_segment_def example_segment_cohort length_example_segment_bytes
      usize_bound_def)

text \<open>
  C13. The reader accepts a buffer as a segment exactly when the buffer has the documented layout of
  that segment: known header fields, a cohort of the grammar, any number of unknown header bytes
  that \<open>header_len\<close> counts, and complete records with well-formed frames to the last byte.
\<close>

theorem read_segment_exact:
  assumes "length buffer < usize_bound"
  shows "read_segment buffer = Inr seg \<longleftrightarrow> segment_layout seg buffer"
  using read_segment_layout [OF _ assms] read_segment_Inr by blast

theorem read_segment_exact_witness:
  "read_segment example_segment_bytes = Inr example_segment
     \<and> segment_layout example_segment example_segment_bytes"
proof -
  have "segment_layout example_segment example_segment_bytes"
    unfolding segment_layout_def
    by (intro conjI exI [of _ "50"] exI [of _ "4"] exI [of _ "[]"])
      (simp_all add: example_segment_bytes_def example_segment_def example_segment_cohort
        example_seg_frame_ok segment_consts)
  moreover have "length example_segment_bytes < usize_bound"
    by (simp add: length_example_segment_bytes usize_bound_def)
  ultimately show ?thesis using read_segment_exact by blast
qed

end
