(* ===== verification/Alists.thy ===== *)
theory Alists
  imports Prelude "HOL-Library.AList"
begin

text \<open>
  Association lists as the model of hash maps: sums over the values, membership and distinct keys
  under update and deletion. Shared by the collector's ledger and writer and by the caches.
\<close>

named_theorems alist_simps \<open>sums and membership of updated association lists\<close>

definition alist_sum :: "('v \<Rightarrow> nat) \<Rightarrow> ('k \<times> 'v) list \<Rightarrow> nat" where
  "alist_sum f xs = (\<Sum>(k, v) \<leftarrow> xs. f v)"

definition alist_at :: "('v \<Rightarrow> nat) \<Rightarrow> ('k \<times> 'v) list \<Rightarrow> 'k \<Rightarrow> nat" where
  "alist_at f xs k = (case map_of xs k of None \<Rightarrow> 0 | Some v \<Rightarrow> f v)"

lemma alist_sum_Nil [simp]: "alist_sum f [] = 0"
  by (simp add: alist_sum_def)

lemma alist_sum_Cons [simp]: "alist_sum f ((k, v) # xs) = f v + alist_sum f xs"
  by (simp add: alist_sum_def)

lemma delete_notin: "k \<notin> fst ` set xs \<Longrightarrow> AList.delete k xs = xs"
  by (induction xs) auto

lemma alist_sum_delete:
  "distinct (map fst xs) \<Longrightarrow> alist_sum f xs = alist_at f xs k + alist_sum f (AList.delete k xs)"
proof (induction xs)
  case (Cons x xs)
  obtain j v where x: "x = (j, v)" by (cases x)
  show ?case
  proof (cases "j = k")
    case True
    then show ?thesis using Cons.prems x by (simp add: alist_at_def delete_notin)
  next
    case False
    then show ?thesis using Cons x by (simp add: alist_at_def)
  qed
qed (simp add: alist_at_def)

lemma alist_sum_update:
  "distinct (map fst xs) \<Longrightarrow>
     alist_sum f (AList.update k v xs) = f v + alist_sum f (AList.delete k xs)"
proof (induction xs)
  case (Cons x xs)
  then show ?case by (cases x) (auto simp: delete_notin)
qed simp

lemma alist_at_update [alist_simps]:
  "alist_at f (AList.update k v xs) j = (if j = k then f v else alist_at f xs j)"
  by (simp add: alist_at_def AList.update_conv')

lemma alist_at_delete [alist_simps]:
  "alist_at f (AList.delete k xs) j = (if j = k then 0 else alist_at f xs j)"
  by (simp add: alist_at_def AList.delete_conv')

lemma alist_at_le_sum: "distinct (map fst xs) \<Longrightarrow> alist_at f xs k \<le> alist_sum f xs"
  by (simp add: alist_sum_delete [of xs f k])

lemma set_alist_update:
  "distinct (map fst xs) \<Longrightarrow>
     set (AList.update k v xs) = insert (k, v) (set (AList.delete k xs))"
proof (induction xs)
  case (Cons x xs)
  then show ?case by (cases x) (auto simp: delete_notin)
qed simp

lemma set_alist_delete: "set (AList.delete k xs) = {p \<in> set xs. fst p \<noteq> k}"
  by (auto simp: AList.delete_eq)

lemma distinct_alist_update:
  "distinct (map fst xs) \<Longrightarrow> distinct (map fst (AList.update k v xs))"
  by (rule AList.distinct_update)

lemma distinct_alist_delete:
  "distinct (map fst xs) \<Longrightarrow> distinct (map fst (AList.delete k xs))"
  by (rule AList.distinct_delete)

lemma map_of_update_iff:
  "map_of (AList.update k v xs) j = (if j = k then Some v else map_of xs j)"
  by (simp add: AList.update_conv')

lemma map_of_delete_iff:
  "map_of (AList.delete k xs) j = (if j = k then None else map_of xs j)"
  by (simp add: AList.delete_conv')

lemma alist_at_map_of: "map_of xs k = Some v \<Longrightarrow> alist_at f xs k = f v"
  by (simp add: alist_at_def)

text \<open>Deleting every key leaves nothing.\<close>

lemma fold_delete_all:
  "fst ` set xs \<subseteq> set ks \<Longrightarrow> fold AList.delete ks xs = []"
proof (induction ks arbitrary: xs)
  case (Cons k ks)
  have "fst ` set (AList.delete k xs) \<subseteq> set ks"
    using Cons.prems by (auto simp: set_alist_delete)
  then show ?case by (simp add: Cons.IH)
qed simp

end
