(* ===== verification/Counters.thy ===== *)
theory Counters
  imports Cohort Alists
begin

text \<open>
  The collector's counters and its per-cohort drop ledger (\<open>vectorseam-collector/src/counters.rs\<close>).
  Counters are 64-bit words and \<open>fetch_add\<close> wraps; a ledger entry saturates. The ledger is the map
  behind a mutex, as an association list with distinct keys; a poisoned mutex needs a panic inside a
  critical section, and none of the sections can panic, so that branch has no model. The lemmas are
  the laws of the ledger as an interface: what a lookup finds after each operation.
\<close>

section \<open>Definitions\<close>

record counters =
  connections_accepted :: u64
  accept_errors :: u64
  frames_read :: u64
  valid_frames_received :: u64
  invalid_frames :: u64
  invalid_names :: u64
  oversized_frames :: u64
  channel_dropped_frames :: u64
  memory_dropped_frames :: u64
  kept_frames :: u64
  flushed_parts :: u64
  flush_failures :: u64
  connection_errors :: u64
  idle_connection_timeouts :: u64
  pending_cohort_drops :: "(cohort_name \<times> u64) list"

definition counters_default :: counters where
  "counters_default =
     \<lparr>connections_accepted = 0, accept_errors = 0, frames_read = 0, valid_frames_received = 0,
      invalid_frames = 0, invalid_names = 0, oversized_frames = 0, channel_dropped_frames = 0,
      memory_dropped_frames = 0, kept_frames = 0, flushed_parts = 0, flush_failures = 0,
      connection_errors = 0, idle_connection_timeouts = 0, pending_cohort_drops = []\<rparr>"

definition ledger_get :: "(cohort_name \<times> u64) list \<Rightarrow> cohort_name \<Rightarrow> u64" where
  "ledger_get drops cohort = (case map_of drops cohort of None \<Rightarrow> 0 | Some n \<Rightarrow> n)"

definition ledger_bump :: "cohort_name \<Rightarrow> (cohort_name \<times> u64) list \<Rightarrow> (cohort_name \<times> u64) list" where
  "ledger_bump cohort drops =
     AList.update cohort (saturating_add (ledger_get drops cohort) 1) drops"

definition record_pending_cohort_drop :: "cohort_name \<Rightarrow> counters \<Rightarrow> counters" where
  "record_pending_cohort_drop cohort c =
     c\<lparr>pending_cohort_drops := ledger_bump cohort (pending_cohort_drops c)\<rparr>"

definition record_channel_drop :: "cohort_name \<Rightarrow> counters \<Rightarrow> counters" where
  "record_channel_drop cohort c =
     record_pending_cohort_drop cohort
       (c\<lparr>channel_dropped_frames := channel_dropped_frames c + 1\<rparr>)"

definition record_memory_drop :: "cohort_name \<Rightarrow> counters \<Rightarrow> counters" where
  "record_memory_drop cohort c =
     record_pending_cohort_drop cohort
       (c\<lparr>memory_dropped_frames := memory_dropped_frames c + 1\<rparr>)"

definition take_pending_cohort_drops :: "cohort_name \<Rightarrow> counters \<Rightarrow> u64 \<times> counters" where
  "take_pending_cohort_drops cohort c =
     (ledger_get (pending_cohort_drops c) cohort,
      c\<lparr>pending_cohort_drops := AList.delete cohort (pending_cohort_drops c)\<rparr>)"

definition take_all_pending_cohort_drops :: "counters \<Rightarrow> (cohort_name \<times> u64) list \<times> counters" where
  "take_all_pending_cohort_drops c =
     (pending_cohort_drops c, c\<lparr>pending_cohort_drops := []\<rparr>)"

text \<open>The periodic summary reads every counter and none of the ledger.\<close>

definition snapshot :: "counters \<Rightarrow> u64 list" where
  "snapshot c =
     [connections_accepted c, accept_errors c, frames_read c, valid_frames_received c,
      invalid_frames c, invalid_names c, oversized_frames c, channel_dropped_frames c,
      memory_dropped_frames c, kept_frames c, flushed_parts c, flush_failures c,
      connection_errors c, idle_connection_timeouts c]"

definition ledger_ok :: "counters \<Rightarrow> bool" where
  "ledger_ok c \<longleftrightarrow> distinct (map fst (pending_cohort_drops c))"

section \<open>The ledger as an interface\<close>

text \<open>
  What the reader and the writer rely on: a ledger is observed through \<open>look\<close>; recording adds one to
  a cohort (up to saturation), taking empties it, and no other cohort is touched.
\<close>

locale drop_ledger =
  fixes ok :: "'l \<Rightarrow> bool"
    and look :: "'l \<Rightarrow> 'c \<Rightarrow> nat"
    and bump :: "'c \<Rightarrow> 'l \<Rightarrow> 'l"
    and take_one :: "'c \<Rightarrow> 'l \<Rightarrow> nat \<times> 'l"
    and cap :: nat
  assumes ok_bump: "ok l \<Longrightarrow> ok (bump c l)"
    and look_bump: "ok l \<Longrightarrow> look (bump c l) d = (if d = c then min (look l c + 1) cap else look l d)"
    and ok_take: "ok l \<Longrightarrow> ok (snd (take_one c l))"
    and take_value: "ok l \<Longrightarrow> fst (take_one c l) = look l c"
    and look_take: "ok l \<Longrightarrow> look (snd (take_one c l)) d = (if d = c then 0 else look l d)"
begin

lemma bump_counts:
  "ok l \<Longrightarrow> look l c < cap \<Longrightarrow> look (bump c l) d = look l d + (if d = c then 1 else 0)"
  by (simp add: look_bump)

lemma take_conserves:
  "ok l \<Longrightarrow> look (snd (take_one c l)) d + (if d = c then fst (take_one c l) else 0) = look l d"
  by (simp add: look_take take_value)

lemma take_twice: "ok l \<Longrightarrow> fst (take_one c (snd (take_one c l))) = 0"
  by (simp add: take_value ok_take look_take)

end

lemma ledger_get_bump:
  "ledger_get (ledger_bump c l) d =
     (if d = c then saturating_add (ledger_get l c) 1 else ledger_get l d)"
  by (simp add: ledger_get_def ledger_bump_def AList.update_conv')

lemma ledger_get_delete:
  "ledger_get (AList.delete c l) d = (if d = c then 0 else ledger_get l d)"
  by (simp add: ledger_get_def AList.delete_conv')

text \<open>The counters provide that interface; the cap is the greatest 64-bit word.\<close>

interpretation ledger: drop_ledger
  ledger_ok "\<lambda>c d. unat (ledger_get (pending_cohort_drops c) d)" record_pending_cohort_drop
  "\<lambda>d c. apfst unat (take_pending_cohort_drops d c)" "2 ^ 64 - 1"
proof unfold_locales
  fix l :: counters and c d :: cohort_name
  assume ok: "ledger_ok l"
  show "ledger_ok (record_pending_cohort_drop c l)"
    using ok by (simp add: ledger_ok_def record_pending_cohort_drop_def ledger_bump_def
        distinct_alist_update)
  show "unat (ledger_get (pending_cohort_drops (record_pending_cohort_drop c l)) d) =
      (if d = c then min (unat (ledger_get (pending_cohort_drops l) c) + 1) (2 ^ 64 - 1)
       else unat (ledger_get (pending_cohort_drops l) d))"
    by (simp add: record_pending_cohort_drop_def ledger_get_bump unat_saturating_add)
  show "ledger_ok (snd (apfst unat (take_pending_cohort_drops c l)))"
    using ok by (simp add: ledger_ok_def take_pending_cohort_drops_def AList.distinct_delete)
  show "fst (apfst unat (take_pending_cohort_drops c l)) =
      unat (ledger_get (pending_cohort_drops l) c)"
    by (simp add: take_pending_cohort_drops_def)
  show "unat (ledger_get (pending_cohort_drops (snd (apfst unat (take_pending_cohort_drops c l)))) d) =
      (if d = c then 0 else unat (ledger_get (pending_cohort_drops l) d))"
    by (simp add: take_pending_cohort_drops_def ledger_get_delete)
qed

end
