(* ===== verification/Memory.thy ===== *)
theory Memory
  imports Prelude "HOL-Library.Multiset"
begin

text \<open>
  The collector's memory tracker (\<open>vectorseam-collector/src/memory.rs\<close>). The two pure decisions of
  the compare-exchange loops are functions; the loops themselves, with any number of threads and
  spurious failures, are a step relation on the shared counter, the live guards and each thread's
  position. The invariant says the counter is exactly the bytes of the live guards and of the
  guards being dropped, so it never passes the limit and the underflow clamp is never taken.
\<close>

section \<open>Definitions\<close>

text \<open>One turn of \<open>try_reserve\<close>: the value to store, or \<open>None\<close> to give up.\<close>

definition reserve_next :: "usize \<Rightarrow> usize \<Rightarrow> usize \<Rightarrow> usize option" where
  "reserve_next current bytes limit =
     (case usize_add current bytes of
        None \<Rightarrow> None
      | Some next \<Rightarrow> if limit < next then None else Some next)"

text \<open>One turn of \<open>release\<close>: the bytes to give back after the underflow clamp, and the value to
  store.\<close>

definition release_clamp :: "usize \<Rightarrow> usize \<Rightarrow> usize" where
  "release_clamp current release_bytes =
     (if current < release_bytes then current else release_bytes)"

definition release_next :: "usize \<Rightarrow> usize \<Rightarrow> usize" where
  "release_next current release_bytes = current - release_clamp current release_bytes"

text \<open>Both operations without interference: what other components call.\<close>

definition try_reserve :: "usize \<Rightarrow> usize \<Rightarrow> usize \<Rightarrow> (usize \<times> usize) option" where
  "try_reserve used bytes limit =
     map_option (\<lambda>next. (next, bytes)) (reserve_next used bytes limit)"

definition release :: "usize \<Rightarrow> usize \<Rightarrow> usize" where
  "release used bytes = release_next used bytes"

subsection \<open>Threads\<close>

datatype mem_pc =
    Mem_Idle
  | Mem_Reserving usize usize          \<comment> \<open>bytes, current\<close>
  | Mem_Releasing usize usize usize    \<comment> \<open>bytes of the guard, release bytes, current\<close>

record mem_sys =
  ms_used :: usize
  ms_guards :: "usize multiset"
  ms_pcs :: "nat \<Rightarrow> mem_pc"

definition mem_init :: mem_sys where
  "mem_init = \<lparr>ms_used = 0, ms_guards = {#}, ms_pcs = (\<lambda>_. Mem_Idle)\<rparr>"

text \<open>
  A thread loads the counter, then turns: it gives up, stores (the counter still has the value it
  loaded), or reloads (another thread moved, or the weak exchange failed for no reason).
\<close>

inductive mem_step :: "usize \<Rightarrow> mem_sys \<Rightarrow> mem_sys \<Rightarrow> bool" for limit where
  reserve_load: "ms_pcs s i = Mem_Idle \<Longrightarrow> bytes < usize_bound \<Longrightarrow>
    mem_step limit s (s\<lparr>ms_pcs := (ms_pcs s)(i := Mem_Reserving bytes (ms_used s))\<rparr>)"
| reserve_fail: "ms_pcs s i = Mem_Reserving bytes current \<Longrightarrow>
    reserve_next current bytes limit = None \<Longrightarrow>
    mem_step limit s (s\<lparr>ms_pcs := (ms_pcs s)(i := Mem_Idle)\<rparr>)"
| reserve_store: "ms_pcs s i = Mem_Reserving bytes current \<Longrightarrow>
    reserve_next current bytes limit = Some next \<Longrightarrow> ms_used s = current \<Longrightarrow>
    mem_step limit s (s\<lparr>ms_used := next, ms_guards := add_mset bytes (ms_guards s),
                        ms_pcs := (ms_pcs s)(i := Mem_Idle)\<rparr>)"
| reserve_reload: "ms_pcs s i = Mem_Reserving bytes current \<Longrightarrow>
    reserve_next current bytes limit = Some next \<Longrightarrow>
    mem_step limit s (s\<lparr>ms_pcs := (ms_pcs s)(i := Mem_Reserving bytes (ms_used s))\<rparr>)"
| release_load: "ms_pcs s i = Mem_Idle \<Longrightarrow> bytes \<in># ms_guards s \<Longrightarrow>
    mem_step limit s (s\<lparr>ms_guards := ms_guards s - {#bytes#},
                        ms_pcs := (ms_pcs s)(i := Mem_Releasing bytes bytes (ms_used s))\<rparr>)"
| release_store: "ms_pcs s i = Mem_Releasing bytes rb current \<Longrightarrow> ms_used s = current \<Longrightarrow>
    mem_step limit s (s\<lparr>ms_used := release_next current rb,
                        ms_pcs := (ms_pcs s)(i := Mem_Idle)\<rparr>)"
| release_reload: "ms_pcs s i = Mem_Releasing bytes rb current \<Longrightarrow>
    mem_step limit s (s\<lparr>ms_pcs := (ms_pcs s)(i :=
                        Mem_Releasing bytes (release_clamp current rb) (ms_used s))\<rparr>)"

inductive mem_reachable :: "usize \<Rightarrow> mem_sys \<Rightarrow> bool" for limit where
  mem_start: "mem_reachable limit mem_init"
| mem_next: "mem_reachable limit s \<Longrightarrow> mem_step limit s t \<Longrightarrow> mem_reachable limit t"

fun pc_bytes :: "mem_pc \<Rightarrow> usize" where
  "pc_bytes (Mem_Releasing bytes rb current) = bytes"
| "pc_bytes _ = 0"

text \<open>Bytes still charged: live guards and guards whose release has not stored yet.\<close>

definition mem_charged :: "mem_sys \<Rightarrow> usize" where
  "mem_charged s = sum_mset (ms_guards s) + (\<Sum>i \<in> {i. pc_bytes (ms_pcs s i) \<noteq> 0}. pc_bytes (ms_pcs s i))"

fun pc_ok :: "mem_pc \<Rightarrow> bool" where
  "pc_ok (Mem_Releasing bytes rb current) = (rb = bytes \<and> bytes \<le> current)"
| "pc_ok _ = True"

definition mem_inv :: "usize \<Rightarrow> mem_sys \<Rightarrow> bool" where
  "mem_inv limit s \<longleftrightarrow>
     finite {i. pc_bytes (ms_pcs s i) \<noteq> 0} \<and> ms_used s = mem_charged s \<and> ms_used s \<le> limit
     \<and> (\<forall>i. pc_ok (ms_pcs s i))"

section \<open>Facts\<close>

lemma reserve_next_Some [arith_simps]:
  "reserve_next current bytes limit = Some next \<longleftrightarrow>
     next = current + bytes \<and> next < usize_bound \<and> next \<le> limit"
  by (auto simp: reserve_next_def usize_add_def)

lemma release_next_eq [simp]: "release_next current bytes = current - bytes"
  by (simp add: release_next_def release_clamp_def)

lemma release_eq [simp]: "release used bytes = used - bytes"
  by (simp add: release_def)

lemma try_reserve_Some [arith_simps]:
  "try_reserve used bytes limit = Some (used', guard) \<longleftrightarrow>
     guard = bytes \<and> used' = used + bytes \<and> used' < usize_bound \<and> used' \<le> limit"
  by (auto simp: try_reserve_def arith_simps)

lemma try_reserve_None [arith_simps]:
  "try_reserve used bytes limit = None \<longleftrightarrow> limit < used + bytes \<or> usize_bound \<le> used + bytes"
  by (auto simp: try_reserve_def reserve_next_def usize_add_def)

text \<open>
  What the reader and the writer rely on: reserving charges exactly the bytes of the guard it
  returns and never passes the limit; releasing a guard that is charged takes exactly its bytes off.
\<close>

locale memory_ledger =
  fixes reserve :: "nat \<Rightarrow> nat \<Rightarrow> nat \<Rightarrow> (nat \<times> nat) option"
    and give_back :: "nat \<Rightarrow> nat \<Rightarrow> nat"
  assumes reserve_charges: "reserve used n limit = Some (used', g) \<Longrightarrow> g = n \<and> used' = used + g"
    and reserve_limit: "reserve used n limit = Some (used', g) \<Longrightarrow> used' \<le> limit"
    and release_charges: "g \<le> used \<Longrightarrow> give_back used g + g = used"
begin

lemma release_all:
  "sum_list gs \<le> used \<Longrightarrow> foldl give_back used gs + sum_list gs = used"
proof (induction gs arbitrary: used)
  case (Cons g gs)
  have "give_back used g + g = used" using Cons.prems by (intro release_charges) simp
  then show ?case using Cons.IH [of "give_back used g"] Cons.prems by simp
qed simp

lemma release_all_le:
  "sum_list gs \<le> used \<Longrightarrow> foldl give_back used gs \<le> used"
  using release_all by (metis le_add1)

end

interpretation mem: memory_ledger try_reserve release
  by unfold_locales (auto simp: arith_simps)

text \<open>The releasing bytes of all threads after one thread moved.\<close>

lemma releasing_sum_upd:
  fixes f :: "nat \<Rightarrow> mem_pc"
  assumes "finite {i. pc_bytes (f i) \<noteq> 0}"
  shows "finite {k. pc_bytes ((f(i := p)) k) \<noteq> 0}"
    and "(\<Sum>k \<in> {k. pc_bytes ((f(i := p)) k) \<noteq> 0}. pc_bytes ((f(i := p)) k)) + pc_bytes (f i) =
         (\<Sum>k \<in> {k. pc_bytes (f k) \<noteq> 0}. pc_bytes (f k)) + pc_bytes p"
proof -
  let ?A = "insert i {i. pc_bytes (f i) \<noteq> 0}"
  have fin: "finite ?A" using assms by simp
  show "finite {k. pc_bytes ((f(i := p)) k) \<noteq> 0}"
    by (rule finite_subset [OF _ fin]) (auto split: if_splits)
  have s: "(\<Sum>k \<in> {k. pc_bytes (g k) \<noteq> 0}. pc_bytes (g k)) = (\<Sum>k \<in> ?A. pc_bytes (g k))"
    if "{k. pc_bytes (g k) \<noteq> 0} \<subseteq> ?A" for g
    using that fin by (intro sum.mono_neutral_left) auto
  have 1: "(\<Sum>k \<in> {k. pc_bytes ((f(i := p)) k) \<noteq> 0}. pc_bytes ((f(i := p)) k)) =
      (\<Sum>k \<in> ?A. pc_bytes ((f(i := p)) k))"
    by (rule s) (auto split: if_splits)
  have 2: "(\<Sum>k \<in> {k. pc_bytes (f k) \<noteq> 0}. pc_bytes (f k)) = (\<Sum>k \<in> ?A. pc_bytes (f k))"
    by (rule s) auto
  have 3: "(\<Sum>k \<in> ?A. pc_bytes ((f(i := p)) k)) = pc_bytes p + (\<Sum>k \<in> ?A - {i}. pc_bytes (f k))"
    using fin by (subst sum.remove [of ?A i]) auto
  have 4: "(\<Sum>k \<in> ?A. pc_bytes (f k)) = pc_bytes (f i) + (\<Sum>k \<in> ?A - {i}. pc_bytes (f k))"
    using fin by (subst sum.remove [of ?A i]) auto
  show "(\<Sum>k \<in> {k. pc_bytes ((f(i := p)) k) \<noteq> 0}. pc_bytes ((f(i := p)) k)) + pc_bytes (f i) =
         (\<Sum>k \<in> {k. pc_bytes (f k) \<noteq> 0}. pc_bytes (f k)) + pc_bytes p"
    using 1 2 3 4 by linarith
qed

lemma pc_bytes_le_charged:
  assumes "mem_inv limit s"
  shows "pc_bytes (ms_pcs s i) \<le> ms_used s"
proof (cases "pc_bytes (ms_pcs s i) = 0")
  case False
  then have "pc_bytes (ms_pcs s i) \<le> (\<Sum>i \<in> {i. pc_bytes (ms_pcs s i) \<noteq> 0}. pc_bytes (ms_pcs s i))"
    using assms by (intro member_le_sum) (auto simp: mem_inv_def)
  then show ?thesis using assms by (simp add: mem_inv_def mem_charged_def)
qed simp

lemma guard_le_charged:
  assumes "mem_inv limit s" and "b \<in># ms_guards s"
  shows "b \<le> ms_used s"
proof -
  have "sum_mset (ms_guards s) = b + sum_mset (ms_guards s - {#b#})"
    using assms(2) by (metis insert_DiffM sum_mset.add_mset)
  then show ?thesis using assms(1) by (simp add: mem_inv_def mem_charged_def)
qed

lemma mem_inv_init: "mem_inv limit mem_init"
  by (simp add: mem_inv_def mem_init_def mem_charged_def)

lemma mem_step_inv:
  assumes "mem_step limit s t" and inv: "mem_inv limit s"
  shows "mem_inv limit t"
  using assms(1)
proof cases
  case (reserve_load i bytes)
  then show ?thesis
    using inv releasing_sum_upd [of "ms_pcs s" i "Mem_Reserving bytes (ms_used s)"]
    by (auto simp: mem_inv_def mem_charged_def)
next
  case (reserve_fail i bytes current)
  then show ?thesis
    using inv releasing_sum_upd [of "ms_pcs s" i Mem_Idle]
    by (auto simp: mem_inv_def mem_charged_def)
next
  case (reserve_store i bytes current nxt)
  then show ?thesis
    using inv releasing_sum_upd [of "ms_pcs s" i Mem_Idle]
    by (auto simp: mem_inv_def mem_charged_def arith_simps)
next
  case (reserve_reload i bytes current nxt)
  then show ?thesis
    using inv releasing_sum_upd [of "ms_pcs s" i "Mem_Reserving bytes (ms_used s)"]
    by (auto simp: mem_inv_def mem_charged_def)
next
  case (release_load i bytes)
  have "sum_mset (ms_guards s) = bytes + sum_mset (ms_guards s - {#bytes#})"
    using release_load(3) by (metis insert_DiffM sum_mset.add_mset)
  then show ?thesis
    using inv release_load guard_le_charged [OF inv release_load(3)]
      releasing_sum_upd [of "ms_pcs s" i "Mem_Releasing bytes bytes (ms_used s)"]
    by (auto simp: mem_inv_def mem_charged_def)
next
  case (release_store i bytes rb current)
  have ok: "pc_ok (ms_pcs s i)" using inv by (simp add: mem_inv_def)
  then have rb: "rb = bytes" "bytes \<le> current" using release_store(2) by auto
  have pcs: "ms_pcs t = (ms_pcs s)(i := Mem_Idle)" and used: "ms_used t = ms_used s - bytes"
    and gs: "ms_guards t = ms_guards s"
    using release_store rb by auto
  have fin: "finite {i. pc_bytes (ms_pcs s i) \<noteq> 0}" using inv by (simp add: mem_inv_def)
  note upd = releasing_sum_upd [OF fin, of i Mem_Idle]
  have "mem_charged t + bytes = mem_charged s"
    using upd(2) release_store(2) unfolding mem_charged_def pcs gs by simp
  moreover have "finite {k. pc_bytes (ms_pcs t k) \<noteq> 0}" unfolding pcs by (rule upd(1))
  moreover have "\<forall>k. pc_ok (ms_pcs t k)" using inv by (simp add: pcs mem_inv_def)
  ultimately show ?thesis using inv used by (auto simp: mem_inv_def)
next
  case (release_reload i bytes rb current)
  have ok: "pc_ok (ms_pcs s i)" using inv by (simp add: mem_inv_def)
  then have c: "release_clamp current rb = bytes"
    using release_reload(2) by (simp add: release_clamp_def)
  have "bytes \<le> ms_used s" using pc_bytes_le_charged [OF inv, of i] release_reload(2) by simp
  then show ?thesis
    using inv release_reload c
      releasing_sum_upd [of "ms_pcs s" i "Mem_Releasing bytes bytes (ms_used s)"]
    by (auto simp: mem_inv_def mem_charged_def)
qed

lemma mem_reachable_inv: "mem_reachable limit s \<Longrightarrow> mem_inv limit s"
  by (induction rule: mem_reachable.induct) (auto intro: mem_inv_init mem_step_inv)

section \<open>Properties\<close>

text \<open>
  C17. Whatever the number of threads and the interleaving of their compare-exchange loops, the
  tracker's counter never exceeds the limit and is exactly the bytes of the live guards plus those
  of guards whose drop is in progress, and no dropping thread ever meets the underflow clamp: the
  value it subtracts is the guard's own size and fits in the counter it read.
\<close>

theorem memory_tracker_exact:
  assumes "mem_reachable limit s"
  shows "ms_used s \<le> limit \<and> ms_used s = mem_charged s
     \<and> (\<forall>i bytes rb current. ms_pcs s i = Mem_Releasing bytes rb current \<longrightarrow>
          release_clamp current rb = bytes \<and> bytes \<le> current)"
proof -
  have inv: "mem_inv limit s" using assms by (rule mem_reachable_inv)
  have "release_clamp current rb = bytes \<and> bytes \<le> current"
    if "ms_pcs s i = Mem_Releasing bytes rb current" for i bytes rb current
  proof -
    have "pc_ok (ms_pcs s i)" using inv by (simp add: mem_inv_def)
    then show ?thesis using that by (simp add: release_clamp_def)
  qed
  then show ?thesis using inv by (simp add: mem_inv_def)
qed

text \<open>A guard of three bytes under a limit of seven, while thread 0 is dropping it.\<close>

definition mem_example :: mem_sys where
  "mem_example = \<lparr>ms_used = 3, ms_guards = {#},
                  ms_pcs = (\<lambda>_. Mem_Idle)(0 := Mem_Releasing 3 3 3)\<rparr>"

lemma mem_example_reachable: "mem_reachable 7 mem_example"
proof -
  let ?s1 = "\<lparr>ms_used = 0, ms_guards = {#}, ms_pcs = (\<lambda>_. Mem_Idle)(0 := Mem_Reserving 3 0)\<rparr>"
  let ?s2 = "\<lparr>ms_used = 3, ms_guards = {#3#}, ms_pcs = (\<lambda>_. Mem_Idle)\<rparr>"
  have "mem_step 7 mem_init ?s1"
    using reserve_load [of mem_init 0 3 7] by (simp add: mem_init_def usize_bound_def)
  then have r1: "mem_reachable 7 ?s1" by (rule mem_next [OF mem_start])
  have "mem_step 7 ?s1 ?s2"
    using reserve_store [of ?s1 0 3 0 7 3] by (simp add: arith_simps usize_bound_def fun_upd_idem)
  then have r2: "mem_reachable 7 ?s2" by (rule mem_next [OF r1])
  have "mem_step 7 ?s2 mem_example"
    using release_load [of ?s2 0 3 7] by (simp add: mem_example_def)
  then show ?thesis by (rule mem_next [OF r2])
qed

theorem memory_tracker_exact_witness:
  "ms_used mem_example \<le> 7 \<and> ms_used mem_example = mem_charged mem_example
     \<and> release_clamp 3 3 = 3 \<and> ms_pcs mem_example 0 = Mem_Releasing 3 3 3"
proof -
  have pc: "ms_pcs mem_example 0 = Mem_Releasing 3 3 3" by (simp add: mem_example_def)
  then show ?thesis using memory_tracker_exact [OF mem_example_reachable] by blast
qed

end
