(* ===== verification/Recommendation.thy ===== *)
theory Recommendation
  imports Prelude
begin

text \<open>
  The shared bounds of a recommended value (\<open>vectorseam-core/src/recommendation.rs\<close>): the tuner
  refuses a grid above the greatest one, the recommendation server refuses a record outside of both.
\<close>

definition MIN_EF_SEARCH :: int where
  "MIN_EF_SEARCH = 1"

definition MAX_EF_SEARCH :: int where
  "MAX_EF_SEARCH = 1000"

end
