(* ===== verification/RecConfig.thy ===== *)
theory RecConfig
  imports Recommendation
begin

text \<open>
  Options and configuration of the recommendation server
  (\<open>vectorseam-recommendation-server/src/lib.rs\<close>). A socket address is its printed form; a
  \<open>std::time::Duration\<close> is its number of nanoseconds.
\<close>

section \<open>Definitions\<close>

type_synonym duration = nat

definition from_secs :: "u64 \<Rightarrow> duration" where
  "from_secs s = unat s * 1000000000"

definition from_millis :: "u64 \<Rightarrow> duration" where
  "from_millis ms = unat ms * 1000000"

definition LATEST_JSON_MAX_BYTES :: u64 where
  "LATEST_JSON_MAX_BYTES = 256 * 1024"

definition ACCEPT_ERROR_BACKOFF :: duration where
  "ACCEPT_ERROR_BACKOFF = from_millis 100"

definition LOAD_COALESCING_TTL :: duration where
  "LOAD_COALESCING_TTL = from_millis 10"

record rec_options =
  ro_listen_addr :: string
  ro_max_connections :: usize
  ro_max_concurrent_requests :: usize
  ro_lookup_timeout_seconds :: u64
  ro_request_head_timeout_seconds :: u64
  ro_shutdown_drain_timeout_seconds :: u64
  ro_cache_ttl_seconds :: u64
  ro_max_cached_cohorts :: u64
  ro_max_cached_negative_cohorts :: u64

record rec_config =
  rc_listen_addr :: string
  rc_max_connections :: usize
  rc_max_concurrent_requests :: usize
  rc_lookup_timeout :: duration
  rc_request_head_timeout :: duration
  rc_shutdown_drain_timeout :: duration
  rc_cache_ttl :: duration
  rc_max_cached_cohorts :: u64
  rc_max_cached_negative_cohorts :: u64

definition rec_options_default :: rec_options where
  "rec_options_default =
     \<lparr>ro_listen_addr = ''127.0.0.1:7738'', ro_max_connections = 100,
      ro_max_concurrent_requests = 100, ro_lookup_timeout_seconds = 3,
      ro_request_head_timeout_seconds = 4, ro_shutdown_drain_timeout_seconds = 5,
      ro_cache_ttl_seconds = 60, ro_max_cached_cohorts = 10000,
      ro_max_cached_negative_cohorts = 256\<rparr>"

definition server_config :: "rec_options \<Rightarrow> rec_config" where
  "server_config o' =
     \<lparr>rc_listen_addr = ro_listen_addr o', rc_max_connections = ro_max_connections o',
      rc_max_concurrent_requests = ro_max_concurrent_requests o',
      rc_lookup_timeout = from_secs (ro_lookup_timeout_seconds o'),
      rc_request_head_timeout = from_secs (ro_request_head_timeout_seconds o'),
      rc_shutdown_drain_timeout = from_secs (ro_shutdown_drain_timeout_seconds o'),
      rc_cache_ttl = from_secs (ro_cache_ttl_seconds o'),
      rc_max_cached_cohorts = ro_max_cached_cohorts o',
      rc_max_cached_negative_cohorts = ro_max_cached_negative_cohorts o'\<rparr>"

definition rec_config_default :: rec_config where
  "rec_config_default =
     \<lparr>rc_listen_addr = ''127.0.0.1:7738'', rc_max_connections = 100,
      rc_max_concurrent_requests = 100, rc_lookup_timeout = from_secs 3,
      rc_request_head_timeout = from_secs 4, rc_shutdown_drain_timeout = from_secs 5,
      rc_cache_ttl = from_secs 60, rc_max_cached_cohorts = 10000,
      rc_max_cached_negative_cohorts = 256\<rparr>"

datatype server_error =
    InvalidConfig string
  | Bind string string   \<comment> \<open>address, operating-system error\<close>

definition rec_validate_config :: "rec_config \<Rightarrow> server_error + unit" where
  "rec_validate_config c =
     (if rc_max_connections c = 0
      then Inl (InvalidConfig ''max_connections must be greater than zero'')
      else if rc_max_concurrent_requests c = 0
      then Inl (InvalidConfig ''max_concurrent_requests must be greater than zero'')
      else if rc_lookup_timeout c = 0
      then Inl (InvalidConfig ''lookup_timeout must be greater than zero'')
      else if rc_request_head_timeout c = 0
      then Inl (InvalidConfig ''request_head_timeout must be greater than zero'')
      else if rc_shutdown_drain_timeout c = 0
      then Inl (InvalidConfig ''shutdown_drain_timeout must be greater than zero'')
      else if rc_shutdown_drain_timeout c \<le> rc_lookup_timeout c
      then Inl (InvalidConfig ''lookup_timeout must be less than shutdown_drain_timeout'')
      else if rc_shutdown_drain_timeout c \<le> rc_request_head_timeout c
      then Inl (InvalidConfig ''request_head_timeout must be less than shutdown_drain_timeout'')
      else if rc_cache_ttl c = 0
      then Inl (InvalidConfig ''cache_ttl must be greater than zero'')
      else if rc_max_cached_cohorts c = 0
      then Inl (InvalidConfig ''max_cached_cohorts must be greater than zero'')
      else if rc_max_cached_negative_cohorts c = 0
      then Inl (InvalidConfig ''max_cached_negative_cohorts must be greater than zero'')
      else Inr ())"

text \<open>What a validated configuration promises the server.\<close>

definition rec_config_ok :: "rec_config \<Rightarrow> bool" where
  "rec_config_ok c \<longleftrightarrow>
     0 < rc_max_connections c \<and> 0 < rc_max_concurrent_requests c
     \<and> 0 < rc_lookup_timeout c \<and> rc_lookup_timeout c < rc_shutdown_drain_timeout c
     \<and> 0 < rc_request_head_timeout c \<and> rc_request_head_timeout c < rc_shutdown_drain_timeout c
     \<and> 0 < rc_cache_ttl c \<and> 0 < rc_max_cached_cohorts c \<and> 0 < rc_max_cached_negative_cohorts c"

section \<open>Facts\<close>

lemma rec_validate_config_Inr [result_simps]:
  "rec_validate_config c = Inr () \<longleftrightarrow> rec_config_ok c"
  by (auto simp: rec_validate_config_def rec_config_ok_def word_neq_0_conv)

lemma server_config_default: "server_config rec_options_default = rec_config_default"
  by (simp add: server_config_def rec_options_default_def rec_config_default_def)

lemma rec_config_default_ok: "rec_config_ok rec_config_default"
  by (simp add: rec_config_ok_def rec_config_default_def from_secs_def)

lemma from_secs_less: "from_secs a < from_secs b \<longleftrightarrow> a < b"
  by (simp add: from_secs_def word_less_nat_alt)

end
