(* ===== verification/CollectorConfig.thy ===== *)
theory CollectorConfig
  imports Frame Segment RecConfig
begin

text \<open>
  The collector's configuration (\<open>vectorseam-collector/src/config.rs\<close>): the options record, the
  validation with its errors in the source's order, the live-memory budget left after the
  serialization reserve, and the two records the reader and the writer get. Byte counts are
  \<open>usize\<close>, with their checked arithmetic.
\<close>

section \<open>Definitions\<close>

record collector_config =
  cc_listen :: string
  cc_recommendation_enabled :: bool
  cc_recommendation_server :: rec_options
  cc_unix_socket :: "string option"
  cc_storage_root :: string
  cc_window_seconds :: u32
  cc_per_cohort_memory_bytes :: usize
  cc_global_memory_bytes :: usize
  cc_max_frame_size :: usize
  cc_channel_capacity :: usize
  cc_max_connections :: usize
  cc_idle_timeout_seconds :: u64
  cc_put_timeout_seconds :: u64

record reader_config =
  rdc_max_frame_size :: usize
  rdc_live_memory_bytes :: usize
  rdc_idle_timeout :: duration

record writer_config =
  wc_window_seconds :: u32
  wc_per_cohort_memory_bytes :: usize
  wc_live_memory_bytes :: usize
  wc_put_timeout :: duration

text \<open>The command line's defaults, with the required storage root.\<close>

definition collector_config_default :: "string \<Rightarrow> collector_config" where
  "collector_config_default dir =
     \<lparr>cc_listen = ''127.0.0.1:7737'', cc_recommendation_enabled = True,
      cc_recommendation_server = rec_options_default, cc_unix_socket = None,
      cc_storage_root = dir, cc_window_seconds = 600,
      cc_per_cohort_memory_bytes = 32 * 1024 * 1024,
      cc_global_memory_bytes = 256 * 1024 * 1024, cc_max_frame_size = 32 * 1024,
      cc_channel_capacity = 2048, cc_max_connections = 2048, cc_idle_timeout_seconds = 300,
      cc_put_timeout_seconds = 60\<rparr>"

definition live_memory_bytes :: "collector_config \<Rightarrow> string + usize" where
  "live_memory_bytes c =
     res_bind (ok_or (usize_add (cc_per_cohort_memory_bytes c) MAX_SEGMENT_OVERHEAD_BYTES)
                ''per-cohort memory cap is too large'') (\<lambda>flush_reserve.
     ok_or (usize_sub (cc_global_memory_bytes c) flush_reserve)
       ''global memory cap must exceed per-cohort cap plus serialization reserve'')"

definition validate_collector_config :: "collector_config \<Rightarrow> string + unit" where
  "validate_collector_config c =
     (if cc_window_seconds c = 0 then Inl ''window seconds must be greater than zero''
      else if cc_per_cohort_memory_bytes c = 0
      then Inl ''per-cohort memory cap must be greater than zero''
      else if cc_global_memory_bytes c = 0
      then Inl ''global memory cap must be greater than zero''
      else if cc_max_frame_size c < FIXED_FRAME_HEADER_LEN
      then Inl ''max frame size must be at least 28 bytes''
      else
      res_bind (ok_or (usize_add (cc_max_frame_size c) 8) ''max frame size is too large'')
        (\<lambda>max_record_bytes.
      if cc_per_cohort_memory_bytes c < max_record_bytes
      then Inl ''per-cohort memory cap must fit one max-size record''
      else
      res_bind (live_memory_bytes c) (\<lambda>live.
      if live < max_record_bytes
      then Inl ''global memory cap must fit one max-size record after serialization reserve''
      else if cc_channel_capacity c = 0 then Inl ''channel capacity must be greater than zero''
      else if cc_max_connections c = 0 then Inl ''max connections must be greater than zero''
      else if cc_idle_timeout_seconds c = 0
      then Inl ''idle timeout seconds must be greater than zero''
      else if cc_put_timeout_seconds c = 0
      then Inl ''put timeout seconds must be greater than zero''
      else Inr ())))"

definition reader_config_of :: "collector_config \<Rightarrow> usize \<Rightarrow> reader_config" where
  "reader_config_of c live =
     \<lparr>rdc_max_frame_size = cc_max_frame_size c, rdc_live_memory_bytes = live,
      rdc_idle_timeout = from_secs (cc_idle_timeout_seconds c)\<rparr>"

definition writer_config_of :: "collector_config \<Rightarrow> usize \<Rightarrow> writer_config" where
  "writer_config_of c live =
     \<lparr>wc_window_seconds = cc_window_seconds c,
      wc_per_cohort_memory_bytes = cc_per_cohort_memory_bytes c,
      wc_live_memory_bytes = live, wc_put_timeout = from_secs (cc_put_timeout_seconds c)\<rparr>"

section \<open>Facts\<close>

lemma live_memory_bytes_Inr [result_simps]:
  "live_memory_bytes c = Inr live \<longleftrightarrow>
     cc_per_cohort_memory_bytes c + 309 < usize_bound
     \<and> cc_per_cohort_memory_bytes c + 309 \<le> cc_global_memory_bytes c
     \<and> live = cc_global_memory_bytes c - (cc_per_cohort_memory_bytes c + 309)"
  by (auto simp: live_memory_bytes_def result_simps arith_simps MAX_SEGMENT_OVERHEAD_BYTES_def
      segment_consts cohort_limits)

lemma validate_collector_config_Inr [result_simps]:
  "validate_collector_config c = Inr () \<longleftrightarrow>
     cc_window_seconds c \<noteq> 0 \<and> 28 \<le> cc_max_frame_size c
     \<and> cc_max_frame_size c + 8 < usize_bound
     \<and> cc_max_frame_size c + 8 \<le> cc_per_cohort_memory_bytes c
     \<and> (\<exists>live. live_memory_bytes c = Inr live \<and> cc_max_frame_size c + 8 \<le> live)
     \<and> 0 < cc_channel_capacity c \<and> 0 < cc_max_connections c
     \<and> cc_idle_timeout_seconds c \<noteq> 0 \<and> cc_put_timeout_seconds c \<noteq> 0"
  by (auto simp: validate_collector_config_def result_simps arith_simps frame_consts
      split: if_splits)

lemma collector_config_default_ok:
  "validate_collector_config (collector_config_default dir) = Inr ()"
  by (simp add: collector_config_default_def result_simps usize_bound_def)

section \<open>Properties\<close>

text \<open>
  C37. A validated configuration budgets memory for every frame the reader accepts: the record of a
  frame of the maximum size fits the per-cohort cap and the live budget, the live budget plus the
  largest serialized segment (a full cohort and the greatest segment overhead) stays within the
  global cap, and the window width is never zero.
\<close>

theorem validated_config_budget:
  assumes "validate_collector_config c = Inr ()"
  shows "\<exists>live. live_memory_bytes c = Inr live
     \<and> cc_max_frame_size c + 8 \<le> live \<and> cc_max_frame_size c + 8 \<le> cc_per_cohort_memory_bytes c
     \<and> live + cc_per_cohort_memory_bytes c + MAX_SEGMENT_OVERHEAD_BYTES \<le> cc_global_memory_bytes c
     \<and> cc_window_seconds c \<noteq> 0"
  using assms
  by (auto simp: result_simps MAX_SEGMENT_OVERHEAD_BYTES_def segment_consts cohort_limits)

theorem validated_config_budget_witness:
  "\<exists>live. live_memory_bytes (collector_config_default ''/data'') = Inr live
     \<and> cc_max_frame_size (collector_config_default ''/data'') + 8 \<le> live
     \<and> cc_max_frame_size (collector_config_default ''/data'') + 8
          \<le> cc_per_cohort_memory_bytes (collector_config_default ''/data'')
     \<and> live + cc_per_cohort_memory_bytes (collector_config_default ''/data'')
          + MAX_SEGMENT_OVERHEAD_BYTES \<le> cc_global_memory_bytes (collector_config_default ''/data'')
     \<and> cc_window_seconds (collector_config_default ''/data'') \<noteq> 0"
  by (rule validated_config_budget [OF collector_config_default_ok])

end
