(* ===== verification/Clock.thy ===== *)
theory Clock
  imports RecConfig
begin

text \<open>
  Wall-clock helpers (\<open>vectorseam-collector/src/time.rs\<close>). The system clock is an argument: the
  duration since the Unix epoch in whole seconds and nanoseconds, or \<open>None\<close> before the epoch.
\<close>

section \<open>Definitions\<close>

type_synonym clock = "(u64 \<times> u32) option"

definition duration_until_unix_second :: "u64 \<Rightarrow> clock \<Rightarrow> duration" where
  "duration_until_unix_second target_second now =
     (case now of
        Some (now_seconds, nanos) \<Rightarrow>
          if target_second \<le> now_seconds then 0 else from_secs (target_second - now_seconds)
      | None \<Rightarrow> 0)"

definition unix_seconds_now :: "clock \<Rightarrow> string + u64" where
  "unix_seconds_now now =
     (case now of
        Some (secs, nanos) \<Rightarrow> Inr secs
      | None \<Rightarrow> Inl ''system time is before unix epoch'')"

definition unix_micros_now :: "clock \<Rightarrow> string + u64" where
  "unix_micros_now now =
     (case now of
        Some (secs, nanos) \<Rightarrow>
          ok_or (Option.bind (checked_mul secs 1000000)
                  (\<lambda>micros. checked_add micros (ucast (nanos div 1000))))
            ''unix microsecond timestamp overflowed''
      | None \<Rightarrow> Inl ''system time is before unix epoch'')"

section \<open>Facts\<close>

lemma checked_mul_Some [arith_simps]:
  fixes a b :: "'a::len word"
  shows "checked_mul a b = Some c \<longleftrightarrow> unat c = unat a * unat b"
proof
  assume "checked_mul a b = Some c"
  then show "unat c = unat a * unat b"
    by (auto simp: checked_mul_def unat_word_ariths split: if_splits)
next
  assume eq: "unat c = unat a * unat b"
  have lt: "unat a * unat b < 2 ^ LENGTH('a)"
    using unat_bound [of c] by (simp add: eq [symmetric])
  then have "unat (a * b) = unat c" by (simp add: eq unat_word_ariths)
  then have "a * b = c" by (rule word_unat_eq_iff [THEN iffD2])
  with lt show "checked_mul a b = Some c" by (simp add: checked_mul_def)
qed

text \<open>The receive stamp is the clock in microseconds, and its seconds are the clock's seconds.\<close>

lemma unix_micros_now_Inr:
  "unix_micros_now (Some (secs, nanos)) = Inr t \<longleftrightarrow>
     unat t = unat secs * 1000000 + unat (nanos div 1000)"
proof -
  have u: "unat (ucast (nanos div 1000) :: u64) = unat (nanos div 1000)"
    using u32_bound [of "nanos div 1000"] by (simp add: unsigned_ucast_eq take_bit_nat_eq_self)
  show ?thesis
  proof
    assume "unix_micros_now (Some (secs, nanos)) = Inr t"
    then show "unat t = unat secs * 1000000 + unat (nanos div 1000)"
      by (auto simp: unix_micros_now_def result_simps bind_eq_Some_conv arith_simps u)
  next
    assume t: "unat t = unat secs * 1000000 + unat (nanos div 1000)"
    have "unat secs * 1000000 < 2 ^ 64" using unat_bound [of t] t by simp
    then have m: "checked_mul secs 1000000 = Some (secs * 1000000)" by (simp add: checked_mul_def)
    have "unat (secs * 1000000) = unat secs * 1000000"
      using m by (simp add: checked_mul_Some)
    then have "checked_add (secs * 1000000) (ucast (nanos div 1000)) = Some t"
      using t by (simp add: checked_add_Some u)
    then show "unix_micros_now (Some (secs, nanos)) = Inr t"
      using m by (simp add: unix_micros_now_def)
  qed
qed

lemma duration_until_reached:
  "now_seconds \<le> target \<Longrightarrow>
     duration_until_unix_second target (Some (now_seconds, nanos)) =
       (unat target - unat now_seconds) * 1000000000"
  by (auto simp: duration_until_unix_second_def from_secs_def unat_sub_le)

end
