(* ===== verification/Reader.thy ===== *)
theory Reader
  imports Clock Counters Memory CollectorConfig
begin

text \<open>
  The per-connection reader (\<open>vectorseam-collector/src/reader.rs\<close>) over the state it shares with the
  writer: the counters, the memory tracker and the bounded channel. A stream is the bytes that
  arrive before its first terminal event (end of file, an error, shutdown, the idle timeout) and
  that event. One turn of the connection loop is \<open>reader_turn\<close>; the loop consumes at least four
  bytes per turn, which is the termination proof of \<open>handle_connection\<close>.
\<close>

section \<open>Definitions\<close>

record frame_event =
  fe_cohort :: cohort_name
  fe_receive_time :: u64
  fe_frame :: "u8 list"
  fe_memory :: usize

record collector_shared =
  cs_counters :: counters
  cs_used :: usize
  cs_queue :: "frame_event list"
  cs_capacity :: usize
  cs_receiver_closed :: bool

datatype read_outcome = Read | Closed | Shutdown | IdleTimeout | ReadError string

datatype stream_end = End_Eof | End_Shutdown | End_Stall | End_Error string

record stream =
  st_bytes :: "u8 list"
  st_end :: stream_end

fun end_outcome :: "stream_end \<Rightarrow> read_outcome" where
  "end_outcome End_Eof = Closed"
| "end_outcome End_Shutdown = Shutdown"
| "end_outcome End_Stall = IdleTimeout"
| "end_outcome (End_Error e) = ReadError e"

lemma end_outcome_not_Read [simp]: "end_outcome e \<noteq> Read"
  by (cases e) simp_all

text \<open>A partly filled buffer is abandoned with the connection.\<close>

definition read_exact_or_shutdown :: "stream \<Rightarrow> nat \<Rightarrow> read_outcome \<times> u8 list \<times> stream" where
  "read_exact_or_shutdown stream n =
     (if n \<le> length (st_bytes stream)
      then (Read, take n (st_bytes stream), stream\<lparr>st_bytes := drop n (st_bytes stream)\<rparr>)
      else (end_outcome (st_end stream), [], stream\<lparr>st_bytes := []\<rparr>))"

datatype send_result = Sent | Channel_Full | Channel_Closed

definition try_send ::
  "frame_event \<Rightarrow> 'a collector_shared_scheme \<Rightarrow> send_result \<times> 'a collector_shared_scheme" where
  "try_send event s =
     (if cs_receiver_closed s then (Channel_Closed, s)
      else if cs_capacity s \<le> length (cs_queue s) then (Channel_Full, s)
      else (Sent, s\<lparr>cs_queue := cs_queue s @ [event]\<rparr>))"

datatype control = Next_turn | Return_conn

definition counted :: "(counters \<Rightarrow> counters) \<Rightarrow> 'a collector_shared_scheme \<Rightarrow> 'a collector_shared_scheme" where
  "counted f s = s\<lparr>cs_counters := f (cs_counters s)\<rparr>"

text \<open>The outcomes of a read that do not fill the buffer all close the connection.\<close>

fun read_failed :: "read_outcome \<Rightarrow> 'a collector_shared_scheme \<Rightarrow> 'a collector_shared_scheme" where
  "read_failed Read s = s"
| "read_failed Closed s = s"
| "read_failed Shutdown s = s"
| "read_failed IdleTimeout s =
     counted (\<lambda>c. c\<lparr>idle_connection_timeouts := idle_connection_timeouts c + 1\<rparr>) s"
| "read_failed (ReadError e) s =
     counted (\<lambda>c. c\<lparr>connection_errors := connection_errors c + 1\<rparr>) s"

text \<open>From a complete frame to the channel.\<close>

definition receive_frame ::
  "reader_config \<Rightarrow> clock \<Rightarrow> u8 list \<Rightarrow> 'a collector_shared_scheme
     \<Rightarrow> control \<times> 'a collector_shared_scheme" where
  "receive_frame cfg now frame s =
     (case parse_frame_header frame of
        Inl e \<Rightarrow> (Next_turn, counted (\<lambda>c. c\<lparr>invalid_frames := invalid_frames c + 1\<rparr>) s)
      | Inr parsed \<Rightarrow>
     (case cohort_new (fh_name parsed) of
        Inl e \<Rightarrow> (Next_turn, counted (\<lambda>c. c\<lparr>invalid_names := invalid_names c + 1\<rparr>) s)
      | Inr cohort \<Rightarrow>
     (case unix_micros_now now of
        Inl e \<Rightarrow> (Next_turn, s)
      | Inr receive_time \<Rightarrow>
     (let s = counted (\<lambda>c. c\<lparr>valid_frames_received := valid_frames_received c + 1\<rparr>) s in
      case usize_add (length frame) 8 of
        None \<Rightarrow> (Next_turn, counted (record_memory_drop cohort) s)
      | Some memory_bytes \<Rightarrow>
     (case try_reserve (cs_used s) memory_bytes (rdc_live_memory_bytes cfg) of
        None \<Rightarrow> (Next_turn, counted (record_memory_drop cohort) s)
      | Some (used, memory_guard) \<Rightarrow>
     (let event = \<lparr>fe_cohort = cohort, fe_receive_time = receive_time, fe_frame = frame,
                   fe_memory = memory_guard\<rparr>
      in case try_send event (s\<lparr>cs_used := used\<rparr>) of
           (Sent, s) \<Rightarrow> (Next_turn, s)
         | (Channel_Full, s) \<Rightarrow>
             (Next_turn, (counted (record_channel_drop cohort) s)\<lparr>cs_used := release (cs_used s) memory_guard\<rparr>)
         | (Channel_Closed, s) \<Rightarrow>
             (Return_conn, (counted (record_channel_drop cohort) s)\<lparr>cs_used := release (cs_used s) memory_guard\<rparr>)))))))"

definition reader_turn ::
  "reader_config \<Rightarrow> clock \<Rightarrow> stream \<Rightarrow> 'a collector_shared_scheme
     \<Rightarrow> control \<times> stream \<times> 'a collector_shared_scheme" where
  "reader_turn cfg now stream s =
     (case read_exact_or_shutdown stream 4 of (outcome, len_buf, stream) \<Rightarrow>
      if outcome \<noteq> Read then (Return_conn, stream, read_failed outcome s)
      else
      let s = counted (\<lambda>c. c\<lparr>frames_read := frames_read c + 1\<rparr>) s;
          frame_len = word_from_le_bytes len_buf :: u32
      in case Option.bind (usize_from_u32 frame_len) (\<lambda>value. usize_add value 4) of
           None \<Rightarrow> (Return_conn, stream, counted (\<lambda>c. c\<lparr>invalid_frames := invalid_frames c + 1\<rparr>) s)
         | Some frame_total_len \<Rightarrow>
             if rdc_max_frame_size cfg < frame_total_len
             then (Return_conn, stream,
                   counted (\<lambda>c. c\<lparr>oversized_frames := oversized_frames c + 1\<rparr>) s)
             else
               (case read_exact_or_shutdown stream (frame_total_len - 4) of (outcome, body, stream) \<Rightarrow>
                if outcome \<noteq> Read then (Return_conn, stream, read_failed outcome s)
                else case receive_frame cfg now (len_buf @ body) s of
                       (control, s) \<Rightarrow> (control, stream, s)))"

text \<open>The clock is read once per turn, so the loop gets a clock per turn.\<close>

lemma reader_turn_consumes:
  assumes "reader_turn cfg now stream s = (Next_turn, stream', s')"
  shows "length (st_bytes stream') < length (st_bytes stream)"
  using assms
  by (auto simp: reader_turn_def read_exact_or_shutdown_def Let_def
      split: prod.splits if_splits option.splits)

function handle_connection ::
  "reader_config \<Rightarrow> (nat \<Rightarrow> clock) \<Rightarrow> nat \<Rightarrow> stream \<Rightarrow> 'a collector_shared_scheme
     \<Rightarrow> 'a collector_shared_scheme" where
  "handle_connection cfg clocks n stream s =
     (case reader_turn cfg (clocks n) stream s of
        (Return_conn, stream', s') \<Rightarrow> s'
      | (Next_turn, stream', s') \<Rightarrow> handle_connection cfg clocks (Suc n) stream' s')"
  by pat_completeness auto
termination
  by (relation "measure (\<lambda>(cfg, clocks, n, stream, s). length (st_bytes stream))")
    (auto dest: reader_turn_consumes [OF sym])

declare handle_connection.simps [simp del]

end
