(* ===== verification/Writer.thy ===== *)
theory Writer
  imports Reader Window
begin

text \<open>
  The single writer of the collector (\<open>vectorseam-collector/src/writer.rs\<close>): cohort buffers, the
  cap and global-pressure flushes, window changes, and the serialization and storage of a flush.
  The state extends what the readers share with the buffers, the current window and a log of the
  flush attempts. Third-party behaviour is an argument: the iteration order of the hash map, and
  for each flush attempt the ULID drawn and the object store's answer to the PUT.
\<close>

section \<open>Definitions\<close>

record buffered_record =
  br_receive_time :: u64
  br_frame :: "u8 list"
  br_memory :: usize

record cohort_state =
  co_records :: "buffered_record list"
  co_bytes :: usize
  co_received :: u64

definition cohort_state_default :: cohort_state where
  "cohort_state_default = \<lparr>co_records = [], co_bytes = 0, co_received = 0\<rparr>"

record flush_batch =
  fb_window_start :: u64
  fb_header :: segment_header
  fb_records :: "buffered_record list"
  fb_record_bytes :: usize

datatype put_outcome = Put_ok | Put_error string | Put_elapsed

datatype flush_result =
    Flushed string "u8 list"           \<comment> \<open>key and segment the store acknowledged\<close>
  | Serialize_failed segment_error
  | Key_failed window_error
  | Put_failed string "u8 list" string
  | Put_timed_out string "u8 list"

record collector = collector_shared +
  w_states :: "(cohort_name \<times> cohort_state) list"
  w_current_window_start :: u64
  w_log :: "(flush_batch \<times> flush_result) list"

record writer_env =
  we_order :: "cohort_name list \<Rightarrow> cohort_name list"
  we_put :: "nat \<Rightarrow> string \<times> put_outcome"

definition writer_new ::
  "writer_config \<Rightarrow> clock \<Rightarrow> usize \<Rightarrow> string + collector" where
  "writer_new cfg now capacity =
     res_bind (unix_seconds_now now) (\<lambda>now_seconds.
     res_bind (map_err (\<lambda>_. ''window duration must be greater than zero'')
                 (aligned_window_start now_seconds (wc_window_seconds cfg))) (\<lambda>start.
     Inr \<lparr>cs_counters = counters_default, cs_used = 0, cs_queue = [], cs_capacity = capacity,
          cs_receiver_closed = False, w_states = [], w_current_window_start = start,
          w_log = []\<rparr>))"

definition states_get :: "collector \<Rightarrow> cohort_name \<Rightarrow> cohort_state option" where
  "states_get w cohort = map_of (w_states w) cohort"

text \<open>\<open>states.entry(cohort).or_default()\<close> followed by an update in place.\<close>

definition states_entry :: "cohort_name \<Rightarrow> (cohort_state \<Rightarrow> cohort_state) \<Rightarrow> collector \<Rightarrow> collector" where
  "states_entry cohort f w =
     w\<lparr>w_states := AList.update cohort
        (f (case states_get w cohort of None \<Rightarrow> cohort_state_default | Some st \<Rightarrow> st)) (w_states w)\<rparr>"

definition usize_saturating_add :: "usize \<Rightarrow> usize \<Rightarrow> usize" where
  "usize_saturating_add a b = min (a + b) (usize_bound - 1)"

definition fold_pending_drops :: "cohort_name \<Rightarrow> collector \<Rightarrow> collector" where
  "fold_pending_drops cohort w =
     (case take_pending_cohort_drops cohort (cs_counters w) of (drops, c) \<Rightarrow>
      let w = w\<lparr>cs_counters := c\<rparr>
      in if drops = 0 then w
         else states_entry cohort
                (\<lambda>st. st\<lparr>co_received := saturating_add (co_received st) drops\<rparr>) w)"

definition fold_all_pending_drops :: "collector \<Rightarrow> collector" where
  "fold_all_pending_drops w =
     (case take_all_pending_cohort_drops (cs_counters w) of (all_drops, c) \<Rightarrow>
      fold (\<lambda>(cohort, drops). states_entry cohort
              (\<lambda>st. st\<lparr>co_received := saturating_add (co_received st) drops\<rparr>))
        all_drops (w\<lparr>cs_counters := c\<rparr>))"

definition cohort_would_exceed_cap :: "writer_config \<Rightarrow> collector \<Rightarrow> cohort_name \<Rightarrow> usize \<Rightarrow> bool" where
  "cohort_would_exceed_cap cfg w cohort record_bytes =
     (case Option.bind (states_get w cohort) (\<lambda>st. usize_add (co_bytes st) record_bytes) of
        None \<Rightarrow> False
      | Some bytes \<Rightarrow> wc_per_cohort_memory_bytes cfg < bytes)"

definition global_live_budget_is_full :: "writer_config \<Rightarrow> collector \<Rightarrow> bool" where
  "global_live_budget_is_full cfg w \<longleftrightarrow> wc_live_memory_bytes cfg \<le> cs_used w"

definition add_record :: "frame_event \<Rightarrow> usize \<Rightarrow> collector \<Rightarrow> collector" where
  "add_record event record_bytes w =
     counted (\<lambda>c. c\<lparr>kept_frames := kept_frames c + 1\<rparr>)
       (states_entry (fe_cohort event)
          (\<lambda>st. \<lparr>co_records = co_records st @ [\<lparr>br_receive_time = fe_receive_time event,
                      br_frame = fe_frame event, br_memory = fe_memory event\<rparr>],
                 co_bytes = usize_saturating_add (co_bytes st) record_bytes,
                 co_received = saturating_add (co_received st) 1\<rparr>) w)"

definition take_flush_batch ::
  "writer_config \<Rightarrow> cohort_name \<Rightarrow> u64 \<Rightarrow> collector \<Rightarrow> flush_batch option \<times> collector" where
  "take_flush_batch cfg cohort window_start w =
     (case states_get w cohort of
        None \<Rightarrow> (None, w)
      | Some st \<Rightarrow>
          let w = w\<lparr>w_states := AList.delete cohort (w_states w)\<rparr>; records = co_records st in
          if records = [] \<and> co_received st = 0 then (None, w)
          else
          (Some \<lparr>fb_window_start = window_start,
            fb_header =
             \<lparr>sh_window_start = window_start, sh_window_seconds = wc_window_seconds cfg,
              sh_first_receive = (if records = [] then 0 else br_receive_time (hd records)),
              sh_last_receive = (if records = [] then 0 else br_receive_time (last records)),
              sh_received_frame_count = co_received st,
              sh_record_count = (if length records < 2 ^ 64 then word_of_nat (length records) else - 1),
              sh_cohort = cohort\<rparr>,
            fb_records = records, fb_record_bytes = co_bytes st\<rparr>, w))"

definition drop_records :: "buffered_record list \<Rightarrow> collector \<Rightarrow> collector" where
  "drop_records records w = w\<lparr>cs_used := foldl release (cs_used w) (map br_memory records)\<rparr>"

definition segment_record_of :: "buffered_record \<Rightarrow> segment_record" where
  "segment_record_of r = \<lparr>sr_receive_time = br_receive_time r, sr_frame = br_frame r\<rparr>"

definition flush_failed :: "flush_batch \<Rightarrow> flush_result \<Rightarrow> collector \<Rightarrow> collector" where
  "flush_failed batch res w =
     counted (\<lambda>c. c\<lparr>flush_failures := flush_failures c + 1\<rparr>) (w\<lparr>w_log := w_log w @ [(batch, res)]\<rparr>)"

text \<open>
  The records' guards are released once the segment is serialized, or with the batch when it cannot
  be; the PUT is answered in time, refused, or given up on.
\<close>

definition put_flush :: "writer_env \<Rightarrow> flush_batch \<Rightarrow> collector \<Rightarrow> collector" where
  "put_flush env batch w =
     (case write_segment (fb_header batch) (map segment_record_of (fb_records batch)) of
        Inl e \<Rightarrow> drop_records (fb_records batch) (flush_failed batch (Serialize_failed e) w)
      | Inr seg \<Rightarrow>
     (let w = drop_records (fb_records batch) w;
          (ulid, outcome) = we_put env (length (w_log w))
      in case object_key (sh_cohort (fb_header batch)) (fb_window_start batch) ulid of
           Inl e \<Rightarrow> flush_failed batch (Key_failed e) w
         | Inr key \<Rightarrow>
             (case outcome of
                Put_ok \<Rightarrow>
                  counted (\<lambda>c. c\<lparr>flushed_parts := flushed_parts c + 1\<rparr>)
                    (w\<lparr>w_log := w_log w @ [(batch, Flushed key seg)]\<rparr>)
              | Put_error e \<Rightarrow> flush_failed batch (Put_failed key seg e) w
              | Put_elapsed \<Rightarrow> flush_failed batch (Put_timed_out key seg) w)))"

definition flush_cohort ::
  "writer_config \<Rightarrow> writer_env \<Rightarrow> cohort_name \<Rightarrow> u64 \<Rightarrow> collector \<Rightarrow> bool \<times> collector" where
  "flush_cohort cfg env cohort window_start w =
     (let w = fold_pending_drops cohort w in
      case states_get w cohort of
        None \<Rightarrow> (False, w)
      | Some st \<Rightarrow>
          if co_records st = [] \<and> co_received st = 0 then (False, w)
          else (case take_flush_batch cfg cohort window_start w of
                  (None, w) \<Rightarrow> (False, w)
                | (Some batch, w) \<Rightarrow> (True, put_flush env batch w)))"

definition flush_all :: "writer_config \<Rightarrow> writer_env \<Rightarrow> u64 \<Rightarrow> collector \<Rightarrow> collector" where
  "flush_all cfg env window_start w =
     fold (\<lambda>cohort w. snd (flush_cohort cfg env cohort window_start w))
       (we_order env (map fst (w_states w))) w"

text \<open>\<open>Iterator::max_by_key\<close> returns the last of equal maxima.\<close>

definition max_by_key :: "('a \<Rightarrow> nat) \<Rightarrow> 'a list \<Rightarrow> 'a option" where
  "max_by_key key xs =
     fold (\<lambda>x best. case best of None \<Rightarrow> Some x
                    | Some b \<Rightarrow> if key b \<le> key x then Some x else Some b) xs None"

definition flush_largest_cohort :: "writer_config \<Rightarrow> writer_env \<Rightarrow> collector \<Rightarrow> collector" where
  "flush_largest_cohort cfg env w =
     (let bytes = (\<lambda>cohort. alist_at co_bytes (w_states w) cohort);
          candidates = filter (\<lambda>cohort. case states_get w cohort of None \<Rightarrow> False
                                | Some st \<Rightarrow> co_records st \<noteq> [])
                         (we_order env (map fst (w_states w)))
      in case max_by_key bytes candidates of
           None \<Rightarrow> w
         | Some cohort \<Rightarrow> snd (flush_cohort cfg env cohort (w_current_window_start w) w))"

definition advance_to_receive_window ::
  "writer_config \<Rightarrow> writer_env \<Rightarrow> u64 \<Rightarrow> collector \<Rightarrow> collector" where
  "advance_to_receive_window cfg env receive_time w =
     (case aligned_window_start (receive_time div 1000000) (wc_window_seconds cfg) of
        Inl e \<Rightarrow> w
      | Inr receive_window_start \<Rightarrow>
          if receive_window_start \<le> w_current_window_start w then w
          else (flush_all cfg env (w_current_window_start w) (fold_all_pending_drops w))
                 \<lparr>w_current_window_start := receive_window_start\<rparr>)"

definition handle_frame :: "writer_config \<Rightarrow> writer_env \<Rightarrow> frame_event \<Rightarrow> collector \<Rightarrow> collector" where
  "handle_frame cfg env event w =
     (let w = advance_to_receive_window cfg env (fe_receive_time event) w;
          w = fold_pending_drops (fe_cohort event) w;
          record_bytes = fe_memory event;
          w = (if cohort_would_exceed_cap cfg w (fe_cohort event) record_bytes
               then snd (flush_cohort cfg env (fe_cohort event) (w_current_window_start w) w) else w);
          w = (if global_live_budget_is_full cfg w then flush_largest_cohort cfg env w else w)
      in add_record event record_bytes w)"

definition close_window :: "writer_config \<Rightarrow> writer_env \<Rightarrow> clock \<Rightarrow> collector \<Rightarrow> collector" where
  "close_window cfg env now w =
     (let closing_window = w_current_window_start w;
          w = flush_all cfg env closing_window (fold_all_pending_drops w)
      in case res_bind (unix_seconds_now now) (\<lambda>now_seconds.
                map_err (\<lambda>_. ''window duration must be greater than zero'')
                  (aligned_window_start now_seconds (wc_window_seconds cfg))) of
           Inr window_start \<Rightarrow> w\<lparr>w_current_window_start := window_start\<rparr>
         | Inl e \<Rightarrow> w\<lparr>w_current_window_start :=
                       saturating_add closing_window (ucast (wc_window_seconds cfg))\<rparr>)"

text \<open>After the last sender is gone and the channel is drained.\<close>

definition finish_run :: "writer_config \<Rightarrow> writer_env \<Rightarrow> collector \<Rightarrow> collector" where
  "finish_run cfg env w =
     (let w = fold_all_pending_drops w
      in flush_all cfg env (w_current_window_start w) w)"

section \<open>Specification\<close>

text \<open>What the reader promises of an event it queues.\<close>

definition frame_of_cohort :: "cohort_name \<Rightarrow> u8 list \<Rightarrow> bool" where
  "frame_of_cohort cohort frame \<longleftrightarrow>
     cohort_ok cohort \<and> (\<exists>h. parse_frame_header frame = Inr h \<and> fh_name h = as_str cohort)"

definition event_ok :: "writer_config \<Rightarrow> frame_event \<Rightarrow> bool" where
  "event_ok cfg e \<longleftrightarrow>
     frame_of_cohort (fe_cohort e) (fe_frame e) \<and> fe_memory e = length (fe_frame e) + 8
     \<and> fe_memory e \<le> wc_per_cohort_memory_bytes cfg"

text \<open>A time that is not after the window starting at \<open>start\<close>.\<close>

definition not_after_window :: "writer_config \<Rightarrow> u64 \<Rightarrow> u64 \<Rightarrow> bool" where
  "not_after_window cfg start receive_time \<longleftrightarrow>
     unat receive_time div 1000000 < unat start + unat (wc_window_seconds cfg)"

definition record_ok :: "writer_config \<Rightarrow> u64 \<Rightarrow> cohort_name \<Rightarrow> buffered_record \<Rightarrow> bool" where
  "record_ok cfg start cohort r \<longleftrightarrow>
     frame_of_cohort cohort (br_frame r) \<and> br_memory r = length (br_frame r) + 8
     \<and> not_after_window cfg start (br_receive_time r)"

definition buffer_ok :: "writer_config \<Rightarrow> u64 \<Rightarrow> cohort_name \<Rightarrow> cohort_state \<Rightarrow> bool" where
  "buffer_ok cfg start cohort st \<longleftrightarrow>
     cohort_ok cohort \<and> (\<forall>r \<in> set (co_records st). record_ok cfg start cohort r)
     \<and> co_bytes st = sum_list (map br_memory (co_records st))
     \<and> co_bytes st \<le> wc_per_cohort_memory_bytes cfg
     \<and> length (co_records st) \<le> unat (co_received st) \<and> co_received st \<noteq> 0"

text \<open>A logged flush holds a consistent, readable segment of its window.\<close>

definition flush_segment :: "flush_result \<Rightarrow> (string \<times> u8 list) option" where
  "flush_segment r =
     (case r of Flushed k b \<Rightarrow> Some (k, b) | Put_failed k b e \<Rightarrow> Some (k, b)
      | Put_timed_out k b \<Rightarrow> Some (k, b) | _ \<Rightarrow> None)"

definition flush_ok :: "writer_config \<Rightarrow> flush_batch \<times> flush_result \<Rightarrow> bool" where
  "flush_ok cfg = (\<lambda>(b, res).
     fb_window_start b = sh_window_start (fb_header b)
     \<and> unat (sh_record_count (fb_header b)) = length (fb_records b)
     \<and> unat (sh_record_count (fb_header b)) \<le> unat (sh_received_frame_count (fb_header b))
     \<and> (\<forall>r \<in> set (fb_records b).
          record_ok cfg (sh_window_start (fb_header b)) (sh_cohort (fb_header b)) r)
     \<and> (\<exists>key bytes ulid. flush_segment res = Some (key, bytes)
          \<and> object_key (sh_cohort (fb_header b)) (fb_window_start b) ulid = Inr key
          \<and> read_segment bytes = Inr \<lparr>seg_header = fb_header b,
                seg_records = map segment_record_of (fb_records b)\<rparr>))"

definition writer_config_ok :: "writer_config \<Rightarrow> bool" where
  "writer_config_ok cfg \<longleftrightarrow>
     wc_window_seconds cfg \<noteq> 0 \<and> wc_per_cohort_memory_bytes cfg + 309 < usize_bound
     \<and> wc_live_memory_bytes cfg < usize_bound"

definition queue_bytes :: "'a collector_shared_scheme \<Rightarrow> nat" where
  "queue_bytes s = sum_list (map fe_memory (cs_queue s))"

text \<open>The writer's invariant while it holds an event of \<open>held\<close> bytes outside its buffers.\<close>

definition ledger_wf :: "counters \<Rightarrow> bool" where
  "ledger_wf c \<longleftrightarrow> ledger_ok c \<and> (\<forall>(k, n) \<in> set (pending_cohort_drops c). cohort_ok k \<and> n \<noteq> 0)"

definition writer_inv :: "writer_config \<Rightarrow> nat \<Rightarrow> collector \<Rightarrow> bool" where
  "writer_inv cfg held w \<longleftrightarrow>
     distinct (map fst (w_states w))
     \<and> (\<forall>(k, st) \<in> set (w_states w). buffer_ok cfg (w_current_window_start w) k st)
     \<and> (\<forall>e \<in> set (cs_queue w). event_ok cfg e)
     \<and> (\<forall>f \<in> set (w_log w). flush_ok cfg f)
     \<and> ledger_wf (cs_counters w)
     \<and> cs_used w = held + queue_bytes w + alist_sum co_bytes (w_states w)
     \<and> cs_used w \<le> wc_live_memory_bytes cfg"

text \<open>Frames of a cohort the collector has accounted for: flushed, buffered, pending as drops.\<close>

definition log_received :: "(flush_batch \<times> flush_result) list \<Rightarrow> cohort_name \<Rightarrow> nat" where
  "log_received entries cohort =
     (\<Sum>(b, r) \<leftarrow> entries. if sh_cohort (fb_header b) = cohort
                      then unat (sh_received_frame_count (fb_header b)) else 0)"

definition accounted :: "collector \<Rightarrow> cohort_name \<Rightarrow> nat" where
  "accounted w cohort =
     log_received (w_log w) cohort
     + alist_at (\<lambda>st. unat (co_received st)) (w_states w) cohort
     + unat (ledger_get (pending_cohort_drops (cs_counters w)) cohort)"

definition queued :: "'a collector_shared_scheme \<Rightarrow> cohort_name \<Rightarrow> nat" where
  "queued s cohort = length (filter (\<lambda>e. fe_cohort e = cohort) (cs_queue s))"

end
