(* ===== verification/WriterInv.thy ===== *)
theory WriterInv
  imports Writer
begin

text \<open>
  Facts about the collector's writer: each operation keeps the invariant of the buffers, the queue,
  the ledger and the memory counter, every flush is a readable segment of its window, and no
  operation changes the number of frames accounted for.
\<close>

section \<open>Serialization of a flush\<close>

lemma write_segment_total:
  assumes co: "cohort_ok (sh_cohort h)"
    and fr: "\<forall>r \<in> set rs. is_ok (parse_frame_header (sr_frame r))"
    and sz: "309 + (\<Sum>r \<leftarrow> rs. 8 + length (sr_frame r)) < usize_bound"
  shows "\<exists>bytes. write_segment h rs = Inr bytes \<and> length bytes < usize_bound"
proof -
  let ?n = "length (as_str (sh_cohort h))"
  have n: "?n \<le> 255" using co by (rule cohort_ok_length)
  have cl: "unat (word_of_nat ?n :: u16) = ?n"
    using n by (simp add: unat_of_nat take_bit_nat_eq_self)
  have w: "unat (word_of_nat m :: u32) = m" if "m < 2 ^ 32" for m
    using that by (simp add: unat_of_nat take_bit_nat_eq_self)
  have hl: "unat (word_of_nat (46 + ?n) :: u32) = 46 + ?n" by (rule w) (use n in simp)
  let ?step = "\<lambda>sum record.
          res_bind (map_err Segment_InvalidFrame (parse_frame_header (sr_frame record))) (\<lambda>_.
            ok_or (Option.bind (usize_add sum 8)
                     (\<lambda>value. usize_add value (length (sr_frame record)))) Segment_LengthOverflow)"
  have fold: "try_fold ?step a xs = Inr (a + (\<Sum>r \<leftarrow> xs. 8 + length (sr_frame r)))"
    if "\<forall>r \<in> set xs. is_ok (parse_frame_header (sr_frame r))"
      and "a + (\<Sum>r \<leftarrow> xs. 8 + length (sr_frame r)) < usize_bound" for a xs
    using that
  proof (induction xs arbitrary: a)
    case (Cons x xs)
    then obtain h where "parse_frame_header (sr_frame x) = Inr h" by (auto simp: is_ok_iff)
    moreover have "usize_add a 8 = Some (a + 8)"
      "usize_add (a + 8) (length (sr_frame x)) = Some (a + 8 + length (sr_frame x))"
      using Cons.prems(2) by (simp_all add: usize_add_def)
    ultimately show ?case
      using Cons.prems Cons.IH [of "a + 8 + length (sr_frame x)"] by (simp add: add.assoc)
  qed simp
  let ?s = "\<Sum>r \<leftarrow> rs. 8 + length (sr_frame r)"
  have f: "try_fold ?step 0 rs = Inr ?s"
    using fold [of rs 0] fr sz by simp
  have a: "usize_add 8 (46 + ?n) = Some (8 + (46 + ?n))"
    "usize_add (8 + (46 + ?n)) ?s = Some (8 + (46 + ?n) + ?s)"
    using n sz by (simp_all add: usize_add_def)
  have lt: "?n < 65536" "46 + ?n < 2 ^ 32" using n by simp_all
  have "write_segment h rs = Inr (segment_header_bytes (word_of_nat (46 + ?n)) (word_of_nat ?n) h
      @ concat (map segment_record_bytes rs))"
    using lt f a hl cl by (simp add: write_segment_def segment_consts Let_def)
  moreover have "length (concat (map segment_record_bytes rs)) = ?s"
    by (simp add: length_concat comp_def)
  ultimately show ?thesis using n sz by simp
qed

lemma object_key_total: "\<exists>key. object_key c t part = Inr key"
  using format_window_timestamp_total [of t] by (auto simp: object_key_def)

lemma release_records:
  assumes "sum_list (map br_memory rs) \<le> used"
  shows "foldl release used (map br_memory rs) = used - sum_list (map br_memory rs)"
  using mem.release_all [OF assms] by simp

section \<open>One flush\<close>

lemma drop_records_sel [simp]:
  "w_states (drop_records rs w) = w_states w" "w_log (drop_records rs w) = w_log w"
  "cs_counters (drop_records rs w) = cs_counters w" "cs_queue (drop_records rs w) = cs_queue w"
  "w_current_window_start (drop_records rs w) = w_current_window_start w"
  "cs_capacity (drop_records rs w) = cs_capacity w"
  "cs_receiver_closed (drop_records rs w) = cs_receiver_closed w"
  "cs_used (drop_records rs w) = foldl release (cs_used w) (map br_memory rs)"
  by (simp_all add: drop_records_def)

lemma counted_sel [simp]:
  "cs_counters (counted f s) = f (cs_counters s)" "cs_used (counted f s) = cs_used s"
  "cs_queue (counted f s) = cs_queue s" "cs_capacity (counted f s) = cs_capacity s"
  "cs_receiver_closed (counted f s) = cs_receiver_closed s"
  by (simp_all add: counted_def)

lemma counted_writer_sel [simp]:
  "w_states (counted f w) = w_states w" "w_log (counted f w) = w_log w"
  "w_current_window_start (counted f w) = w_current_window_start w"
  by (simp_all add: counted_def)

text \<open>A batch as \<open>take_flush_batch\<close> makes it.\<close>

definition batch_ok :: "writer_config \<Rightarrow> flush_batch \<Rightarrow> bool" where
  "batch_ok cfg b \<longleftrightarrow>
     fb_window_start b = sh_window_start (fb_header b)
     \<and> cohort_ok (sh_cohort (fb_header b))
     \<and> unat (sh_record_count (fb_header b)) = length (fb_records b)
     \<and> length (fb_records b) \<le> unat (sh_received_frame_count (fb_header b))
     \<and> (\<forall>r \<in> set (fb_records b).
          record_ok cfg (sh_window_start (fb_header b)) (sh_cohort (fb_header b)) r)
     \<and> sum_list (map br_memory (fb_records b)) \<le> wc_per_cohort_memory_bytes cfg"

lemma sum_record_sizes:
  assumes "\<forall>r \<in> set rs. record_ok cfg start cohort r"
  shows "(\<Sum>r \<leftarrow> map segment_record_of rs. 8 + length (sr_frame r)) = sum_list (map br_memory rs)"
  using assms by (induction rs) (simp_all add: segment_record_of_def record_ok_def)

lemma batch_serializes:
  assumes ok: "batch_ok cfg b" and cfg: "writer_config_ok cfg"
  shows "\<exists>bytes. write_segment (fb_header b) (map segment_record_of (fb_records b)) = Inr bytes
     \<and> read_segment bytes = Inr \<lparr>seg_header = fb_header b,
                seg_records = map segment_record_of (fb_records b)\<rparr>"
proof -
  let ?rs = "map segment_record_of (fb_records b)"
  have fr: "\<forall>r \<in> set ?rs. is_ok (parse_frame_header (sr_frame r))"
    using ok by (auto simp: batch_ok_def record_ok_def frame_of_cohort_def segment_record_of_def
        is_ok_iff)
  have "(\<Sum>r \<leftarrow> ?rs. 8 + length (sr_frame r)) = sum_list (map br_memory (fb_records b))"
    using ok unfolding batch_ok_def by (intro sum_record_sizes) blast
  then have "309 + (\<Sum>r \<leftarrow> ?rs. 8 + length (sr_frame r)) < usize_bound"
    using ok cfg by (simp add: batch_ok_def writer_config_ok_def)
  then obtain bytes where b: "write_segment (fb_header b) ?rs = Inr bytes"
      "length bytes < usize_bound"
    using write_segment_total [OF _ fr] ok by (auto simp: batch_ok_def)
  then have "read_segment bytes = Inr \<lparr>seg_header = fb_header b, seg_records = ?rs\<rparr>"
    using ok read_segment_layout [OF write_segment_Inr]
    by (simp add: batch_ok_def)
  then show ?thesis using b by blast
qed

text \<open>What one flush does to the state: the records' bytes come back and one entry is logged.\<close>

lemma put_flush_effect:
  assumes ok: "batch_ok cfg b" and cfg: "writer_config_ok cfg"
    and mem: "sum_list (map br_memory (fb_records b)) \<le> cs_used w"
  shows "\<exists>res. flush_ok cfg (b, res) \<and> w_log (put_flush env b w) = w_log w @ [(b, res)]
     \<and> cs_used (put_flush env b w) = cs_used w - sum_list (map br_memory (fb_records b))
     \<and> w_states (put_flush env b w) = w_states w
     \<and> cs_queue (put_flush env b w) = cs_queue w
     \<and> w_current_window_start (put_flush env b w) = w_current_window_start w
     \<and> pending_cohort_drops (cs_counters (put_flush env b w)) = pending_cohort_drops (cs_counters w)"
proof -
  obtain bytes where b: "write_segment (fb_header b) (map segment_record_of (fb_records b)) = Inr bytes"
    and rd: "read_segment bytes = Inr \<lparr>seg_header = fb_header b,
                seg_records = map segment_record_of (fb_records b)\<rparr>"
    using batch_serializes [OF ok cfg] by blast
  obtain ulid outcome where p: "we_put env (length (w_log w)) = (ulid, outcome)"
    by (cases "we_put env (length (w_log w))")
  obtain key where k: "object_key (sh_cohort (fb_header b)) (fb_window_start b) ulid = Inr key"
    using object_key_total by blast
  have fo: "flush_ok cfg (b, res)" if "flush_segment res = Some (key, bytes)" for res
    using that ok k rd unfolding flush_ok_def batch_ok_def by auto
  note rel = release_records [OF mem]
  show ?thesis
  proof (cases outcome)
    case Put_ok
    then show ?thesis using fo [of "Flushed key bytes"]
      by (intro exI [of _ "Flushed key bytes"])
        (simp add: put_flush_def b k p rel flush_segment_def)
  next
    case (Put_error e)
    then show ?thesis using fo [of "Put_failed key bytes e"]
      by (intro exI [of _ "Put_failed key bytes e"])
        (simp add: put_flush_def b k p rel flush_segment_def flush_failed_def)
  next
    case Put_elapsed
    then show ?thesis using fo [of "Put_timed_out key bytes"]
      by (intro exI [of _ "Put_timed_out key bytes"])
        (simp add: put_flush_def b k p rel flush_segment_def flush_failed_def)
  qed
qed

section \<open>Buffers\<close>

abbreviation entry_of :: "collector \<Rightarrow> cohort_name \<Rightarrow> cohort_state" where
  "entry_of w cohort \<equiv>
     (case states_get w cohort of None \<Rightarrow> cohort_state_default | Some st \<Rightarrow> st)"

lemma states_entry_sel [simp]:
  "w_log (states_entry c f w) = w_log w" "cs_counters (states_entry c f w) = cs_counters w"
  "cs_queue (states_entry c f w) = cs_queue w" "cs_used (states_entry c f w) = cs_used w"
  "w_current_window_start (states_entry c f w) = w_current_window_start w"
  "w_states (states_entry c f w) = AList.update c (f (entry_of w c)) (w_states w)"
  by (simp_all add: states_entry_def)

lemma states_get_counters [simp]:
  "states_get (w\<lparr>cs_counters := x\<rparr>) c = states_get w c"
  "states_get (counted f w) c = states_get w c"
  by (simp_all add: states_get_def)

lemma entry_bytes: "co_bytes (entry_of w c) = alist_at co_bytes (w_states w) c"
  by (simp add: states_get_def alist_at_def cohort_state_default_def split: option.split)

lemma entry_received: "unat (co_received (entry_of w c)) =
    alist_at (\<lambda>st. unat (co_received st)) (w_states w) c"
  by (simp add: states_get_def alist_at_def cohort_state_default_def split: option.split)

lemma writer_inv_lookup:
  assumes "writer_inv cfg held w" and "states_get w c = Some st"
  shows "buffer_ok cfg (w_current_window_start w) c st"
  using assms by (auto simp: writer_inv_def states_get_def dest: map_of_SomeD)

lemma states_entry_inv:
  assumes inv: "writer_inv cfg (held + k) w"
    and new: "buffer_ok cfg (w_current_window_start w) c (f (entry_of w c))"
    and k: "co_bytes (f (entry_of w c)) = co_bytes (entry_of w c) + k"
  shows "writer_inv cfg held (states_entry c f w)"
proof -
  let ?s = "w_states w"
  have d: "distinct (map fst ?s)" using inv by (simp add: writer_inv_def)
  have "alist_sum co_bytes (AList.update c (f (entry_of w c)) ?s) = alist_sum co_bytes ?s + k"
    using alist_sum_delete [OF d, of co_bytes c] k
    by (simp add: alist_sum_update [OF d] entry_bytes)
  then show ?thesis
    using inv new d
    by (auto simp: writer_inv_def set_alist_update set_alist_delete distinct_alist_update
        queue_bytes_def)
qed

lemma buffer_ok_receive_drops:
  assumes "st = cohort_state_default \<or> buffer_ok cfg start c st" and "cohort_ok c" and "d \<noteq> 0"
  shows "buffer_ok cfg start c (st\<lparr>co_received := saturating_add (co_received st) d\<rparr>)"
proof -
  have "unat d \<noteq> 0" using assms(3) by (simp add: unat_eq_0)
  moreover have "unat (co_received st) \<le> 2 ^ 64 - 1" using u64_bound [of "co_received st"]
    by (simp add: usize_bound_def)
  ultimately have s: "unat (co_received st) \<le> unat (saturating_add (co_received st) d)"
    "unat (saturating_add (co_received st) d) \<noteq> 0"
    by (auto simp: unat_saturating_add min_def)
  then have "saturating_add (co_received st) d \<noteq> 0" by auto
  then show ?thesis using assms(1,2) s
    by (auto simp: buffer_ok_def cohort_state_default_def)
qed

lemma entry_drops_inv:
  assumes inv: "writer_inv cfg held w" and "cohort_ok c" and "d \<noteq> 0"
  shows "writer_inv cfg held (states_entry c
     (\<lambda>st. st\<lparr>co_received := saturating_add (co_received st) d\<rparr>) w)"
proof (rule states_entry_inv [where k = 0])
  show "buffer_ok cfg (w_current_window_start w) c
      ((entry_of w c)\<lparr>co_received := saturating_add (co_received (entry_of w c)) d\<rparr>)"
    using assms writer_inv_lookup [OF inv, of c]
    by (intro buffer_ok_receive_drops) (auto split: option.split)
qed (use inv in simp_all)

lemma writer_inv_ledger:
  "writer_inv cfg held w \<Longrightarrow> ledger_wf c \<Longrightarrow> writer_inv cfg held (w\<lparr>cs_counters := c\<rparr>)"
  by (simp add: writer_inv_def queue_bytes_def)

lemma ledger_wf_delete:
  "ledger_wf c \<Longrightarrow> ledger_wf (c\<lparr>pending_cohort_drops := AList.delete k (pending_cohort_drops c)\<rparr>)"
  by (auto simp: ledger_wf_def ledger_ok_def set_alist_delete distinct_alist_delete)

lemma ledger_wf_get:
  "ledger_wf c \<Longrightarrow> ledger_get (pending_cohort_drops c) k \<noteq> 0 \<Longrightarrow> cohort_ok k"
  by (auto simp: ledger_wf_def ledger_get_def split: option.splits dest: map_of_SomeD)

lemma fold_pending_drops_sel [simp]:
  "w_log (fold_pending_drops c w) = w_log w" "cs_queue (fold_pending_drops c w) = cs_queue w"
  "cs_used (fold_pending_drops c w) = cs_used w"
  "w_current_window_start (fold_pending_drops c w) = w_current_window_start w"
  by (simp_all add: fold_pending_drops_def take_pending_cohort_drops_def Let_def)

lemma fold_pending_drops_inv:
  assumes inv: "writer_inv cfg held w"
  shows "writer_inv cfg held (fold_pending_drops c w)"
proof -
  let ?l = "pending_cohort_drops (cs_counters w)"
  let ?w = "w\<lparr>cs_counters := (cs_counters w)\<lparr>pending_cohort_drops := AList.delete c ?l\<rparr>\<rparr>"
  have wf: "ledger_wf (cs_counters w)" using inv by (simp add: writer_inv_def)
  have "writer_inv cfg held ?w" using inv ledger_wf_delete [OF wf] by (intro writer_inv_ledger)
  then show ?thesis
    using entry_drops_inv [of cfg held ?w c "ledger_get ?l c"] ledger_wf_get [OF wf, of c]
    by (simp add: fold_pending_drops_def take_pending_cohort_drops_def Let_def)
qed

lemma saturating_add_exact:
  fixes a b :: "'a::len word"
  shows "unat a + unat b < 2 ^ LENGTH('a) \<Longrightarrow> unat (saturating_add a b) = unat a + unat b"
  by (simp add: unat_saturating_add)

lemma fold_pending_drops_accounted:
  assumes "accounted w c < 2 ^ 64"
  shows "accounted (fold_pending_drops c w) d = accounted w d"
proof (cases "d = c")
  case False
  then show ?thesis
    by (simp add: fold_pending_drops_def take_pending_cohort_drops_def Let_def accounted_def
        alist_simps ledger_get_delete)
next
  case True
  let ?l = "ledger_get (pending_cohort_drops (cs_counters w)) c"
  have "unat (co_received (entry_of w c)) + unat ?l < 2 ^ 64"
    using assms by (simp add: accounted_def entry_received)
  then have "unat (saturating_add (co_received (entry_of w c)) ?l) =
      unat (co_received (entry_of w c)) + unat ?l"
    by (simp add: saturating_add_exact)
  then show ?thesis
    using True
    by (simp add: fold_pending_drops_def take_pending_cohort_drops_def Let_def accounted_def
        alist_simps ledger_get_delete entry_received)
qed

section \<open>Flushing a cohort\<close>

lemma take_flush_batch_Some:
  assumes inv: "writer_inv cfg held w" and st: "states_get w c = Some st"
  shows "\<exists>b. take_flush_batch cfg c (w_current_window_start w) w =
             (Some b, w\<lparr>w_states := AList.delete c (w_states w)\<rparr>)
     \<and> batch_ok cfg b \<and> sh_cohort (fb_header b) = c
     \<and> sh_window_start (fb_header b) = w_current_window_start w
     \<and> sh_received_frame_count (fb_header b) = co_received st
     \<and> fb_records b = co_records st"
proof -
  have buf: "buffer_ok cfg (w_current_window_start w) c st"
    using writer_inv_lookup [OF inv st] .
  then have len: "length (co_records st) < 2 ^ 64"
    using u64_bound [of "co_received st"] by (simp add: buffer_ok_def usize_bound_def)
  have "unat (word_of_nat (length (co_records st)) :: u64) = length (co_records st)"
    using len by (simp add: unat_of_nat take_bit_nat_eq_self)
  then show ?thesis
    using buf len st by (auto simp: take_flush_batch_def batch_ok_def buffer_ok_def Let_def)
qed

lemma flush_cohort_None:
  "states_get (fold_pending_drops c w) c = None \<Longrightarrow>
     flush_cohort cfg env c start w = (False, fold_pending_drops c w)"
  by (simp add: flush_cohort_def)

text \<open>Everything a flush of a buffered cohort does, after its pending drops were folded in.\<close>

lemma flush_cohort_Some:
  assumes inv: "writer_inv cfg held w" and cfg: "writer_config_ok cfg"
    and st: "states_get (fold_pending_drops c w) c = Some st"
    and w': "flush_cohort cfg env c (w_current_window_start w) w = (ok, w')"
  shows "ok \<and> (\<exists>b res. flush_ok cfg (b, res) \<and> w_log w' = w_log w @ [(b, res)]
     \<and> sh_cohort (fb_header b) = c \<and> sh_received_frame_count (fb_header b) = co_received st
     \<and> cs_used w' = cs_used w - co_bytes st \<and> co_bytes st \<le> cs_used w
     \<and> w_states w' = AList.delete c (w_states (fold_pending_drops c w))
     \<and> cs_queue w' = cs_queue w \<and> w_current_window_start w' = w_current_window_start w
     \<and> pending_cohort_drops (cs_counters w')
         = pending_cohort_drops (cs_counters (fold_pending_drops c w)))"
proof -
  let ?f = "fold_pending_drops c w"
  have inv': "writer_inv cfg held ?f" using inv by (rule fold_pending_drops_inv)
  have cur: "w_current_window_start ?f = w_current_window_start w" by simp
  have buf: "buffer_ok cfg (w_current_window_start w) c st"
    using writer_inv_lookup [OF inv' st] by simp
  obtain b where t: "take_flush_batch cfg c (w_current_window_start w) ?f =
             (Some b, ?f\<lparr>w_states := AList.delete c (w_states ?f)\<rparr>)"
    and b: "batch_ok cfg b" "sh_cohort (fb_header b) = c"
      "sh_received_frame_count (fb_header b) = co_received st" "fb_records b = co_records st"
    using take_flush_batch_Some [OF inv' st] by auto
  have bytes: "sum_list (map br_memory (fb_records b)) = co_bytes st"
    using buf b(4) by (simp add: buffer_ok_def)
  have d: "distinct (map fst (w_states ?f))" using inv' by (simp add: writer_inv_def)
  have "alist_at co_bytes (w_states ?f) c = co_bytes st"
    using st by (simp add: alist_at_def states_get_def)
  then have le: "co_bytes st \<le> cs_used w"
    using inv' alist_at_le_sum [OF d, of co_bytes c] by (simp add: writer_inv_def)
  let ?w = "?f\<lparr>w_states := AList.delete c (w_states ?f)\<rparr>"
  have "sum_list (map br_memory (fb_records b)) \<le> cs_used ?w" using le bytes by simp
  from put_flush_effect [OF b(1) cfg this, of env]
  obtain res where res: "flush_ok cfg (b, res)" "w_log (put_flush env b ?w) = w_log w @ [(b, res)]"
    "cs_used (put_flush env b ?w) = cs_used w - co_bytes st"
    "w_states (put_flush env b ?w) = AList.delete c (w_states ?f)"
    "cs_queue (put_flush env b ?w) = cs_queue w"
    "w_current_window_start (put_flush env b ?w) = w_current_window_start w"
    "pending_cohort_drops (cs_counters (put_flush env b ?w)) = pending_cohort_drops (cs_counters ?f)"
    by (auto simp: bytes)
  have "(ok, w') = (True, put_flush env b ?w)"
    using w' st t buf by (simp add: flush_cohort_def buffer_ok_def)
  then show ?thesis using res b le by auto
qed

lemma flush_cohort_inv:
  fixes c :: cohort_name and env :: writer_env
  assumes inv: "writer_inv cfg held w" and cfg: "writer_config_ok cfg"
  defines "w' \<equiv> snd (flush_cohort cfg env c (w_current_window_start w) w)"
  shows "writer_inv cfg held w'" and "w_current_window_start w' = w_current_window_start w"
    and "fst ` set (w_states w') \<subseteq> fst ` set (w_states w) - {c}"
    and "cs_queue w' = cs_queue w"
proof -
  let ?f = "fold_pending_drops c w"
  have inv': "writer_inv cfg held ?f" using inv by (rule fold_pending_drops_inv)
  have keys: "fst ` set (w_states ?f) \<subseteq> insert c (fst ` set (w_states w))"
    using inv by (auto simp: fold_pending_drops_def take_pending_cohort_drops_def Let_def
        writer_inv_def set_alist_update set_alist_delete)
  have "writer_inv cfg held w' \<and> w_current_window_start w' = w_current_window_start w
     \<and> fst ` set (w_states w') \<subseteq> fst ` set (w_states w) - {c} \<and> cs_queue w' = cs_queue w"
  proof (cases "states_get ?f c")
    case None
    then have "c \<notin> fst ` set (w_states ?f)" by (simp add: states_get_def map_of_eq_None_iff)
    then show ?thesis
      using keys inv' None by (auto simp: w'_def flush_cohort_None)
  next
    case (Some st)
    obtain b res where e: "flush_ok cfg (b, res)" "w_log w' = w_log w @ [(b, res)]"
      "cs_used w' = cs_used w - co_bytes st" "co_bytes st \<le> cs_used w"
      "w_states w' = AList.delete c (w_states ?f)" "cs_queue w' = cs_queue w"
      "w_current_window_start w' = w_current_window_start w"
      "pending_cohort_drops (cs_counters w') = pending_cohort_drops (cs_counters ?f)"
      using flush_cohort_Some [OF inv cfg Some, of env "fst (flush_cohort cfg env c
          (w_current_window_start w) w)" w'] by (auto simp: w'_def)
    have d: "distinct (map fst (w_states ?f))" using inv' by (simp add: writer_inv_def)
    have at: "alist_at co_bytes (w_states ?f) c = co_bytes st"
      using Some by (simp add: states_get_def alist_at_def)
    have "cs_used w = held + queue_bytes w + (co_bytes st + alist_sum co_bytes (w_states w'))"
      using inv' alist_sum_delete [OF d, of co_bytes c]
      by (simp add: writer_inv_def queue_bytes_def at e(5))
    moreover have "ledger_wf (cs_counters w')"
      using inv' e(8) by (simp add: writer_inv_def ledger_wf_def ledger_ok_def)
    ultimately have "writer_inv cfg held w'"
      using inv' e d
      by (auto simp: writer_inv_def queue_bytes_def set_alist_delete distinct_alist_delete)
    then show ?thesis using e(5,6,7) keys by (auto simp: set_alist_delete)
  qed
  then show "writer_inv cfg held w'" and "w_current_window_start w' = w_current_window_start w"
    and "fst ` set (w_states w') \<subseteq> fst ` set (w_states w) - {c}" and "cs_queue w' = cs_queue w"
    by blast+
qed

lemma flush_cohort_accounted:
  assumes inv: "writer_inv cfg held w" and cfg: "writer_config_ok cfg"
    and lt: "accounted w c < 2 ^ 64"
  shows "accounted (snd (flush_cohort cfg env c (w_current_window_start w) w)) d = accounted w d"
proof -
  let ?f = "fold_pending_drops c w" and ?r = "flush_cohort cfg env c (w_current_window_start w) w"
  have f: "accounted ?f d = accounted w d" using lt by (rule fold_pending_drops_accounted)
  show ?thesis
  proof (cases "states_get ?f c")
    case None
    then show ?thesis using f by (simp add: flush_cohort_None)
  next
    case (Some st)
    obtain b res where e: "w_log (snd ?r) = w_log w @ [(b, res)]"
      "sh_cohort (fb_header b) = c" "sh_received_frame_count (fb_header b) = co_received st"
      "w_states (snd ?r) = AList.delete c (w_states ?f)"
      "pending_cohort_drops (cs_counters (snd ?r)) = pending_cohort_drops (cs_counters ?f)"
      using flush_cohort_Some [OF inv cfg Some, of env "fst ?r" "snd ?r"] by auto
    have "alist_at (\<lambda>st. unat (co_received st)) (w_states ?f) c = unat (co_received st)"
      using Some by (simp add: states_get_def alist_at_def)
    then have "accounted (snd ?r) d = accounted ?f d"
      by (auto simp: accounted_def log_received_def e alist_simps)
    then show ?thesis using f by simp
  qed
qed

lemma flush_cohort_lookup:
  assumes inv: "writer_inv cfg held w" and cfg: "writer_config_ok cfg"
  shows "states_get (snd (flush_cohort cfg env c (w_current_window_start w) w)) d =
           (if d = c then None else states_get w d)"
proof -
  let ?f = "fold_pending_drops c w" and ?r = "flush_cohort cfg env c (w_current_window_start w) w"
  have f: "d \<noteq> c \<Longrightarrow> states_get ?f d = states_get w d"
    by (simp add: fold_pending_drops_def take_pending_cohort_drops_def Let_def states_get_def
        map_of_update_iff)
  show ?thesis
  proof (cases "states_get ?f c")
    case None
    then show ?thesis using f by (simp add: flush_cohort_None)
  next
    case (Some st)
    then have "w_states (snd ?r) = AList.delete c (w_states ?f)"
      using flush_cohort_Some [OF inv cfg Some, of env "fst ?r" "snd ?r"] by auto
    then show ?thesis using f by (auto simp: states_get_def map_of_delete_iff)
  qed
qed

section \<open>Flushing every cohort\<close>

definition writer_env_ok :: "writer_env \<Rightarrow> bool" where
  "writer_env_ok env \<longleftrightarrow> (\<forall>ks. distinct ks \<longrightarrow>
     distinct (we_order env ks) \<and> set (we_order env ks) = set ks)"

lemma flush_list_inv:
  assumes "w_current_window_start w = start" and "writer_inv cfg held w"
    and cfg: "writer_config_ok cfg"
  shows "writer_inv cfg held (fold (\<lambda>c w. snd (flush_cohort cfg env c start w)) ks w)
     \<and> w_current_window_start (fold (\<lambda>c w. snd (flush_cohort cfg env c start w)) ks w) = start
     \<and> cs_queue (fold (\<lambda>c w. snd (flush_cohort cfg env c start w)) ks w) = cs_queue w
     \<and> fst ` set (w_states (fold (\<lambda>c w. snd (flush_cohort cfg env c start w)) ks w))
          \<subseteq> fst ` set (w_states w) - set ks"
  using assms(1,2)
proof (induction ks arbitrary: w)
  case (Cons k ks)
  let ?w = "snd (flush_cohort cfg env k start w)"
  note one = flush_cohort_inv [OF Cons.prems(2) cfg, of env k, unfolded Cons.prems(1)]
  have "fst ` set (w_states ?w) - set ks \<subseteq> fst ` set (w_states w) - set (k # ks)"
    using one(3) by auto
  then have "fst ` set (w_states (fold (\<lambda>c w. snd (flush_cohort cfg env c start w)) ks ?w))
      \<subseteq> fst ` set (w_states w) - set (k # ks)"
    using Cons.IH [OF one(2,1)] by (meson subset_trans)
  then show ?case using Cons.IH [OF one(2,1)] one(4) by simp
qed simp

lemma flush_list_accounted:
  assumes "writer_inv cfg held w" and cfg: "writer_config_ok cfg"
    and "w_current_window_start w = start" and "\<forall>c. accounted w c < 2 ^ 64"
  shows "accounted (fold (\<lambda>c w. snd (flush_cohort cfg env c start w)) ks w) d = accounted w d"
  using assms(1,3,4)
proof (induction ks arbitrary: w)
  case (Cons k ks)
  note one = flush_cohort_inv [OF Cons.prems(1) cfg, of env k, unfolded Cons.prems(2)]
  have acc: "accounted (snd (flush_cohort cfg env k start w)) e = accounted w e" for e
    using flush_cohort_accounted [OF Cons.prems(1) cfg, of k env e] Cons.prems(2,3) by simp
  have "\<forall>c. accounted (snd (flush_cohort cfg env k start w)) c < 2 ^ 64"
    using acc Cons.prems(3) by simp
  then show ?case using Cons.IH [OF one(1,2)] acc by simp
qed simp

lemma flush_all_inv:
  assumes "writer_inv cfg held w" and "writer_config_ok cfg" and env: "writer_env_ok env"
    and "w_current_window_start w = start"
  shows "writer_inv cfg held (flush_all cfg env start w)"
    and "w_current_window_start (flush_all cfg env start w) = start"
    and "cs_queue (flush_all cfg env start w) = cs_queue w"
    and "w_states (flush_all cfg env start w) = []"
proof -
  have "distinct (map fst (w_states w))" using assms(1) by (simp add: writer_inv_def)
  then have o': "set (we_order env (map fst (w_states w))) = fst ` set (w_states w)"
    using env by (simp add: writer_env_ok_def)
  note l = flush_list_inv [OF assms(4,1,2), of env "we_order env (map fst (w_states w))"]
  then show "writer_inv cfg held (flush_all cfg env start w)"
    "w_current_window_start (flush_all cfg env start w) = start"
    "cs_queue (flush_all cfg env start w) = cs_queue w"
    by (simp_all add: flush_all_def)
  have "fst ` set (w_states (flush_all cfg env start w)) \<subseteq> {}"
    using l by (simp add: flush_all_def o')
  then show "w_states (flush_all cfg env start w) = []" by simp
qed

lemma flush_all_accounted:
  assumes "writer_inv cfg held w" and "writer_config_ok cfg"
    and "w_current_window_start w = start" and "\<forall>c. accounted w c < 2 ^ 64"
  shows "accounted (flush_all cfg env start w) d = accounted w d"
  unfolding flush_all_def using assms by (rule flush_list_accounted)

section \<open>Folding every pending drop\<close>

abbreviation receive_drops :: "cohort_name \<times> u64 \<Rightarrow> collector \<Rightarrow> collector" where
  "receive_drops \<equiv> (\<lambda>(c, d). states_entry c
     (\<lambda>st. st\<lparr>co_received := saturating_add (co_received st) d\<rparr>))"

lemma fold_receive_drops_inv:
  assumes "writer_inv cfg held w" and "\<forall>(k, n) \<in> set l. cohort_ok k \<and> n \<noteq> 0"
  shows "writer_inv cfg held (fold receive_drops l w)
     \<and> w_current_window_start (fold receive_drops l w) = w_current_window_start w
     \<and> cs_queue (fold receive_drops l w) = cs_queue w \<and> w_log (fold receive_drops l w) = w_log w
     \<and> cs_counters (fold receive_drops l w) = cs_counters w"
  using assms
proof (induction l arbitrary: w)
  case (Cons x l)
  obtain c d where x: "x = (c, d)" by (cases x)
  have "writer_inv cfg held (receive_drops x w)"
    using Cons.prems x by (auto intro!: entry_drops_inv)
  then show ?case using Cons.IH [of "receive_drops x w"] Cons.prems(2) x by simp
qed simp

lemma ledger_get_Cons:
  "ledger_get ((c, n) # l) d = (if d = c then n else ledger_get l d)"
  by (simp add: ledger_get_def)

lemma ledger_get_notin: "c \<notin> fst ` set l \<Longrightarrow> ledger_get l c = 0"
  by (metis ledger_get_def map_of_eq_None_iff option.simps(4))

lemma fold_receive_drops_received:
  assumes "distinct (map fst l)"
    and "\<forall>d. alist_at (\<lambda>st. unat (co_received st)) (w_states w) d + unat (ledger_get l d) < 2 ^ 64"
  shows "alist_at (\<lambda>st. unat (co_received st)) (w_states (fold receive_drops l w)) d =
           alist_at (\<lambda>st. unat (co_received st)) (w_states w) d + unat (ledger_get l d)"
  using assms
proof (induction l arbitrary: w)
  case (Cons x l)
  let ?R = "\<lambda>st. unat (co_received st)"
  obtain c n where x: "x = (c, n)" by (cases x)
  have l0: "ledger_get l c = 0" using Cons.prems(1) x by (intro ledger_get_notin) auto
  have "?R (entry_of w c) + unat n < 2 ^ 64"
    using Cons.prems(2) [rule_format, of c] x by (simp add: entry_received ledger_get_Cons)
  then have step: "alist_at ?R (w_states (receive_drops x w)) e =
      alist_at ?R (w_states w) e + (if e = c then unat n else 0)" for e
    using entry_received [of w c] by (simp add: x alist_simps saturating_add_exact)
  have "alist_at ?R (w_states (receive_drops x w)) e + unat (ledger_get l e) < 2 ^ 64" for e
    using Cons.prems(2) [rule_format, of e] step [of e] l0 x by (auto simp: ledger_get_Cons)
  then have "alist_at ?R (w_states (fold receive_drops l (receive_drops x w))) d =
      alist_at ?R (w_states (receive_drops x w)) d + unat (ledger_get l d)"
    using Cons.prems(1) by (intro Cons.IH) simp_all
  then show ?case using step [of d] l0 x by (simp add: ledger_get_Cons)
qed (simp add: ledger_get_def)

lemma fold_all_pending_drops_inv:
  assumes inv: "writer_inv cfg held w"
  shows "writer_inv cfg held (fold_all_pending_drops w)"
    and "w_current_window_start (fold_all_pending_drops w) = w_current_window_start w"
    and "cs_queue (fold_all_pending_drops w) = cs_queue w"
proof -
  let ?w = "w\<lparr>cs_counters := (cs_counters w)\<lparr>pending_cohort_drops := []\<rparr>\<rparr>"
  have l: "\<forall>(k, n) \<in> set (pending_cohort_drops (cs_counters w)). cohort_ok k \<and> n \<noteq> 0"
    using inv by (simp add: writer_inv_def ledger_wf_def)
  have "writer_inv cfg held ?w"
    using inv by (intro writer_inv_ledger) (simp_all add: ledger_wf_def ledger_ok_def)
  note f = fold_receive_drops_inv [OF this l]
  then show "writer_inv cfg held (fold_all_pending_drops w)"
    and "w_current_window_start (fold_all_pending_drops w) = w_current_window_start w"
    and "cs_queue (fold_all_pending_drops w) = cs_queue w"
    by (simp_all add: fold_all_pending_drops_def take_all_pending_cohort_drops_def)
qed

lemma fold_all_pending_drops_accounted:
  assumes inv: "writer_inv cfg held w" and lt: "\<forall>c. accounted w c < 2 ^ 64"
  shows "accounted (fold_all_pending_drops w) d = accounted w d"
proof -
  let ?l = "pending_cohort_drops (cs_counters w)"
  let ?w = "w\<lparr>cs_counters := (cs_counters w)\<lparr>pending_cohort_drops := []\<rparr>\<rparr>"
  have l: "\<forall>(k, n) \<in> set ?l. cohort_ok k \<and> n \<noteq> 0" and dl: "distinct (map fst ?l)"
    using inv by (simp_all add: writer_inv_def ledger_wf_def ledger_ok_def)
  have "writer_inv cfg held ?w"
    using inv by (intro writer_inv_ledger) (simp_all add: ledger_wf_def ledger_ok_def)
  note f = fold_receive_drops_inv [OF this l]
  have "\<forall>c. alist_at (\<lambda>st. unat (co_received st)) (w_states ?w) c + unat (ledger_get ?l c) < 2 ^ 64"
  proof
    fix c
    show "alist_at (\<lambda>st. unat (co_received st)) (w_states ?w) c + unat (ledger_get ?l c) < 2 ^ 64"
      using lt [rule_format, of c] by (simp add: accounted_def)
  qed
  note r = fold_receive_drops_received [OF dl this, of d]
  show ?thesis
    using f r
    by (simp add: fold_all_pending_drops_def take_all_pending_cohort_drops_def accounted_def
        ledger_get_def)
qed

section \<open>Handling a frame\<close>

lemma max_by_key_mem: "max_by_key key xs = Some x \<Longrightarrow> x \<in> set xs"
proof -
  have "fold (\<lambda>x best. case best of None \<Rightarrow> Some x
          | Some b \<Rightarrow> if key b \<le> key x then Some x else Some b) xs b = Some x
      \<Longrightarrow> x \<in> set xs \<or> b = Some x" for b
    by (induction xs arbitrary: b) (force split: option.splits if_splits)+
  then show "max_by_key key xs = Some x \<Longrightarrow> x \<in> set xs" unfolding max_by_key_def by blast
qed

lemma max_by_key_max: "max_by_key key xs = Some x \<Longrightarrow> \<forall>y \<in> set xs. key y \<le> key x"
proof -
  have "fold (\<lambda>x best. case best of None \<Rightarrow> Some x
          | Some b \<Rightarrow> if key b \<le> key x then Some x else Some b) xs b = Some x
      \<Longrightarrow> (\<forall>y \<in> set xs. key y \<le> key x) \<and> (\<forall>c. b = Some c \<longrightarrow> key c \<le> key x)" for b
  proof (induction xs arbitrary: b)
    case (Cons y ys)
    then show ?case by (force split: option.splits if_splits)
  qed simp
  then show "max_by_key key xs = Some x \<Longrightarrow> \<forall>y \<in> set xs. key y \<le> key x"
    unfolding max_by_key_def by blast
qed

lemma flush_largest_cases:
  "flush_largest_cohort cfg env w = w \<or>
   (\<exists>c. flush_largest_cohort cfg env w = snd (flush_cohort cfg env c (w_current_window_start w) w))"
  by (auto simp: flush_largest_cohort_def Let_def split: option.split)

lemma flush_largest_inv:
  assumes "writer_inv cfg held w" and "writer_config_ok cfg"
  shows "writer_inv cfg held (flush_largest_cohort cfg env w)"
    and "w_current_window_start (flush_largest_cohort cfg env w) = w_current_window_start w"
    and "cs_queue (flush_largest_cohort cfg env w) = cs_queue w"
    and "states_get (flush_largest_cohort cfg env w) d \<in> {None, states_get w d}"
  using flush_largest_cases [of cfg env w] flush_cohort_inv [OF assms, of env]
    flush_cohort_lookup [OF assms, of env _ d] assms(1)
  by auto

lemma flush_largest_accounted:
  assumes "writer_inv cfg held w" and "writer_config_ok cfg" and "\<forall>c. accounted w c < 2 ^ 64"
  shows "accounted (flush_largest_cohort cfg env w) d = accounted w d"
  using flush_largest_cases [of cfg env w] flush_cohort_accounted [OF assms(1,2), of _ env d] assms(3)
  by auto

lemma writer_inv_empty_window:
  "writer_inv cfg held w \<Longrightarrow> w_states w = [] \<Longrightarrow>
     writer_inv cfg held (w\<lparr>w_current_window_start := start\<rparr>)"
  by (simp add: writer_inv_def queue_bytes_def)

lemma accounted_window [simp]:
  "accounted (w\<lparr>w_current_window_start := start\<rparr>) c = accounted w c"
  by (simp add: accounted_def)

lemma aligned_not_after:
  assumes "aligned_window_start (t div 1000000) (wc_window_seconds cfg) = Inr s"
    and "s \<le> start"
  shows "not_after_window cfg start t"
proof -
  have w: "wc_window_seconds cfg \<noteq> 0" and s: "unat s = unat (t div 1000000)
      div unat (wc_window_seconds cfg) * unat (wc_window_seconds cfg)"
    using assms(1) by (simp_all add: aligned_window_start_Inr)
  have t: "unat (t div 1000000) = unat t div 1000000" by (simp add: unat_div)
  have "0 < unat (wc_window_seconds cfg)" using w by (simp add: unat_gt_0)
  then have "unat t div 1000000 < unat s + unat (wc_window_seconds cfg)"
    using s div_mult_mod_eq [of "unat t div 1000000" "unat (wc_window_seconds cfg)"]
    unfolding t by (metis add_less_cancel_left mod_less_divisor)
  moreover have "unat s \<le> unat start" using assms(2) by (simp add: word_le_nat_alt)
  ultimately show ?thesis by (simp add: not_after_window_def)
qed

lemma advance_inv:
  assumes inv: "writer_inv cfg held w" and cfg: "writer_config_ok cfg" and env: "writer_env_ok env"
  shows "writer_inv cfg held (advance_to_receive_window cfg env t w)"
    and "not_after_window cfg (w_current_window_start (advance_to_receive_window cfg env t w)) t"
    and "cs_queue (advance_to_receive_window cfg env t w) = cs_queue w"
proof -
  have "wc_window_seconds cfg \<noteq> 0" using cfg by (simp add: writer_config_ok_def)
  then obtain s where s: "aligned_window_start (t div 1000000) (wc_window_seconds cfg) = Inr s"
    using aligned_window_start_total by blast
  note f = fold_all_pending_drops_inv [OF inv]
  note fl = flush_all_inv [OF f(1) cfg env f(2)]
  have "writer_inv cfg held (advance_to_receive_window cfg env t w)
     \<and> not_after_window cfg (w_current_window_start (advance_to_receive_window cfg env t w)) t
     \<and> cs_queue (advance_to_receive_window cfg env t w) = cs_queue w"
  proof (cases "s \<le> w_current_window_start w")
    case True
    then show ?thesis
      using inv s aligned_not_after [OF s True] by (simp add: advance_to_receive_window_def)
  next
    case False
    then show ?thesis
      using s writer_inv_empty_window [OF fl(1,4)] fl(3) f(3) aligned_not_after [OF s order_refl]
      by (simp add: advance_to_receive_window_def)
  qed
  then show "writer_inv cfg held (advance_to_receive_window cfg env t w)"
    and "not_after_window cfg (w_current_window_start (advance_to_receive_window cfg env t w)) t"
    and "cs_queue (advance_to_receive_window cfg env t w) = cs_queue w"
    by blast+
qed

lemma advance_accounted:
  assumes inv: "writer_inv cfg held w" and cfg: "writer_config_ok cfg"
    and lt: "\<forall>c. accounted w c < 2 ^ 64"
  shows "accounted (advance_to_receive_window cfg env t w) d = accounted w d"
proof -
  note f = fold_all_pending_drops_inv [OF inv]
  have a: "accounted (fold_all_pending_drops w) c = accounted w c" for c
    by (rule fold_all_pending_drops_accounted [OF inv lt])
  show ?thesis
    using flush_all_accounted [OF f(1) cfg f(2), of env d] a lt
    by (simp add: advance_to_receive_window_def split: sum.split)
qed

lemma add_record_inv:
  assumes inv: "writer_inv cfg (fe_memory e) w" and cfg: "writer_config_ok cfg"
    and e: "event_ok cfg e" and t: "not_after_window cfg (w_current_window_start w) (fe_receive_time e)"
    and fits: "co_bytes (entry_of w (fe_cohort e)) + fe_memory e \<le> wc_per_cohort_memory_bytes cfg"
  shows "writer_inv cfg 0 (add_record e (fe_memory e) w)"
proof -
  let ?c = "fe_cohort e" and ?r = "\<lparr>br_receive_time = fe_receive_time e, br_frame = fe_frame e,
      br_memory = fe_memory e\<rparr>"
  let ?f = "\<lambda>st. \<lparr>co_records = co_records st @ [?r],
                 co_bytes = usize_saturating_add (co_bytes st) (fe_memory e),
                 co_received = saturating_add (co_received st) 1\<rparr>"
  let ?st = "entry_of w ?c"
  have sat: "usize_saturating_add (co_bytes ?st) (fe_memory e) = co_bytes ?st + fe_memory e"
    using fits cfg by (auto simp: usize_saturating_add_def writer_config_ok_def min_def)
  have r: "record_ok cfg (w_current_window_start w) ?c ?r"
    using e t by (simp add: record_ok_def event_ok_def)
  have old: "?st = cohort_state_default \<or> buffer_ok cfg (w_current_window_start w) ?c ?st"
    using writer_inv_lookup [OF inv, of ?c] by (auto split: option.split)
  have old_bytes: "co_bytes ?st = sum_list (map br_memory (co_records ?st))"
    using old by (auto simp: buffer_ok_def cohort_state_default_def)
  have co: "cohort_ok ?c" using e by (simp add: event_ok_def frame_of_cohort_def)
  have "length (co_records ?st) + 1 < 2 ^ 64"
  proof -
    have "length (co_records ?st) \<le> sum_list (map br_memory (co_records ?st))"
      using old by (auto simp: buffer_ok_def record_ok_def cohort_state_default_def
          intro: order_trans [OF _ sum_list_mono [of _ "\<lambda>_. 1"]] simp: sum_list_triv)
    also have "\<dots> = co_bytes ?st" by (simp add: old_bytes)
    finally show ?thesis
      using fits cfg by (simp add: writer_config_ok_def usize_bound_def)
  qed
  then have "length (co_records ?st) + 1 \<le> unat (saturating_add (co_received ?st) 1)"
    "unat (saturating_add (co_received ?st) 1) \<noteq> 0"
    using old by (auto simp: unat_saturating_add buffer_ok_def cohort_state_default_def)
  moreover from this have "saturating_add (co_received ?st) 1 \<noteq> 0" by auto
  ultimately have buf: "buffer_ok cfg (w_current_window_start w) ?c (?f ?st)"
    using old r fits co sat [unfolded old_bytes]
    by (auto simp: buffer_ok_def cohort_state_default_def old_bytes)
  have "writer_inv cfg 0 (states_entry ?c ?f w)"
    by (rule states_entry_inv [where k = "fe_memory e"]) (use inv buf sat in simp_all)
  then show ?thesis
    by (simp add: add_record_def writer_inv_def queue_bytes_def ledger_wf_def ledger_ok_def)
qed

lemma add_record_accounted:
  assumes "accounted w (fe_cohort e) + 1 < 2 ^ 64"
  shows "accounted (add_record e n w) d = accounted w d + (if d = fe_cohort e then 1 else 0)"
proof -
  have "unat (co_received (entry_of w (fe_cohort e))) + 1 < 2 ^ 64"
    using assms by (simp add: accounted_def entry_received)
  then have "unat (saturating_add (co_received (entry_of w (fe_cohort e))) 1) =
      unat (co_received (entry_of w (fe_cohort e))) + 1"
    by (simp add: unat_saturating_add)
  then show ?thesis
    by (simp add: add_record_def accounted_def alist_simps entry_received)
qed

text \<open>A whole frame: window change, pending drops, the two flushes, the new record.\<close>

definition frame_cap_flush :: "writer_config \<Rightarrow> writer_env \<Rightarrow> frame_event \<Rightarrow> collector \<Rightarrow> collector" where
  "frame_cap_flush cfg env e w =
     (if cohort_would_exceed_cap cfg w (fe_cohort e) (fe_memory e)
      then snd (flush_cohort cfg env (fe_cohort e) (w_current_window_start w) w) else w)"

definition frame_live_flush :: "writer_config \<Rightarrow> writer_env \<Rightarrow> collector \<Rightarrow> collector" where
  "frame_live_flush cfg env w =
     (if global_live_budget_is_full cfg w then flush_largest_cohort cfg env w else w)"

lemma handle_frame_eq:
  "handle_frame cfg env e w =
     add_record e (fe_memory e) (frame_live_flush cfg env (frame_cap_flush cfg env e
       (fold_pending_drops (fe_cohort e) (advance_to_receive_window cfg env (fe_receive_time e) w))))"
  by (simp add: handle_frame_def frame_cap_flush_def frame_live_flush_def Let_def)

lemma frame_cap_flush_inv:
  assumes inv: "writer_inv cfg (fe_memory e) w" and cfg: "writer_config_ok cfg" and e: "event_ok cfg e"
  shows "writer_inv cfg (fe_memory e) (frame_cap_flush cfg env e w)"
    and "w_current_window_start (frame_cap_flush cfg env e w) = w_current_window_start w"
    and "cs_queue (frame_cap_flush cfg env e w) = cs_queue w"
    and "co_bytes (entry_of (frame_cap_flush cfg env e w) (fe_cohort e)) + fe_memory e
           \<le> wc_per_cohort_memory_bytes cfg"
proof -
  let ?c = "fe_cohort e"
  note fl = flush_cohort_inv [OF inv cfg, of env ?c]
  show "writer_inv cfg (fe_memory e) (frame_cap_flush cfg env e w)"
    "w_current_window_start (frame_cap_flush cfg env e w) = w_current_window_start w"
    "cs_queue (frame_cap_flush cfg env e w) = cs_queue w"
    using inv fl by (simp_all add: frame_cap_flush_def)
  show "co_bytes (entry_of (frame_cap_flush cfg env e w) ?c) + fe_memory e
           \<le> wc_per_cohort_memory_bytes cfg"
  proof (cases "cohort_would_exceed_cap cfg w ?c (fe_memory e)")
    case True
    then have "states_get (frame_cap_flush cfg env e w) ?c = None"
      using flush_cohort_lookup [OF inv cfg, of env ?c ?c] by (simp add: frame_cap_flush_def)
    then show ?thesis using e by (simp add: cohort_state_default_def event_ok_def)
  next
    case False
    then have w: "frame_cap_flush cfg env e w = w" by (simp add: frame_cap_flush_def)
    show ?thesis
    proof (cases "states_get w ?c")
      case None
      then show ?thesis using e w by (simp add: cohort_state_default_def event_ok_def)
    next
      case (Some st)
      have d: "distinct (map fst (w_states w))" using inv by (simp add: writer_inv_def)
      have "co_bytes st + fe_memory e \<le> cs_used w"
        using inv alist_at_le_sum [OF d, of co_bytes ?c] Some
        by (simp add: writer_inv_def states_get_def alist_at_def)
      then have "co_bytes st + fe_memory e < usize_bound"
        using inv cfg by (simp add: writer_inv_def writer_config_ok_def)
      then show ?thesis
        using False Some w by (simp add: cohort_would_exceed_cap_def usize_add_def)
    qed
  qed
qed

lemma frame_live_flush_inv:
  assumes inv: "writer_inv cfg held w" and cfg: "writer_config_ok cfg"
  shows "writer_inv cfg held (frame_live_flush cfg env w)"
    and "w_current_window_start (frame_live_flush cfg env w) = w_current_window_start w"
    and "cs_queue (frame_live_flush cfg env w) = cs_queue w"
    and "co_bytes (entry_of (frame_live_flush cfg env w) c) \<le> co_bytes (entry_of w c)"
  using inv flush_largest_inv(1-3) [OF inv cfg, of env] flush_largest_inv(4) [OF inv cfg, of env c]
  by (auto simp: frame_live_flush_def cohort_state_default_def)

lemma handle_frame_inv:
  assumes inv: "writer_inv cfg (fe_memory e) w" and cfg: "writer_config_ok cfg"
    and env: "writer_env_ok env" and e: "event_ok cfg e"
  shows "writer_inv cfg 0 (handle_frame cfg env e w)"
    and "cs_queue (handle_frame cfg env e w) = cs_queue w"
proof -
  let ?w1 = "advance_to_receive_window cfg env (fe_receive_time e) w"
  let ?w2 = "fold_pending_drops (fe_cohort e) ?w1"
  let ?w3 = "frame_cap_flush cfg env e ?w2"
  let ?w4 = "frame_live_flush cfg env ?w3"
  note a = advance_inv [OF inv cfg env, of "fe_receive_time e"]
  note f = fold_pending_drops_inv [OF a(1), of "fe_cohort e"]
  note c = frame_cap_flush_inv [OF f cfg e, of env]
  note l = frame_live_flush_inv [OF c(1) cfg, of env]
  have t: "not_after_window cfg (w_current_window_start ?w4) (fe_receive_time e)"
    using a(2) c(2) l(2) by simp
  have b: "co_bytes (entry_of ?w4 (fe_cohort e)) + fe_memory e \<le> wc_per_cohort_memory_bytes cfg"
    using c(4) l(4) [of "fe_cohort e"] by linarith
  show "writer_inv cfg 0 (handle_frame cfg env e w)"
    unfolding handle_frame_eq by (rule add_record_inv [OF l(1) cfg e t b])
  show "cs_queue (handle_frame cfg env e w) = cs_queue w"
    using a(3) c(3) l(3) by (simp add: handle_frame_eq add_record_def)
qed

lemma handle_frame_accounted:
  assumes inv: "writer_inv cfg (fe_memory e) w" and cfg: "writer_config_ok cfg"
    and env: "writer_env_ok env" and e: "event_ok cfg e"
    and lt: "\<forall>c. accounted w c + (if c = fe_cohort e then 1 else 0) < 2 ^ 64"
  shows "accounted (handle_frame cfg env e w) d =
           accounted w d + (if d = fe_cohort e then 1 else 0)"
proof -
  let ?w1 = "advance_to_receive_window cfg env (fe_receive_time e) w"
  let ?w2 = "fold_pending_drops (fe_cohort e) ?w1"
  let ?w3 = "frame_cap_flush cfg env e ?w2"
  let ?w4 = "frame_live_flush cfg env ?w3"
  note a = advance_inv [OF inv cfg env, of "fe_receive_time e"]
  note f = fold_pending_drops_inv [OF a(1), of "fe_cohort e"]
  note c = frame_cap_flush_inv [OF f cfg e, of env]
  have lt': "\<forall>c. accounted w c < 2 ^ 64" using lt by (meson add_lessD1)
  have 1: "accounted ?w1 k = accounted w k" for k by (rule advance_accounted [OF inv cfg lt'])
  have 2: "accounted ?w2 k = accounted w k" for k
    using fold_pending_drops_accounted [of ?w1 "fe_cohort e" k] 1 lt' by simp
  have 3: "accounted ?w3 k = accounted w k" for k
    using flush_cohort_accounted [OF f cfg, of "fe_cohort e" env k] 2 lt'
    by (simp add: frame_cap_flush_def)
  have 4: "accounted ?w4 k = accounted w k" for k
    using flush_largest_accounted [OF c(1) cfg, of env k] 3 lt' by (simp add: frame_live_flush_def)
  show ?thesis
    unfolding handle_frame_eq
    using add_record_accounted [of ?w4 e "fe_memory e" d] lt [rule_format, of "fe_cohort e"] 4 by simp
qed

section \<open>The end of a window and of the run\<close>

lemma close_window_inv:
  assumes inv: "writer_inv cfg held w" and cfg: "writer_config_ok cfg" and env: "writer_env_ok env"
  shows "writer_inv cfg held (close_window cfg env now w)"
    and "w_states (close_window cfg env now w) = []"
    and "cs_queue (close_window cfg env now w) = cs_queue w"
proof -
  note f = fold_all_pending_drops_inv [OF inv]
  note fl = flush_all_inv [OF f(1) cfg env f(2)]
  show "writer_inv cfg held (close_window cfg env now w)"
    and "w_states (close_window cfg env now w) = []"
    and "cs_queue (close_window cfg env now w) = cs_queue w"
    using fl f(3) writer_inv_empty_window [OF fl(1,4)]
    by (simp_all add: close_window_def Let_def split: sum.split)
qed

lemma close_window_accounted:
  assumes inv: "writer_inv cfg held w" and cfg: "writer_config_ok cfg"
    and lt: "\<forall>c. accounted w c < 2 ^ 64"
  shows "accounted (close_window cfg env now w) d = accounted w d"
proof -
  note f = fold_all_pending_drops_inv [OF inv]
  have a: "accounted (fold_all_pending_drops w) c = accounted w c" for c
    by (rule fold_all_pending_drops_accounted [OF inv lt])
  show ?thesis
    using flush_all_accounted [OF f(1) cfg f(2), of env d] a lt
    by (simp add: close_window_def Let_def split: sum.split)
qed

lemma finish_run_inv:
  assumes inv: "writer_inv cfg held w" and cfg: "writer_config_ok cfg" and env: "writer_env_ok env"
  shows "writer_inv cfg held (finish_run cfg env w)"
    and "w_states (finish_run cfg env w) = []"
    and "cs_queue (finish_run cfg env w) = cs_queue w"
proof -
  note f = fold_all_pending_drops_inv [OF inv]
  note fl = flush_all_inv [OF f(1) cfg env refl]
  show "writer_inv cfg held (finish_run cfg env w)"
    and "w_states (finish_run cfg env w) = []"
    and "cs_queue (finish_run cfg env w) = cs_queue w"
    using fl f(3) by (simp_all add: finish_run_def Let_def)
qed

lemma finish_run_accounted:
  assumes inv: "writer_inv cfg held w" and cfg: "writer_config_ok cfg"
    and lt: "\<forall>c. accounted w c < 2 ^ 64"
  shows "accounted (finish_run cfg env w) d = accounted w d"
proof -
  note f = fold_all_pending_drops_inv [OF inv]
  have a: "accounted (fold_all_pending_drops w) c = accounted w c" for c
    by (rule fold_all_pending_drops_accounted [OF inv lt])
  show ?thesis
    using flush_all_accounted [OF f(1) cfg refl, of env d] a lt by (simp add: finish_run_def Let_def)
qed

end
