(* ===== verification/Collector.thy ===== *)
theory Collector
  imports WriterInv
begin

text \<open>
  The collector as a whole (\<open>vectorseam-collector/src/lib.rs\<close>): start-up from a configuration, and
  any interleaving of reader turns, received frames, window timers and the final drain. A ghost
  count of the valid frames of each cohort runs along. The properties are about every reachable
  state: memory, accounting, and the segments that were flushed.
\<close>

section \<open>Definitions\<close>

text \<open>\<open>run_with_store\<close> and \<open>run_with_listener\<close> up to the spawned tasks.\<close>

definition collector_start ::
  "collector_config \<Rightarrow> clock \<Rightarrow> string + reader_config \<times> writer_config \<times> collector" where
  "collector_start c now =
     res_bind (validate_collector_config c) (\<lambda>_.
     res_bind (live_memory_bytes c) (\<lambda>live.
     let wcfg = writer_config_of c live in
     res_bind (writer_new wcfg now (cc_channel_capacity c)) (\<lambda>w.
     Inr (reader_config_of c live, wcfg, w))))"

text \<open>The cohort a turn receives a valid frame for, if it does.\<close>

definition turn_frame :: "reader_config \<Rightarrow> stream \<Rightarrow> u8 list option" where
  "turn_frame cfg stream =
     (let bytes = st_bytes stream; n = unat (word_from_le_bytes (take 4 bytes) :: u32) + 4
      in if 4 \<le> length bytes \<and> n \<le> rdc_max_frame_size cfg \<and> n \<le> length bytes
         then Some (take n bytes) else None)"

definition turn_admits :: "reader_config \<Rightarrow> clock \<Rightarrow> stream \<Rightarrow> cohort_name option" where
  "turn_admits cfg now stream =
     (case turn_frame cfg stream of
        None \<Rightarrow> None
      | Some frame \<Rightarrow>
          (case parse_frame_header frame of
             Inl e \<Rightarrow> None
           | Inr h \<Rightarrow> if is_ok (cohort_new (fh_name h)) \<and> is_ok (unix_micros_now now)
                      then Some (CohortName (fh_name h)) else None))"

definition admit :: "cohort_name option \<Rightarrow> (cohort_name \<Rightarrow> nat) \<Rightarrow> cohort_name \<Rightarrow> nat" where
  "admit c g = (case c of None \<Rightarrow> g | Some k \<Rightarrow> g(k := g k + 1))"

inductive collector_run ::
  "reader_config \<Rightarrow> writer_config \<Rightarrow> collector \<Rightarrow> (cohort_name \<Rightarrow> nat) \<Rightarrow> bool"
  for rcfg wcfg where
  run_start: "cc_global_memory_bytes c < usize_bound \<Longrightarrow>
    collector_start c now = Inr (rcfg, wcfg, w) \<Longrightarrow> collector_run rcfg wcfg w (\<lambda>_. 0)"
| run_turn: "collector_run rcfg wcfg w g \<Longrightarrow>
    reader_turn rcfg now stream w = (control, stream', w') \<Longrightarrow>
    collector_run rcfg wcfg w' (admit (turn_admits rcfg now stream) g)"
| run_recv: "collector_run rcfg wcfg w g \<Longrightarrow> writer_env_ok env \<Longrightarrow> cs_queue w = e # q \<Longrightarrow>
    collector_run rcfg wcfg (handle_frame wcfg env e (w\<lparr>cs_queue := q\<rparr>)) g"
| run_timer: "collector_run rcfg wcfg w g \<Longrightarrow> writer_env_ok env \<Longrightarrow>
    collector_run rcfg wcfg (close_window wcfg env now w) g"
| run_finish: "collector_run rcfg wcfg w g \<Longrightarrow> writer_env_ok env \<Longrightarrow> cs_queue w = [] \<Longrightarrow>
    collector_run rcfg wcfg ((finish_run wcfg env w)\<lparr>cs_receiver_closed := True\<rparr>) g"

section \<open>Reader turns\<close>

text \<open>The bounds a start-up configuration gives both sides.\<close>

definition configs_agree :: "reader_config \<Rightarrow> writer_config \<Rightarrow> bool" where
  "configs_agree rcfg wcfg \<longleftrightarrow>
     writer_config_ok wcfg \<and> rdc_live_memory_bytes rcfg = wc_live_memory_bytes wcfg
     \<and> rdc_max_frame_size rcfg + 8 \<le> wc_per_cohort_memory_bytes wcfg"

lemma collector_start_agrees:
  assumes "collector_start c now = Inr (rcfg, wcfg, w)" and "cc_global_memory_bytes c < usize_bound"
  shows "configs_agree rcfg wcfg"
  using assms
  by (auto simp: collector_start_def Let_def result_simps configs_agree_def writer_config_ok_def
      reader_config_of_def writer_config_of_def)

lemma writer_new_inv:
  assumes "writer_new cfg now cap = Inr w"
  shows "writer_inv cfg 0 w" and "accounted w c = 0" and "cs_queue w = []"
    and "cs_counters w = counters_default"
  using assms
  by (auto simp: writer_new_def result_simps writer_inv_def ledger_wf_def ledger_ok_def
      counters_default_def queue_bytes_def accounted_def log_received_def alist_at_def ledger_get_def)

text \<open>A turn without a complete frame only counts: the ledger and the frame totals stay.\<close>

definition frame_counts :: "counters \<Rightarrow> u64 \<times> u64 \<times> u64 \<times> u64" where
  "frame_counts c = (valid_frames_received c, memory_dropped_frames c, channel_dropped_frames c,
                     kept_frames c)"

definition keeps_frames :: "(counters \<Rightarrow> counters) \<Rightarrow> bool" where
  "keeps_frames f \<longleftrightarrow>
     (\<forall>c. pending_cohort_drops (f c) = pending_cohort_drops c \<and> frame_counts (f c) = frame_counts c)"

definition only_counted :: "'a collector_shared_scheme \<Rightarrow> 'a collector_shared_scheme \<Rightarrow> bool" where
  "only_counted s s' \<longleftrightarrow> (\<exists>f. s' = counted f s \<and> keeps_frames f)"

lemma only_countedI: "keeps_frames f \<Longrightarrow> only_counted s (counted f s)"
  by (auto simp: only_counted_def)

lemma only_counted_refl: "only_counted s s"
  unfolding only_counted_def
  by (rule exI [of _ "\<lambda>c. c"]) (simp add: counted_def keeps_frames_def)

lemma only_counted_trans:
  assumes "only_counted s t" and "only_counted t u"
  shows "only_counted s u"
proof -
  obtain f g where f: "t = counted f s" "keeps_frames f" and g: "u = counted g t" "keeps_frames g"
    using assms by (auto simp: only_counted_def)
  then have "u = counted (\<lambda>c. g (f c)) s" by (simp add: counted_def)
  moreover have "keeps_frames (\<lambda>c. g (f c))" using f g by (simp add: keeps_frames_def)
  ultimately show ?thesis by (simp add: only_countedI)
qed

lemma keeps_frames_counters [simp]:
  "keeps_frames (\<lambda>c. c\<lparr>frames_read := n c\<rparr>)" "keeps_frames (\<lambda>c. c\<lparr>invalid_frames := n c\<rparr>)"
  "keeps_frames (\<lambda>c. c\<lparr>oversized_frames := n c\<rparr>)" "keeps_frames (\<lambda>c. c\<lparr>invalid_names := n c\<rparr>)"
  "keeps_frames (\<lambda>c. c\<lparr>idle_connection_timeouts := n c\<rparr>)"
  "keeps_frames (\<lambda>c. c\<lparr>connection_errors := n c\<rparr>)"
  by (simp_all add: keeps_frames_def frame_counts_def)

lemma only_counted_read_failed: "only_counted s (read_failed outcome s)"
  by (cases outcome) (simp_all add: only_counted_refl only_countedI)

lemma reader_turn_cases:
  assumes "reader_turn cfg now stream s = (control, stream', s')"
  shows "(turn_frame cfg stream = None \<and> only_counted s s')
     \<or> (\<exists>frame. turn_frame cfg stream = Some frame \<and> length frame \<le> rdc_max_frame_size cfg
          \<and> receive_frame cfg now frame (counted (\<lambda>c. c\<lparr>frames_read := frames_read c + 1\<rparr>) s)
              = (control, s'))"
proof -
  let ?b = "st_bytes stream"
  let ?n = "unat (word_from_le_bytes (take 4 ?b) :: u32)"
  let ?fr = "\<lambda>c. c\<lparr>frames_read := frames_read c + 1\<rparr>"
  have add: "usize_add ?n 4 = Some (?n + 4)"
    by (rule usize_add_u32') (simp add: usize_bound_def)
  consider (short) "length ?b < 4" | (over) "4 \<le> length ?b" "rdc_max_frame_size cfg < ?n + 4"
    | (cut) "4 \<le> length ?b" "?n + 4 \<le> rdc_max_frame_size cfg" "length ?b < ?n + 4"
    | (whole) "4 \<le> length ?b" "?n + 4 \<le> rdc_max_frame_size cfg" "?n + 4 \<le> length ?b"
    by linarith
  then show ?thesis
  proof cases
    case short
    then have "s' = read_failed (end_outcome (st_end stream)) s" "turn_frame cfg stream = None"
      using assms by (auto simp: reader_turn_def read_exact_or_shutdown_def turn_frame_def Let_def)
    then show ?thesis using only_counted_read_failed by simp
  next
    case over
    then have "s' = counted (\<lambda>c. c\<lparr>oversized_frames := oversized_frames c + 1\<rparr>) (counted ?fr s)"
      "turn_frame cfg stream = None"
      using assms add
      by (auto simp: reader_turn_def read_exact_or_shutdown_def turn_frame_def Let_def)
    then show ?thesis
      by (auto intro: only_counted_trans [OF only_countedI only_countedI])
  next
    case cut
    then have "s' = read_failed (end_outcome (st_end stream)) (counted ?fr s)"
      "turn_frame cfg stream = None"
      using assms add
      by (auto simp: reader_turn_def read_exact_or_shutdown_def turn_frame_def Let_def
          split: if_splits)
    then show ?thesis
      by (auto intro: only_counted_trans [OF only_countedI only_counted_read_failed])
  next
    case whole
    have "take 4 ?b @ take ?n (drop 4 ?b) = take (?n + 4) ?b"
      by (metis add.commute take_add)
    then show ?thesis
      using whole assms add
      by (auto simp: reader_turn_def read_exact_or_shutdown_def turn_frame_def Let_def
          split: prod.splits if_splits)
  qed
qed

text \<open>
  A complete frame either is rejected (no valid frame), or counts once as valid and then is queued,
  charged to the tracker, or counts as one drop in the totals and in the ledger of its cohort.
\<close>

lemma receive_frame_cases:
  assumes "receive_frame cfg now frame s = (control, s')"
  obtains (rejected) "only_counted s s'"
      "\<not> (\<exists>h. parse_frame_header frame = Inr h \<and> is_ok (cohort_new (fh_name h))
            \<and> is_ok (unix_micros_now now))"
  | (queued) h t e where "parse_frame_header frame = Inr h"
      "is_valid_cohort_name (fh_name h)" "unix_micros_now now = Inr t"
      "e = \<lparr>fe_cohort = CohortName (fh_name h), fe_receive_time = t, fe_frame = frame,
            fe_memory = length frame + 8\<rparr>"
      "cs_used s + fe_memory e \<le> rdc_live_memory_bytes cfg"
      "s' = (counted (\<lambda>c. c\<lparr>valid_frames_received := valid_frames_received c + 1\<rparr>) s)
              \<lparr>cs_used := cs_used s + fe_memory e, cs_queue := cs_queue s @ [e]\<rparr>"
  | (dropped) h t f where "parse_frame_header frame = Inr h"
      "is_valid_cohort_name (fh_name h)" "unix_micros_now now = Inr t"
      "f = record_memory_drop (CohortName (fh_name h))
        \<or> f = record_channel_drop (CohortName (fh_name h))"
      "s' = counted (\<lambda>c. f (c\<lparr>valid_frames_received := valid_frames_received c + 1\<rparr>)) s"
proof (cases "parse_frame_header frame")
  case (Inl e)
  then show ?thesis
    using assms by (intro rejected) (auto simp: receive_frame_def intro: only_countedI)
next
  case p: (Inr h)
  show ?thesis
  proof (cases "cohort_new (fh_name h)")
    case (Inl e)
    then show ?thesis
      using assms p by (intro rejected) (auto simp: receive_frame_def intro: only_countedI)
  next
    case c: (Inr cohort)
    then have v: "is_valid_cohort_name (fh_name h)" "cohort = CohortName (fh_name h)"
      by (simp_all add: cohort_new_Inr)
    show ?thesis
    proof (cases "unix_micros_now now")
      case (Inl e)
      then show ?thesis
        using assms p c by (intro rejected) (auto simp: receive_frame_def only_counted_refl)
    next
      case t: (Inr t)
      let ?s = "counted (\<lambda>c. c\<lparr>valid_frames_received := valid_frames_received c + 1\<rparr>) s"
      let ?n = "length frame + 8"
      let ?e = "\<lparr>fe_cohort = cohort, fe_receive_time = t, fe_frame = frame, fe_memory = ?n\<rparr>"
      note defs = receive_frame_def p c t Let_def
      have m: "s' = counted (record_memory_drop cohort) ?s \<Longrightarrow> ?thesis"
        by (rule dropped [OF p v(1) t disjI1 [OF refl]]) (simp add: counted_def v)
      show ?thesis
      proof (cases "try_reserve (cs_used s) ?n (rdc_live_memory_bytes cfg)")
        case None
        then have "s' = counted (record_memory_drop cohort) ?s"
          using assms by (auto simp: defs split: option.splits simp: arith_simps)
        then show ?thesis by (rule m)
      next
        case (Some r)
        obtain used g where r: "r = (used, g)" by (cases r)
        have res: "g = ?n" "used = cs_used s + ?n" "used \<le> rdc_live_memory_bytes cfg"
            "?n < usize_bound"
          using Some r by (auto simp: arith_simps)
        have ua: "usize_add (length frame) 8 = Some ?n" using res(4) by (simp add: usize_add_def)
        show ?thesis
        proof (cases "cs_receiver_closed s \<or> cs_capacity s \<le> length (cs_queue s)")
          case True
          then have "s' = (counted (record_channel_drop cohort) (?s\<lparr>cs_used := used\<rparr>))
              \<lparr>cs_used := cs_used s\<rparr>"
            using assms Some r res
            by (auto simp: defs try_send_def ua counted_def split: if_splits)
          then show ?thesis
            by (intro dropped [OF p v(1) t disjI2 [OF refl]]) (simp add: counted_def v)
        next
          case False
          then have "s' = ?s\<lparr>cs_used := used, cs_queue := cs_queue s @ [?e]\<rparr>"
            using assms Some r res by (simp add: defs try_send_def ua counted_def)
          then show ?thesis
            using res v by (intro queued [OF p v(1) t refl]) (simp_all add: counted_def)
        qed
      qed
    qed
  qed
qed

section \<open>Turns keep the invariant and count\<close>

lemma record_drop_pending [simp]:
  "pending_cohort_drops (record_memory_drop c k) = ledger_bump c (pending_cohort_drops k)"
  "pending_cohort_drops (record_channel_drop c k) = ledger_bump c (pending_cohort_drops k)"
  by (simp_all add: record_memory_drop_def record_channel_drop_def record_pending_cohort_drop_def)

lemma saturating_succ_nonzero:
  fixes a :: u64
  shows "saturating_add a 1 \<noteq> 0"
proof
  assume "saturating_add a 1 = 0"
  then have "unat (saturating_add a 1) = 0" by simp
  then show False by (simp add: unat_saturating_add)
qed

lemma ledger_bump_wf:
  assumes "ledger_wf k" and "cohort_ok c" and "pending_cohort_drops k' = ledger_bump c (pending_cohort_drops k)"
  shows "ledger_wf k'"
  using assms
  by (auto simp: ledger_wf_def ledger_ok_def ledger_bump_def set_alist_update set_alist_delete
      distinct_alist_update saturating_succ_nonzero)

lemma accounted_only_counted: "only_counted w w' \<Longrightarrow> accounted w' c = accounted w c"
  by (auto simp: only_counted_def accounted_def keeps_frames_def)

lemma writer_inv_only_counted: "writer_inv cfg held w \<Longrightarrow> only_counted w w' \<Longrightarrow> writer_inv cfg held w'"
  by (auto simp: only_counted_def writer_inv_def keeps_frames_def queue_bytes_def ledger_wf_def
      ledger_ok_def)

lemma valid_cohort_ok: "is_valid_cohort_name n \<Longrightarrow> cohort_ok (CohortName n)"
  by (simp add: cohort_ok_def)

lemma receive_frame_inv:
  assumes step: "receive_frame rcfg now frame w = (control, w')" and inv: "writer_inv wcfg 0 w"
    and agree: "configs_agree rcfg wcfg" and len: "length frame \<le> rdc_max_frame_size rcfg"
  shows "writer_inv wcfg 0 w'"
  using step
proof (cases rule: receive_frame_cases)
  case rejected
  then show ?thesis using inv writer_inv_only_counted by blast
next
  case (queued h t e)
  have "event_ok wcfg e"
    using queued(1,2,4) len agree valid_cohort_ok
    by (auto simp: event_ok_def frame_of_cohort_def configs_agree_def)
  moreover have sel: "cs_queue w' = cs_queue w @ [e]" "cs_used w' = cs_used w + fe_memory e"
      "w_states w' = w_states w" "w_log w' = w_log w"
      "w_current_window_start w' = w_current_window_start w"
    and led: "pending_cohort_drops (cs_counters w') = pending_cohort_drops (cs_counters w)"
    using queued(6) by simp_all
  moreover have "cs_used w' \<le> wc_live_memory_bytes wcfg"
    using queued(5) agree sel(2) by (simp add: configs_agree_def)
  moreover have "ledger_wf (cs_counters w')"
    using inv led by (simp add: writer_inv_def ledger_wf_def ledger_ok_def)
  ultimately show ?thesis using inv by (simp add: writer_inv_def queue_bytes_def)
next
  case (dropped h t f)
  have p: "pending_cohort_drops (cs_counters w') =
      ledger_bump (CohortName (fh_name h)) (pending_cohort_drops (cs_counters w))"
    using dropped(4) by (elim disjE) (simp_all add: dropped(5))
  have "ledger_wf (cs_counters w)" using inv by (simp add: writer_inv_def)
  from ledger_bump_wf [OF this valid_cohort_ok [OF dropped(2)] p]
  have "ledger_wf (cs_counters w')" .
  moreover have "cs_queue w' = cs_queue w" "cs_used w' = cs_used w" "w_states w' = w_states w"
      "w_log w' = w_log w" "w_current_window_start w' = w_current_window_start w"
    by (simp_all add: dropped(5))
  ultimately show ?thesis using inv by (simp add: writer_inv_def queue_bytes_def)
qed

lemma queued_append: "cs_queue s' = cs_queue s @ [e] \<Longrightarrow>
    queued s' c = queued s c + (if fe_cohort e = c then 1 else 0)"
  by (simp add: queued_def)

lemma reader_turn_inv:
  assumes step: "reader_turn rcfg now stream w = (control, stream', w')"
    and inv: "writer_inv wcfg 0 w" and agree: "configs_agree rcfg wcfg"
  shows "writer_inv wcfg 0 w'"
proof -
  let ?w = "counted (\<lambda>c. c\<lparr>frames_read := frames_read c + 1\<rparr>) w"
  have "writer_inv wcfg 0 ?w"
    by (rule writer_inv_only_counted [OF inv only_countedI]) simp
  then show ?thesis
    using reader_turn_cases [OF step] writer_inv_only_counted [OF inv] receive_frame_inv [OF _ _ agree]
    by blast
qed

lemma receive_frame_admits:
  assumes step: "receive_frame rcfg now frame w = (control, w')" and inv: "writer_inv wcfg 0 w"
    and lt: "\<And>h. parse_frame_header frame = Inr h \<Longrightarrow> is_valid_cohort_name (fh_name h) \<Longrightarrow>
        is_ok (unix_micros_now now) \<Longrightarrow> accounted w (CohortName (fh_name h)) + 1 < 2 ^ 64"
  shows "accounted w' c + queued w' c = accounted w c + queued w c
     + (case parse_frame_header frame of Inl e \<Rightarrow> 0
        | Inr h \<Rightarrow> if is_ok (cohort_new (fh_name h)) \<and> is_ok (unix_micros_now now)
                      \<and> CohortName (fh_name h) = c then 1 else 0)"
  using step
proof (cases rule: receive_frame_cases)
  case rejected
  have "queued w' c = queued w c" using rejected(1) by (auto simp: only_counted_def queued_def)
  then show ?thesis using rejected accounted_only_counted [OF rejected(1), of c]
    by (auto split: sum.split)
next
  case (queued h t e)
  have "accounted w' c = accounted w c" using queued(6) by (simp add: accounted_def)
  moreover have "queued w' c = queued w c + (if CohortName (fh_name h) = c then 1 else 0)"
    using queued(4,6) by (subst queued_append [of w' w e]) simp_all
  ultimately show ?thesis
    using queued(1-3) by (auto simp: is_ok_iff cohort_new_Inr)
next
  case (dropped h t f)
  let ?c = "CohortName (fh_name h)"
  have "unat (ledger_get (pending_cohort_drops (cs_counters w)) ?c) < 2 ^ 64 - 1"
    using lt [OF dropped(1,2)] dropped(3) by (simp add: accounted_def)
  then have "unat (ledger_get (ledger_bump ?c (pending_cohort_drops (cs_counters w))) c) =
      unat (ledger_get (pending_cohort_drops (cs_counters w)) c) + (if c = ?c then 1 else 0)"
    using ledger.bump_counts [of "cs_counters w" ?c c] inv
    by (simp add: writer_inv_def ledger_wf_def record_pending_cohort_drop_def)
  then have "accounted w' c = accounted w c + (if c = ?c then 1 else 0)"
    using dropped(4,5) by (auto simp: accounted_def)
  moreover have "queued w' c = queued w c" using dropped(5) by (simp add: queued_def)
  ultimately show ?thesis
    using dropped(1-3) by (auto simp: is_ok_iff cohort_new_Inr)
qed

lemma reader_turn_admits:
  assumes step: "reader_turn rcfg now stream w = (control, stream', w')"
    and inv: "writer_inv wcfg 0 w"
    and lt: "\<And>k. turn_admits rcfg now stream = Some k \<Longrightarrow> accounted w k + 1 < 2 ^ 64"
  shows "accounted w' c + queued w' c =
           accounted w c + queued w c + (if turn_admits rcfg now stream = Some c then 1 else 0)"
proof -
  let ?w = "counted (\<lambda>c. c\<lparr>frames_read := frames_read c + 1\<rparr>) w"
  have oc: "only_counted w ?w" by (rule only_countedI) simp
  have inv': "writer_inv wcfg 0 ?w" by (rule writer_inv_only_counted [OF inv oc])
  have acc: "accounted ?w k = accounted w k" for k by (rule accounted_only_counted [OF oc])
  have q: "queued ?w c = queued w c" by (simp add: queued_def)
  from reader_turn_cases [OF step] show ?thesis
  proof
    assume "turn_frame rcfg stream = None \<and> only_counted w w'"
    then show ?thesis
      using accounted_only_counted [of w w' c]
      by (auto simp: turn_admits_def only_counted_def queued_def)
  next
    assume "\<exists>frame. turn_frame rcfg stream = Some frame \<and> length frame \<le> rdc_max_frame_size rcfg
          \<and> receive_frame rcfg now frame ?w = (control, w')"
    then obtain frame where f: "turn_frame rcfg stream = Some frame"
      and r: "receive_frame rcfg now frame ?w = (control, w')" by blast
    have "accounted ?w (CohortName (fh_name h)) + 1 < 2 ^ 64"
      if "parse_frame_header frame = Inr h" "is_valid_cohort_name (fh_name h)"
        "is_ok (unix_micros_now now)" for h
      using that lt [of "CohortName (fh_name h)"] acc
      by (simp add: turn_admits_def f is_ok_iff cohort_new_Inr)
    from receive_frame_admits [OF r inv' this, of c] show ?thesis
      by (auto simp: turn_admits_def f acc q split: sum.split)
  qed
qed

section \<open>The totals of valid frames\<close>

text \<open>Nothing the writer does to buffers and segments moves the four totals.\<close>

abbreviation totals :: "collector \<Rightarrow> u64 \<times> u64 \<times> u64 \<times> u64" where
  "totals w \<equiv> frame_counts (cs_counters w)"

lemma fold_pending_totals [simp]: "totals (fold_pending_drops c w) = totals w"
  by (simp add: fold_pending_drops_def take_pending_cohort_drops_def Let_def frame_counts_def)

lemma flush_failed_totals [simp]: "totals (flush_failed b r w) = totals w"
  by (simp add: flush_failed_def frame_counts_def)

lemma put_flush_totals [simp]: "totals (put_flush env b w) = totals w"
  by (simp add: put_flush_def Let_def frame_counts_def flush_failed_def
      split: sum.split prod.split put_outcome.split)

lemma take_flush_batch_counters: "cs_counters (snd (take_flush_batch cfg c start w)) = cs_counters w"
  by (simp add: take_flush_batch_def Let_def split: option.split)

lemma flush_cohort_totals [simp]: "totals (snd (flush_cohort cfg env c start w)) = totals w"
  using take_flush_batch_counters [of cfg c start "fold_pending_drops c w"]
    fold_pending_totals [of c w]
  by (auto simp: flush_cohort_def Let_def split: option.split prod.split)

lemma flush_list_totals:
  "totals (fold (\<lambda>c w. snd (flush_cohort cfg env c start w)) ks w) = totals w"
  by (induction ks arbitrary: w) simp_all

lemma flush_all_totals [simp]: "totals (flush_all cfg env start w) = totals w"
  by (simp add: flush_all_def flush_list_totals)

lemma fold_all_totals [simp]: "totals (fold_all_pending_drops w) = totals w"
proof -
  have "totals (fold receive_drops l w) = totals w" for l w
    by (induction l arbitrary: w) auto
  then show ?thesis
    by (simp add: fold_all_pending_drops_def take_all_pending_cohort_drops_def frame_counts_def)
qed

lemma flush_largest_totals [simp]: "totals (flush_largest_cohort cfg env w) = totals w"
  using flush_largest_cases [of cfg env w] by auto

lemma advance_totals [simp]: "totals (advance_to_receive_window cfg env t w) = totals w"
  by (simp add: advance_to_receive_window_def split: sum.split)

lemma close_window_totals [simp]: "totals (close_window cfg env now w) = totals w"
  by (simp add: close_window_def Let_def split: sum.split)

lemma finish_run_totals [simp]: "totals (finish_run cfg env w) = totals w"
  by (simp add: finish_run_def Let_def)

lemma frame_flush_totals [simp]:
  "totals (frame_cap_flush cfg env e w) = totals w" "totals (frame_live_flush cfg env w) = totals w"
  by (simp_all add: frame_cap_flush_def frame_live_flush_def)

lemma handle_frame_totals:
  "totals (handle_frame cfg env e w) =
     (case totals w of (valid, mem, chan, kept) \<Rightarrow> (valid, mem, chan, kept + 1))"
proof -
  have "totals (add_record e n v) = (case totals v of (valid, mem, chan, kept) \<Rightarrow> (valid, mem, chan, kept + 1))"
    for n v by (simp add: add_record_def frame_counts_def)
  then show ?thesis by (simp add: handle_frame_eq)
qed

definition balanced :: "collector \<Rightarrow> bool" where
  "balanced w \<longleftrightarrow>
     valid_frames_received (cs_counters w) =
       memory_dropped_frames (cs_counters w) + channel_dropped_frames (cs_counters w)
       + kept_frames (cs_counters w) + word_of_nat (length (cs_queue w))"

lemma balanced_totals:
  "balanced w \<longleftrightarrow> (case totals w of (valid, mem, chan, kept) \<Rightarrow>
      valid = mem + chan + kept + word_of_nat (length (cs_queue w)))"
  by (simp add: balanced_def frame_counts_def)

lemma balanced_only_counted: "balanced w \<Longrightarrow> only_counted w w' \<Longrightarrow> balanced w'"
  by (auto simp: balanced_totals only_counted_def keeps_frames_def)

lemma receive_frame_balanced:
  assumes step: "receive_frame rcfg now frame w = (control, w')" and b: "balanced w"
  shows "balanced w'"
  using step
proof (cases rule: receive_frame_cases)
  case rejected
  then show ?thesis using b balanced_only_counted by blast
next
  case (queued h t e)
  then show ?thesis using b by (simp add: balanced_def)
next
  case (dropped h t f)
  from dropped(4) show ?thesis
    by (elim disjE) (use b in \<open>simp_all add: dropped(5) balanced_def record_memory_drop_def
      record_channel_drop_def record_pending_cohort_drop_def\<close>)
qed

lemma reader_turn_balanced:
  assumes step: "reader_turn rcfg now stream w = (control, stream', w')" and b: "balanced w"
  shows "balanced w'"
proof -
  let ?w = "counted (\<lambda>c. c\<lparr>frames_read := frames_read c + 1\<rparr>) w"
  have "balanced ?w" by (rule balanced_only_counted [OF b only_countedI]) simp
  then show ?thesis
    using reader_turn_cases [OF step] balanced_only_counted [OF b] receive_frame_balanced by blast
qed

section \<open>Every reachable state\<close>

lemma collector_start_new:
  "collector_start c now = Inr (rcfg, wcfg, w) \<Longrightarrow> \<exists>cap. writer_new wcfg now cap = Inr w"
  by (auto simp: collector_start_def Let_def result_simps)

lemma collector_run_inv:
  "collector_run rcfg wcfg w g \<Longrightarrow> configs_agree rcfg wcfg \<and> writer_inv wcfg 0 w \<and> balanced w"
proof (induction rule: collector_run.induct)
  case (run_start c now w)
  obtain cap where "writer_new wcfg now cap = Inr w" using collector_start_new [OF run_start(2)] by blast
  note n = writer_new_inv [OF this]
  show ?case using collector_start_agrees [OF run_start(2,1)] n
    by (simp add: balanced_def counters_default_def)
next
  case (run_turn w g now stream control stream' w')
  then show ?case using reader_turn_inv reader_turn_balanced by blast
next
  case (run_recv w g env e q)
  let ?w = "w\<lparr>cs_queue := q\<rparr>"
  have cfg: "writer_config_ok wcfg" using run_recv by (simp add: configs_agree_def)
  have inv: "writer_inv wcfg (fe_memory e) ?w" and e: "event_ok wcfg e"
    using run_recv by (auto simp: writer_inv_def queue_bytes_def)
  have "balanced (handle_frame wcfg env e ?w)"
    using run_recv handle_frame_inv(2) [OF inv cfg run_recv(2) e] handle_frame_totals [of wcfg env e ?w]
    by (simp add: balanced_totals frame_counts_def)
  then show ?case using run_recv handle_frame_inv(1) [OF inv cfg run_recv(2) e] by blast
next
  case (run_timer w g env now)
  then have "writer_config_ok wcfg" by (simp add: configs_agree_def)
  then show ?case
    using run_timer close_window_inv [of wcfg 0 w env now] by (simp add: balanced_totals)
next
  case (run_finish w g env)
  then have "writer_config_ok wcfg" by (simp add: configs_agree_def)
  then show ?case
    using run_finish finish_run_inv [of wcfg 0 w env]
    by (simp add: balanced_totals writer_inv_def queue_bytes_def)
qed

lemma admit_mono: "g c \<le> admit k g c"
  by (simp add: admit_def split: option.split)

lemma collector_run_accounted:
  "collector_run rcfg wcfg w g \<Longrightarrow> (\<forall>c. g c < 2 ^ 64) \<Longrightarrow> accounted w c + queued w c = g c"
proof (induction arbitrary: c rule: collector_run.induct)
  case (run_start c' now w)
  obtain cap where "writer_new wcfg now cap = Inr w" using collector_start_new [OF run_start(2)] by blast
  then show ?case using writer_new_inv by (simp add: queued_def)
next
  case (run_turn w g now stream control stream' w')
  have g: "\<forall>c. g c < 2 ^ 64" using run_turn.prems admit_mono le_less_trans by blast
  note i = collector_run_inv [OF run_turn.hyps(1)]
  note IH = run_turn.IH [OF g]
  have old: "accounted w k + queued w k = g k" for k by (rule IH)
  have "accounted w k + 1 < 2 ^ 64" if "turn_admits rcfg now stream = Some k" for k
    using run_turn.prems [rule_format, of k] old [of k] that by (simp add: admit_def)
  then show ?case
    using reader_turn_admits [OF run_turn.hyps(2), of wcfg c] i old [of c]
    by (auto simp: admit_def split: option.split)
next
  case (run_recv w g env e q)
  let ?w = "w\<lparr>cs_queue := q\<rparr>"
  note i = collector_run_inv [OF run_recv.hyps(1)]
  have cfg: "writer_config_ok wcfg" using i by (simp add: configs_agree_def)
  have inv: "writer_inv wcfg (fe_memory e) ?w" and e: "event_ok wcfg e"
    using i run_recv.hyps(3) by (auto simp: writer_inv_def queue_bytes_def)
  have acc: "accounted ?w k = accounted w k" for k by (simp add: accounted_def)
  have q: "queued w k = queued ?w k + (if k = fe_cohort e then 1 else 0)" for k
    using run_recv.hyps(3) by (auto simp: queued_def)
  have "accounted ?w k + (if k = fe_cohort e then 1 else 0) < 2 ^ 64" for k
    using run_recv.IH [OF run_recv.prems, of k] run_recv.prems [rule_format, of k] acc [of k] q [of k]
    by linarith
  then have "accounted (handle_frame wcfg env e ?w) c =
      accounted ?w c + (if c = fe_cohort e then 1 else 0)"
    by (intro handle_frame_accounted [OF inv cfg run_recv.hyps(2) e]) blast
  moreover have "queued (handle_frame wcfg env e ?w) c = queued ?w c"
    using handle_frame_inv(2) [OF inv cfg run_recv.hyps(2) e] by (simp add: queued_def)
  ultimately show ?case
    using run_recv.IH [OF run_recv.prems, of c] acc [of c] q [of c] by linarith
next
  case (run_timer w g env now)
  note i = collector_run_inv [OF run_timer.hyps(1)]
  have cfg: "writer_config_ok wcfg" using i by (simp add: configs_agree_def)
  have lt: "accounted w k < 2 ^ 64" for k
    using run_timer.IH [OF run_timer.prems, of k] run_timer.prems [rule_format, of k] by linarith
  then show ?case
    using close_window_accounted [of wcfg 0 w env now c] close_window_inv(3) [of wcfg 0 w env now]
      i cfg run_timer.IH [OF run_timer.prems, of c] run_timer.hyps(2)
    by (simp add: queued_def)
next
  case (run_finish w g env)
  note i = collector_run_inv [OF run_finish.hyps(1)]
  have cfg: "writer_config_ok wcfg" using i by (simp add: configs_agree_def)
  have lt: "accounted w k < 2 ^ 64" for k
    using run_finish.IH [OF run_finish.prems, of k] run_finish.prems [rule_format, of k] by linarith
  have "accounted ((finish_run wcfg env w)\<lparr>cs_receiver_closed := True\<rparr>) c = accounted w c"
    using finish_run_accounted [of wcfg 0 w env c] i cfg lt by (simp add: accounted_def)
  then show ?case
    using finish_run_inv(3) [of wcfg 0 w env] i cfg run_finish.IH [OF run_finish.prems, of c]
      run_finish.hyps(2,3)
    by (simp add: queued_def)
qed

section \<open>Draining\<close>

lemma flush_cohort_ledger_Nil:
  assumes inv: "writer_inv cfg held w" and cfg: "writer_config_ok cfg"
    and nil: "pending_cohort_drops (cs_counters w) = []"
  shows "pending_cohort_drops (cs_counters
           (snd (flush_cohort cfg env c (w_current_window_start w) w))) = []"
proof -
  have f: "pending_cohort_drops (cs_counters (fold_pending_drops c w)) = []"
    using nil by (simp add: fold_pending_drops_def take_pending_cohort_drops_def Let_def)
  show ?thesis
  proof (cases "states_get (fold_pending_drops c w) c")
    case None
    then show ?thesis using f by (simp add: flush_cohort_None)
  next
    case (Some st)
    then show ?thesis
      using f flush_cohort_Some [OF inv cfg Some, of env
          "fst (flush_cohort cfg env c (w_current_window_start w) w)"
          "snd (flush_cohort cfg env c (w_current_window_start w) w)"] by auto
  qed
qed

lemma flush_list_ledger_Nil:
  assumes "writer_inv cfg held w" and cfg: "writer_config_ok cfg"
    and "w_current_window_start w = start" and "pending_cohort_drops (cs_counters w) = []"
  shows "pending_cohort_drops (cs_counters
           (fold (\<lambda>c w. snd (flush_cohort cfg env c start w)) ks w)) = []"
  using assms(1,3,4)
proof (induction ks arbitrary: w)
  case (Cons k ks)
  note one = flush_cohort_inv [OF Cons.prems(1) cfg, of env k, unfolded Cons.prems(2)]
  show ?case
    using Cons.IH [OF one(1,2)] flush_cohort_ledger_Nil [OF Cons.prems(1) cfg Cons.prems(3), of env k]
      Cons.prems(2) by simp
qed simp

lemma finish_run_ledger_Nil:
  assumes inv: "writer_inv cfg held w" and cfg: "writer_config_ok cfg"
  shows "pending_cohort_drops (cs_counters (finish_run cfg env w)) = []"
proof -
  note f = fold_all_pending_drops_inv [OF inv]
  have "cs_counters (fold receive_drops l v) = cs_counters v" for l v
    by (induction l arbitrary: v) auto
  then have "pending_cohort_drops (cs_counters (fold_all_pending_drops w)) = []"
    by (simp add: fold_all_pending_drops_def take_all_pending_cohort_drops_def)
  then show ?thesis
    using flush_list_ledger_Nil [OF f(1) cfg refl]
    by (simp add: finish_run_def Let_def flush_all_def)
qed

section \<open>An example run\<close>

text \<open>The default configuration, one connection that sends a frame of cohort \<open>prod\<close>.\<close>

definition example_config :: collector_config where
  "example_config = collector_config_default ''/data''"

definition example_rcfg :: reader_config where
  "example_rcfg = reader_config_of example_config (268435456 - (33554432 + 309))"

definition example_wcfg :: writer_config where
  "example_wcfg = writer_config_of example_config (268435456 - (33554432 + 309))"

definition example_frame :: "u8 list" where
  "example_frame = encode_frame \<lparr>fh_frame_len = 32, fh_dtype = 1, fh_name_len = 4,
     fh_dimension = 1, fh_vector_len = 4, fh_name = ''prod''\<rparr> [0, 0, 128, 63]"

definition example_stream :: stream where
  "example_stream = \<lparr>st_bytes = example_frame, st_end = End_Eof\<rparr>"

definition example_env :: writer_env where
  "example_env = \<lparr>we_order = (\<lambda>ks. ks), we_put = (\<lambda>n. (''01H'', Put_ok))\<rparr>"

definition example_start :: collector where
  "example_start = \<lparr>cs_counters = counters_default, cs_used = 0, cs_queue = [],
     cs_capacity = 2048, cs_receiver_closed = False, w_states = [],
     w_current_window_start = 0, w_log = []\<rparr>"

definition example_event :: frame_event where
  "example_event = \<lparr>fe_cohort = CohortName ''prod'', fe_receive_time = 61000000,
     fe_frame = example_frame, fe_memory = 44\<rparr>"

definition example_queued :: collector where
  "example_queued = snd (snd (reader_turn example_rcfg (Some (61, 0)) example_stream example_start))"

definition example_kept :: collector where
  "example_kept = handle_frame example_wcfg example_env example_event
     (example_queued\<lparr>cs_queue := []\<rparr>)"

definition example_count :: "cohort_name \<Rightarrow> nat" where
  "example_count = (\<lambda>c. if c = CohortName ''prod'' then 1 else 0)"

lemma example_env_ok: "writer_env_ok example_env"
  by (simp add: writer_env_ok_def example_env_def)

lemma example_run_start: "collector_run example_rcfg example_wcfg example_start (\<lambda>_. 0)"
proof (rule run_start)
  have "live_memory_bytes example_config = Inr (268435456 - (33554432 + 309))"
    by (simp add: example_config_def collector_config_default_def result_simps usize_bound_def)
  moreover have "validate_collector_config example_config = Inr ()"
    by (simp add: example_config_def collector_config_default_ok)
  moreover have "cc_window_seconds example_config = 600" "cc_channel_capacity example_config = 2048"
    by (simp_all add: example_config_def collector_config_default_def)
  ultimately show "collector_start example_config (Some (61, 0)) =
      Inr (example_rcfg, example_wcfg, example_start)"
    by (simp add: collector_start_def example_rcfg_def example_wcfg_def writer_new_def
        unix_seconds_now_def aligned_window_start_def writer_config_of_def example_start_def Let_def)
qed (simp add: example_config_def collector_config_default_def usize_bound_def)

lemma example_frame_parses:
  "parse_frame_header example_frame = Inr \<lparr>fh_frame_len = 32, fh_dtype = 1, fh_name_len = 4,
     fh_dimension = 1, fh_vector_len = 4, fh_name = ''prod''\<rparr>"
  unfolding example_frame_def
  by (rule parse_encode_frame) (simp add: frame_wf_def utf8_valid_str_bytes is_ascii_def)

lemma example_cohort: "cohort_new ''prod'' = Inr (CohortName ''prod'')"
  by (simp add: cohort_new_Inr is_valid_cohort_name_iff is_ascii_def cohort_segment_def
      is_allowed_segment_byte_def)

lemma example_frame_length: "length example_frame = 36"
  by (simp add: example_frame_def encode_frame_def)

lemma example_turn_frame: "turn_frame example_rcfg example_stream = Some example_frame"
proof -
  have "take 4 example_frame = u32_to_le_bytes 32"
    by (simp add: example_frame_def encode_frame_def)
  then show ?thesis
    by (simp add: turn_frame_def example_stream_def example_frame_length example_rcfg_def
        reader_config_of_def example_config_def collector_config_default_def Let_def)
qed

lemma example_micros: "unix_micros_now (Some (61, 0)) = Inr 61000000"
  by (simp add: unix_micros_now_Inr)

lemma example_admits: "admit (turn_admits example_rcfg (Some (61, 0)) example_stream) (\<lambda>_. 0) = example_count"
  by (auto simp: turn_admits_def example_turn_frame example_frame_parses example_cohort
      example_micros admit_def example_count_def)

lemma example_turn:
  "\<exists>stream'. reader_turn example_rcfg (Some (61, 0)) example_stream example_start
     = (Next_turn, stream', example_queued)"
  and example_queue: "cs_queue example_queued = [example_event]"
proof -
  obtain control stream' where step: "reader_turn example_rcfg (Some (61, 0)) example_stream
      example_start = (control, stream', example_queued)"
    by (metis example_queued_def prod.collapse)
  let ?w = "counted (\<lambda>c. c\<lparr>frames_read := frames_read c + 1\<rparr>) example_start"
  have r: "receive_frame example_rcfg (Some (61, 0)) example_frame ?w = (control, example_queued)"
    using reader_turn_cases [OF step] by (simp add: example_turn_frame)
  have live: "rdc_live_memory_bytes example_rcfg = 234880715"
    by (simp add: example_rcfg_def reader_config_of_def)
  have eval: "receive_frame example_rcfg (Some (61, 0)) example_frame ?w = (Next_turn,
      (counted (\<lambda>c. c\<lparr>valid_frames_received := valid_frames_received c + 1\<rparr>) ?w)
        \<lparr>cs_used := 44, cs_queue := [example_event]\<rparr>)"
    by (simp add: receive_frame_def example_frame_parses example_cohort example_micros
        example_frame_length try_reserve_def reserve_next_def usize_add_def usize_bound_def live
        example_start_def try_send_def example_event_def counted_def)
  show "\<exists>stream'. reader_turn example_rcfg (Some (61, 0)) example_stream example_start
     = (Next_turn, stream', example_queued)"
    using step r eval by simp
  have "example_queued = (counted (\<lambda>c. c\<lparr>valid_frames_received := valid_frames_received c + 1\<rparr>) ?w)
        \<lparr>cs_used := 44, cs_queue := [example_event]\<rparr>"
    using r eval by simp
  from arg_cong [OF this, of cs_queue] show "cs_queue example_queued = [example_event]"
    by simp
qed

lemma example_run_queued: "collector_run example_rcfg example_wcfg example_queued example_count"
  using run_turn [OF example_run_start] example_turn example_admits by metis

lemma example_run_kept: "collector_run example_rcfg example_wcfg example_kept example_count"
  unfolding example_kept_def
  by (rule run_recv [OF example_run_queued example_env_ok]) (simp add: example_queue)

definition example_finished :: collector where
  "example_finished = (finish_run example_wcfg example_env example_kept)\<lparr>cs_receiver_closed := True\<rparr>"

lemma example_kept_queue: "cs_queue example_kept = []"
proof -
  have i: "configs_agree example_rcfg example_wcfg" "writer_inv example_wcfg 0 example_queued"
    using collector_run_inv [OF example_run_queued] by blast+
  have cfg: "writer_config_ok example_wcfg" using i by (simp add: configs_agree_def)
  have "writer_inv example_wcfg (fe_memory example_event) (example_queued\<lparr>cs_queue := []\<rparr>)"
    "event_ok example_wcfg example_event"
    using i(2) by (auto simp: writer_inv_def queue_bytes_def example_queue)
  from handle_frame_inv(2) [OF this(1) cfg example_env_ok this(2)]
  show ?thesis by (simp add: example_kept_def)
qed

lemma example_run_finished:
  "collector_run example_rcfg example_wcfg example_finished example_count"
  unfolding example_finished_def
  by (rule run_finish [OF example_run_kept example_env_ok example_kept_queue])

section \<open>Properties\<close>

text \<open>
  C5. Memory. In every reachable state of the collector the tracker's counter is exactly the bytes
  of the queued frames plus those of the buffered records, it never exceeds the live budget of the
  configuration, and no cohort's buffer exceeds the per-cohort cap.
\<close>

theorem collector_memory_exact:
  assumes "collector_run rcfg wcfg w g"
  shows "cs_used w = queue_bytes w + alist_sum co_bytes (w_states w)
     \<and> cs_used w \<le> wc_live_memory_bytes wcfg
     \<and> (\<forall>(c, st) \<in> set (w_states w). co_bytes st \<le> wc_per_cohort_memory_bytes wcfg
          \<and> co_bytes st = sum_list (map br_memory (co_records st)))"
  using collector_run_inv [OF assms] by (auto simp: writer_inv_def buffer_ok_def)

theorem collector_memory_exact_witness:
  "cs_used example_kept = queue_bytes example_kept + alist_sum co_bytes (w_states example_kept)
     \<and> cs_used example_kept \<le> wc_live_memory_bytes example_wcfg
     \<and> list_all (\<lambda>(c, st). co_bytes st \<le> wc_per_cohort_memory_bytes example_wcfg
          \<and> co_bytes st = sum_list (map br_memory (co_records st))) (w_states example_kept)"
  using collector_memory_exact [OF example_run_kept] by (simp add: list_all_iff)

text \<open>
  C1. Accounting. For every cohort, the valid frames received so far are exactly the frames counted
  in its flushed segments' headers, in its buffer, in its pending drops, and in the channel: every
  frame the collector sheds still shows up in a segment's received count, and none is counted twice.
  The counts are below the 64-bit limit at which they would saturate.
\<close>

theorem collector_accounts_every_frame:
  assumes "collector_run rcfg wcfg w g" and "\<forall>c. g c < 2 ^ 64"
  shows "g c = log_received (w_log w) c
     + alist_at (\<lambda>st. unat (co_received st)) (w_states w) c
     + unat (ledger_get (pending_cohort_drops (cs_counters w)) c) + queued w c"
  using collector_run_accounted [OF assms, of c] by (simp add: accounted_def)

theorem collector_accounts_every_frame_witness:
  "example_count (CohortName ''prod'') = log_received (w_log example_kept) (CohortName ''prod'')
     + alist_at (\<lambda>st. unat (co_received st)) (w_states example_kept) (CohortName ''prod'')
     + unat (ledger_get (pending_cohort_drops (cs_counters example_kept)) (CohortName ''prod''))
     + queued example_kept (CohortName ''prod'')"
  by (rule collector_accounts_every_frame [OF example_run_kept]) (simp add: example_count_def)

text \<open>
  C7. Shutdown. Once the channel is drained and the writer has finished, every valid frame of every
  cohort is in the received count of a flush attempt for that cohort, no buffer is left and all
  memory has been given back.
\<close>

theorem finished_run_flushes_everything:
  assumes "collector_run rcfg wcfg w g" and "\<forall>c. g c < 2 ^ 64" and "writer_env_ok env"
    and "cs_queue w = []"
  shows "log_received (w_log (finish_run wcfg env w)) c = g c
     \<and> w_states (finish_run wcfg env w) = [] \<and> cs_used (finish_run wcfg env w) = 0"
proof -
  let ?f = "finish_run wcfg env w"
  have cfg: "writer_config_ok wcfg" and inv: "writer_inv wcfg 0 w"
    using collector_run_inv [OF assms(1)] by (auto simp: configs_agree_def)
  note fi = finish_run_inv [OF inv cfg assms(3)]
  have "collector_run rcfg wcfg (?f\<lparr>cs_receiver_closed := True\<rparr>) g"
    by (rule run_finish [OF assms(1,3,4)])
  from collector_run_accounted [OF this assms(2), of c]
  have "accounted ?f c = g c" using fi(3) assms(4) by (simp add: accounted_def queued_def)
  then show ?thesis
    using fi assms(4) finish_run_ledger_Nil [OF inv cfg, of env]
    by (simp add: accounted_def alist_at_def ledger_get_def writer_inv_def queue_bytes_def)
qed

theorem finished_run_flushes_everything_witness:
  "log_received (w_log (finish_run example_wcfg example_env example_kept)) (CohortName ''prod'')
       = example_count (CohortName ''prod'')
     \<and> w_states (finish_run example_wcfg example_env example_kept) = []
     \<and> cs_used (finish_run example_wcfg example_env example_kept) = 0"
  by (rule finished_run_flushes_everything [OF example_run_kept _ example_env_ok example_kept_queue])
    (simp add: example_count_def)

text \<open>
  C6. Segments. Every flush the writer ever attempts was serialized under a valid key: its bytes
  read back as the logged header and records, the header's record count is the number of records
  and not above the received count, every record's frame parses and names the header's cohort, and
  no record was received after the header's window.
\<close>

theorem every_flush_is_a_segment:
  assumes "collector_run rcfg wcfg w g" and "f \<in> set (w_log w)"
  shows "flush_ok wcfg f"
  using collector_run_inv [OF assms(1)] assms(2) by (simp add: writer_inv_def)

theorem every_flush_is_a_segment_witness:
  "w_log example_finished \<noteq> [] \<and> flush_ok example_wcfg (hd (w_log example_finished))"
proof -
  have "log_received (w_log example_finished) (CohortName ''prod'') = 1"
  proof -
    have cfg: "writer_config_ok example_wcfg" and inv: "writer_inv example_wcfg 0 example_kept"
      using collector_run_inv [OF example_run_kept] by (auto simp: configs_agree_def)
    note fi = finish_run_inv [OF inv cfg example_env_ok]
    have "accounted example_finished (CohortName ''prod'') = 1"
      using collector_run_accounted [OF example_run_finished, of "CohortName ''prod''"]
        fi(3) example_kept_queue
      by (simp add: example_count_def queued_def example_finished_def)
    then show ?thesis
      using fi finish_run_ledger_Nil [OF inv cfg, of example_env]
      by (simp add: accounted_def alist_at_def ledger_get_def example_finished_def)
  qed
  then have ne: "w_log example_finished \<noteq> []" by (auto simp: log_received_def)
  then have "hd (w_log example_finished) \<in> set (w_log example_finished)" by simp
  from every_flush_is_a_segment [OF example_run_finished this] ne show ?thesis by blast
qed

text \<open>
  C36. Totals. In every reachable state the counter of valid frames equals, as 64-bit words, the
  memory drops plus the channel drops plus the kept frames plus the frames still in the channel.
\<close>

theorem valid_frames_balance:
  assumes "collector_run rcfg wcfg w g"
  shows "valid_frames_received (cs_counters w) =
     memory_dropped_frames (cs_counters w) + channel_dropped_frames (cs_counters w)
     + kept_frames (cs_counters w) + word_of_nat (length (cs_queue w))"
  using collector_run_inv [OF assms] by (simp add: balanced_def)

theorem valid_frames_balance_witness:
  "valid_frames_received (cs_counters example_queued) =
     memory_dropped_frames (cs_counters example_queued) + channel_dropped_frames (cs_counters example_queued)
     + kept_frames (cs_counters example_queued) + word_of_nat (length (cs_queue example_queued))"
  by (rule valid_frames_balance [OF example_run_queued])

end
