(* ===== verification/RecServer.thy ===== *)
theory RecServer
  imports RecConfig Cohort "HOL-Library.Sublist"
begin

text \<open>
  The recommendation server (\<open>vectorseam-recommendation-server/src/lib.rs\<close>): loading a cohort's
  effective recommendation from the object store, the request handler over its two caches and the
  coalesced load, and the bounded accept loop. The object store's answer, the JSON decoder and the
  contents a cache still holds are arguments or steps of the environment; the caches' time and
  capacity limits appear as evictions that may happen at any moment.
\<close>

section \<open>Loading\<close>

record latest_round =
  lr_format_version :: u32
  lr_cohort :: string
  lr_effective :: "int option"

datatype permanent_defect =
    TooLarge string u64
  | Malformed string string
  | UnsupportedFormat string u32
  | CohortMismatch string string string
  | InvalidEf string int

datatype negative_lookup = Missing | Defect permanent_defect

datatype cached_lookup = Found int | Negative negative_lookup

datatype transient_lookup_error =
    Get_failed string string
  | Body_failed string string
  | Lookup_timeout string duration

text \<open>The store's answer to a GET: not found, an error, or a size with the streamed body.\<close>

datatype get_result =
    Get_not_found
  | Get_error string
  | Get_ok u64 "string + u8 list"

definition latest_path :: "cohort_name \<Rightarrow> string" where
  "latest_path cohort = ''calibrations/'' @ as_str cohort @ ''/latest.json''"

text \<open>
  \<open>is_char_boundary\<close>: an end of the string, or a byte that is not a UTF-8 continuation byte.
\<close>

definition is_char_boundary :: "u8 list \<Rightarrow> nat \<Rightarrow> bool" where
  "is_char_boundary bs i \<longleftrightarrow>
     i = 0 \<or> i = length bs \<or> (i < length bs \<and> \<not> utf8_cont (bs ! i))"

function last_boundary :: "u8 list \<Rightarrow> nat \<Rightarrow> nat" where
  "last_boundary bs i = (if is_char_boundary bs i then i else last_boundary bs (i - 1))"
  by pat_completeness auto
termination
  by (relation "measure snd") (auto simp: is_char_boundary_def)

declare last_boundary.simps [simp del]

definition truncate_cohort_diagnostic :: "u8 list \<Rightarrow> u8 list" where
  "truncate_cohort_diagnostic cohort =
     (if length cohort \<le> MAX_COHORT_NAME_BYTES then cohort
      else take (last_boundary cohort MAX_COHORT_NAME_BYTES) cohort)"

definition load_effective_ef ::
  "(u8 list \<Rightarrow> string + latest_round) \<Rightarrow> get_result \<Rightarrow> cohort_name
     \<Rightarrow> transient_lookup_error + cached_lookup" where
  "load_effective_ef from_slice get cohort =
     (let path = latest_path cohort in
      case get of
        Get_not_found \<Rightarrow> Inr (Negative Missing)
      | Get_error source \<Rightarrow> Inl (Get_failed path source)
      | Get_ok meta_size body \<Rightarrow>
          if LATEST_JSON_MAX_BYTES < meta_size then Inr (Negative (Defect (TooLarge path meta_size)))
          else
          (case body of
             Inl source \<Rightarrow> Inl (Body_failed path source)
           | Inr bytes \<Rightarrow>
          (case from_slice bytes of
             Inl reason \<Rightarrow> Inr (Negative (Defect (Malformed path reason)))
           | Inr latest \<Rightarrow>
               if lr_format_version latest \<noteq> 1
               then Inr (Negative (Defect (UnsupportedFormat path (lr_format_version latest))))
               else if lr_cohort latest \<noteq> as_str cohort
               then Inr (Negative (Defect (CohortMismatch path (as_str cohort)
                      (bytes_str (truncate_cohort_diagnostic (str_bytes (lr_cohort latest)))))))
               else
               (case lr_effective latest of
                  None \<Rightarrow> Inr (Negative Missing)
                | Some ef \<Rightarrow>
                    if \<not> (MIN_EF_SEARCH \<le> ef \<and> ef \<le> MAX_EF_SEARCH)
                    then Inr (Negative (Defect (InvalidEf path ef)))
                    else Inr (Found ef)))))"

text \<open>The lookup deadline: the load finished in time, or the timer won.\<close>

definition load_with_timeout ::
  "(u8 list \<Rightarrow> string + latest_round) \<Rightarrow> get_result \<Rightarrow> cohort_name \<Rightarrow> duration \<Rightarrow> bool
     \<Rightarrow> transient_lookup_error + cached_lookup" where
  "load_with_timeout from_slice get cohort timeout elapsed =
     (if elapsed then Inl (Lookup_timeout (latest_path cohort) timeout)
      else load_effective_ef from_slice get cohort)"

section \<open>The request handler\<close>

datatype response =
    Ok_text string
  | Status nat

definition negative_response :: "negative_lookup \<Rightarrow> response" where
  "negative_response n = (case n of Missing \<Rightarrow> Status 404 | Defect d \<Rightarrow> Status 500)"

text \<open>
  The caches as what they hold now; \<open>as_permits\<close> are the load permits nobody holds, and
  \<open>as_lookup_timeout\<close> is the configured deadline.
\<close>

record app_state =
  as_recommendations :: "cohort_name \<Rightarrow> int option"
  as_negative :: "cohort_name \<Rightarrow> negative_lookup option"
  as_coalesced :: "cohort_name \<Rightarrow> cached_lookup option"
  as_permits :: nat
  as_lookup_timeout :: duration

definition app_state_new :: "rec_config \<Rightarrow> app_state" where
  "app_state_new c =
     \<lparr>as_recommendations = Map.empty, as_negative = Map.empty, as_coalesced = Map.empty,
      as_permits = rc_max_concurrent_requests c, as_lookup_timeout = rc_lookup_timeout c\<rparr>"

text \<open>
  A request up to its await on the coalesced load: it is answered at once, or it holds a permit and
  waits for the load of its cohort.
\<close>

datatype request_start = Answered response | Loading cohort_name

definition get_ef_search_start :: "string \<Rightarrow> app_state \<Rightarrow> request_start \<times> app_state" where
  "get_ef_search_start raw_cohort s =
     (case cohort_new raw_cohort of
        Inl e \<Rightarrow> (Answered (Status 400), s)
      | Inr cohort \<Rightarrow>
     (case as_recommendations s cohort of
        Some ef_search \<Rightarrow> (Answered (Ok_text (show_int ef_search)), s)
      | None \<Rightarrow>
     (case as_negative s cohort of
        Some negative \<Rightarrow> (Answered (negative_response negative), s)
      | None \<Rightarrow>
          if as_permits s = 0 then (Answered (Status 503), s)
          else (Loading cohort, s\<lparr>as_permits := as_permits s - 1\<rparr>))))"

text \<open>
  \<open>try_get_with\<close>: an entry that is still held, or the value of one load shared by the waiters,
  which is kept only when the load succeeded.
\<close>

definition try_get_with ::
  "cohort_name \<Rightarrow> transient_lookup_error + cached_lookup \<Rightarrow> app_state
     \<Rightarrow> (transient_lookup_error + cached_lookup) \<times> app_state" where
  "try_get_with cohort load s =
     (case as_coalesced s cohort of
        Some v \<Rightarrow> (Inr v, s)
      | None \<Rightarrow>
          (case load of
             Inl e \<Rightarrow> (Inl e, s)
           | Inr v \<Rightarrow> (Inr v, s\<lparr>as_coalesced := (as_coalesced s)(cohort \<mapsto> v)\<rparr>)))"

definition get_ef_search_finish ::
  "cohort_name \<Rightarrow> transient_lookup_error + cached_lookup \<Rightarrow> app_state \<Rightarrow> response \<times> app_state" where
  "get_ef_search_finish cohort load s =
     (case try_get_with cohort load s of (loaded, s) \<Rightarrow>
      (let s' = s\<lparr>as_permits := as_permits s + 1\<rparr> in
      case loaded of
        Inr (Found ef_search) \<Rightarrow>
          (Ok_text (show_int ef_search),
           s'\<lparr>as_recommendations := (as_recommendations s)(cohort \<mapsto> ef_search)\<rparr>)
      | Inr (Negative negative) \<Rightarrow>
          (negative_response negative,
           s'\<lparr>as_negative := (as_negative s)(cohort \<mapsto> negative)\<rparr>)
      | Inl e \<Rightarrow> (Status 503, s')))"

section \<open>The running server\<close>

text \<open>
  The server as a system: the state, the requests that are waiting for a load, the answers of the
  object store to GETs so far, and the responses sent. A load completes with the store's current
  answer; the caches may forget any entry at any time.
\<close>

record rec_system =
  sys_app :: app_state
  sys_waiting :: "cohort_name list"
  sys_answers :: "(cohort_name \<times> get_result) list"
  sys_responses :: "(string \<times> response) list"

inductive rec_step ::
  "(u8 list \<Rightarrow> string + latest_round) \<Rightarrow> rec_system \<Rightarrow> rec_system \<Rightarrow> bool"
  for from_slice where
  request_answered: "get_ef_search_start raw (sys_app s) = (Answered r, a) \<Longrightarrow>
    rec_step from_slice s (s\<lparr>sys_app := a, sys_responses := (raw, r) # sys_responses s\<rparr>)"
| request_loading: "get_ef_search_start raw (sys_app s) = (Loading c, a) \<Longrightarrow>
    rec_step from_slice s (s\<lparr>sys_app := a, sys_waiting := c # sys_waiting s\<rparr>)"
| load_done: "sys_waiting s = ws1 @ c # ws2 \<Longrightarrow>
    get_ef_search_finish c
      (load_with_timeout from_slice answer c (as_lookup_timeout (sys_app s)) elapsed) (sys_app s)
      = (r, a) \<Longrightarrow>
    rec_step from_slice s
      (s\<lparr>sys_app := a, sys_waiting := ws1 @ ws2, sys_answers := (c, answer) # sys_answers s,
         sys_responses := (as_str c, r) # sys_responses s\<rparr>)"
| request_cancelled: "sys_waiting s = ws1 @ c # ws2 \<Longrightarrow>
    rec_step from_slice s
      (s\<lparr>sys_app := (sys_app s)\<lparr>as_permits := as_permits (sys_app s) + 1\<rparr>,
         sys_waiting := ws1 @ ws2\<rparr>)"
| evict: "recs \<subseteq>\<^sub>m as_recommendations (sys_app s) \<Longrightarrow> negs \<subseteq>\<^sub>m as_negative (sys_app s) \<Longrightarrow>
    coal \<subseteq>\<^sub>m as_coalesced (sys_app s) \<Longrightarrow>
    rec_step from_slice s
      (s\<lparr>sys_app := (sys_app s)\<lparr>as_recommendations := recs, as_negative := negs,
                       as_coalesced := coal\<rparr>\<rparr>)"

inductive rec_reachable ::
  "rec_config \<Rightarrow> (u8 list \<Rightarrow> string + latest_round) \<Rightarrow> rec_system \<Rightarrow> bool"
  for c from_slice where
  rec_init: "rec_validate_config c = Inr () \<Longrightarrow>
    rec_reachable c from_slice
      \<lparr>sys_app = app_state_new c, sys_waiting = [], sys_answers = [], sys_responses = []\<rparr>"
| rec_next: "rec_reachable c from_slice s \<Longrightarrow> rec_step from_slice s t \<Longrightarrow> rec_reachable c from_slice t"

text \<open>
  An answer of the store that carries a recommendation for the cohort: a document of format 1 for
  that very cohort whose effective value is in range.
\<close>

definition recommends :: "(u8 list \<Rightarrow> string + latest_round) \<Rightarrow> get_result \<Rightarrow> cohort_name \<Rightarrow> int \<Rightarrow> bool" where
  "recommends from_slice answer cohort ef \<longleftrightarrow>
     (\<exists>meta_size bytes latest. answer = Get_ok meta_size (Inr bytes) \<and> meta_size \<le> LATEST_JSON_MAX_BYTES
        \<and> from_slice bytes = Inr latest \<and> lr_format_version latest = 1
        \<and> lr_cohort latest = as_str cohort \<and> lr_effective latest = Some ef
        \<and> 1 \<le> ef \<and> ef \<le> 1000)"

section \<open>Facts\<close>

lemmas rec_consts = MIN_EF_SEARCH_def MAX_EF_SEARCH_def

lemma load_effective_ef_Found:
  "load_effective_ef from_slice get c = Inr (Found ef) \<longleftrightarrow> recommends from_slice get c ef"
  by (auto simp: load_effective_ef_def recommends_def Let_def rec_consts linorder_not_less
      split: get_result.splits sum.splits option.splits if_splits)

lemma load_with_timeout_Found:
  "load_with_timeout from_slice get c d el = Inr (Found ef) \<longleftrightarrow>
     \<not> el \<and> recommends from_slice get c ef"
  by (simp add: load_with_timeout_def load_effective_ef_Found)

lemma show_int_nonneg: "0 \<le> i \<Longrightarrow> show_int i = show_nat (nat i)"
  by (simp add: show_int_def)

definition sourced :: "(u8 list \<Rightarrow> string + latest_round) \<Rightarrow> rec_system \<Rightarrow> cohort_name \<Rightarrow> int \<Rightarrow> bool" where
  "sourced from_slice s c ef \<longleftrightarrow>
     (\<exists>answer. (c, answer) \<in> set (sys_answers s) \<and> recommends from_slice answer c ef)"

definition rec_inv :: "rec_config \<Rightarrow> (u8 list \<Rightarrow> string + latest_round) \<Rightarrow> rec_system \<Rightarrow> bool" where
  "rec_inv c from_slice s \<longleftrightarrow>
     (\<forall>k ef. as_recommendations (sys_app s) k = Some ef \<longrightarrow> sourced from_slice s k ef)
     \<and> (\<forall>k ef. as_coalesced (sys_app s) k = Some (Found ef) \<longrightarrow> sourced from_slice s k ef)
     \<and> as_permits (sys_app s) + length (sys_waiting s) = rc_max_concurrent_requests c
     \<and> (\<forall>(raw, r) \<in> set (sys_responses s). \<forall>t. r = Ok_text t \<longrightarrow>
          (\<exists>ef. t = show_int ef \<and> is_valid_cohort_name raw \<and> sourced from_slice s (CohortName raw) ef))
     \<and> (\<forall>k \<in> set (sys_waiting s). cohort_ok k)"

lemma sourced_mono:
  "sourced f s c ef \<Longrightarrow> set (sys_answers s) \<subseteq> set (sys_answers t) \<Longrightarrow> sourced f t c ef"
  by (auto simp: sourced_def)

lemma start_answered_ok:
  assumes "get_ef_search_start raw a = (Answered (Ok_text t), a')"
  shows "a' = a \<and> is_valid_cohort_name raw
     \<and> (\<exists>ef. as_recommendations a (CohortName raw) = Some ef \<and> t = show_int ef)"
  using assms
  by (auto simp: get_ef_search_start_def negative_response_def cohort_new_Inr
      split: sum.splits option.splits if_splits negative_lookup.splits)

lemma start_answered_state:
  "get_ef_search_start raw a = (Answered r, a') \<Longrightarrow> a' = a"
  by (auto simp: get_ef_search_start_def split: sum.splits option.splits if_splits)

lemma start_loading:
  "get_ef_search_start raw a = (Loading c, a') \<Longrightarrow>
     cohort_ok c \<and> 0 < as_permits a \<and> a' = a\<lparr>as_permits := as_permits a - 1\<rparr>"
  by (auto simp: get_ef_search_start_def cohort_ok_def cohort_new_Inr
      split: sum.splits option.splits if_splits)

lemma finish_effect:
  assumes "get_ef_search_finish c load a = (r, a')"
  shows "as_permits a' = as_permits a + 1"
    and "as_recommendations a' k = Some ef \<Longrightarrow> as_recommendations a k = Some ef
          \<or> (k = c \<and> (load = Inr (Found ef) \<or> as_coalesced a c = Some (Found ef)))"
    and "as_coalesced a' k = Some (Found ef) \<Longrightarrow> as_coalesced a k = Some (Found ef)
          \<or> (k = c \<and> load = Inr (Found ef))"
    and "r = Ok_text t \<Longrightarrow> \<exists>ef. t = show_int ef
          \<and> (load = Inr (Found ef) \<or> as_coalesced a c = Some (Found ef))"
  using assms
  by (auto simp: get_ef_search_finish_def try_get_with_def Let_def negative_response_def
      split: option.splits sum.splits cached_lookup.splits if_splits prod.splits
        negative_lookup.splits)

lemma rec_step_inv:
  assumes "rec_step f s t" and inv: "rec_inv c f s"
  shows "rec_inv c f t"
  using assms(1)
proof cases
  case (request_answered raw r a)
  have a: "a = sys_app s" using start_answered_state [OF request_answered(2)] .
  have "\<exists>ef. x = show_int ef \<and> is_valid_cohort_name raw \<and> sourced f s (CohortName raw) ef"
    if "r = Ok_text x" for x
    using start_answered_ok [OF request_answered(2) [unfolded that]] inv
    by (auto simp: rec_inv_def)
  then show ?thesis using inv request_answered(1) a by (auto simp: rec_inv_def sourced_def)
next
  case (request_loading raw k a)
  then show ?thesis
    using inv start_loading [OF request_loading(2)] by (auto simp: rec_inv_def sourced_def)
next
  case (load_done ws1 k ws2 answer elapsed r a)
  let ?load = "load_with_timeout f answer k (as_lookup_timeout (sys_app s)) elapsed"
  note eff = finish_effect [OF load_done(3)]
  have mono: "sourced f s j ef \<Longrightarrow> sourced f t j ef" for j ef
    by (rule sourced_mono) (auto simp: load_done(1))
  have loaded: "?load = Inr (Found ef) \<Longrightarrow> sourced f t k ef" for ef
    by (auto simp: load_with_timeout_Found sourced_def load_done(1))
  have coal: "as_coalesced (sys_app s) j = Some (Found ef) \<Longrightarrow> sourced f t j ef" for j ef
    using inv mono by (auto simp: rec_inv_def)
  have recs: "as_recommendations (sys_app s) j = Some ef \<Longrightarrow> sourced f t j ef" for j ef
    using inv mono by (auto simp: rec_inv_def)
  have k: "cohort_ok k" using inv load_done(2) by (simp add: rec_inv_def)
  have resp: "\<exists>ef. x = show_int ef \<and> is_valid_cohort_name (as_str k) \<and> sourced f t (CohortName (as_str k)) ef"
    if "r = Ok_text x" for x
    using eff(4) [OF that] loaded coal k by (cases k) (auto simp: cohort_ok_def)
  have old: "\<exists>ef. x = show_int ef \<and> is_valid_cohort_name raw \<and> sourced f t (CohortName raw) ef"
    if "(raw, Ok_text x) \<in> set (sys_responses s)" for raw x
    using inv that mono by (fastforce simp: rec_inv_def)
  have "as_permits a + length (ws1 @ ws2) = rc_max_concurrent_requests c"
    using inv eff(1) load_done(2) by (simp add: rec_inv_def)
  moreover have "\<forall>j \<in> set (ws1 @ ws2). cohort_ok j" using inv load_done(2) by (auto simp: rec_inv_def)
  moreover have "\<forall>j ef. as_recommendations a j = Some ef \<longrightarrow> sourced f t j ef"
    using eff(2) loaded coal recs by blast
  moreover have "\<forall>j ef. as_coalesced a j = Some (Found ef) \<longrightarrow> sourced f t j ef"
    using eff(3) loaded coal by blast
  moreover have "\<forall>(raw, q) \<in> set (sys_responses t). \<forall>x. q = Ok_text x \<longrightarrow>
      (\<exists>ef. x = show_int ef \<and> is_valid_cohort_name raw \<and> sourced f t (CohortName raw) ef)"
    using resp old by (auto simp: load_done(1))
  moreover have "sys_app t = a" "sys_waiting t = ws1 @ ws2" by (simp_all add: load_done(1))
  ultimately show ?thesis unfolding rec_inv_def by simp
next
  case (request_cancelled ws1 k ws2)
  then show ?thesis using inv by (auto simp: rec_inv_def sourced_def)
next
  case (evict recs negs coal)
  then show ?thesis
    using inv by (fastforce simp: rec_inv_def sourced_def map_le_def dom_def)
qed

lemma rec_reachable_inv: "rec_reachable c f s \<Longrightarrow> rec_inv c f s"
proof (induction rule: rec_reachable.induct)
  case rec_init
  then show ?case by (simp add: rec_inv_def app_state_new_def)
next
  case (rec_next s t)
  then show ?case using rec_step_inv by blast
qed

section \<open>Truncation on a character boundary\<close>

lemma utf8_cont_iff: "utf8_cont b \<longleftrightarrow> 128 \<le> unat b \<and> unat b \<le> 191"
  by (simp add: utf8_cont_def word_le_nat_alt)

lemmas [simp del] = utf8_valid.simps(2)

text \<open>The first character of a well-formed string: its length, and that the tail is well-formed.\<close>

lemma utf8_valid_first:
  assumes "utf8_valid (a # bs)"
  obtains cs rest where "bs = cs @ rest" "length cs \<le> 3" "\<forall>c \<in> set cs. utf8_cont c"
    "utf8_valid rest" "\<And>r. utf8_valid r \<Longrightarrow> utf8_valid (a # cs @ r)"
proof -
  note step = utf8_valid.simps(2) [of a]
  consider (one) "a < 0x80"
    | (two) "\<not> a < 0x80" "0xC2 \<le> a \<and> a \<le> 0xDF"
    | (three) "\<not> a < 0x80" "\<not> (0xC2 \<le> a \<and> a \<le> 0xDF)" "0xE0 \<le> a \<and> a \<le> 0xEF"
    | (four) "\<not> a < 0x80" "\<not> (0xC2 \<le> a \<and> a \<le> 0xDF)" "\<not> (0xE0 \<le> a \<and> a \<le> 0xEF)"
        "0xF0 \<le> a \<and> a \<le> 0xF4"
    | (bad) "\<not> a < 0x80" "\<not> (0xC2 \<le> a \<and> a \<le> 0xDF)" "\<not> (0xE0 \<le> a \<and> a \<le> 0xEF)"
        "\<not> (0xF0 \<le> a \<and> a \<le> 0xF4)" by blast
  then show ?thesis
  proof cases
    case one
    then show ?thesis using assms by (intro that [of "[]" bs]) (simp_all add: step)
  next
    case two
    then obtain b r where "bs = b # r" "utf8_cont b" "utf8_valid r"
      using assms by (auto simp: step split: list.splits)
    then show ?thesis using two by (intro that [of "[b]" r]) (simp_all add: step)
  next
    case three
    then obtain b c r where "bs = b # c # r" "utf8_second a b" "utf8_cont c" "utf8_valid r"
      using assms by (auto simp: step split: list.splits)
    then show ?thesis using three
      by (intro that [of "[b, c]" r]) (auto simp: step utf8_second_def)
  next
    case four
    then obtain b c d r where "bs = b # c # d # r" "utf8_second a b" "utf8_cont c" "utf8_cont d"
        "utf8_valid r"
      using assms by (auto simp: step split: list.splits)
    then show ?thesis using four
      by (intro that [of "[b, c, d]" r]) (auto simp: step utf8_second_def)
  next
    case bad
    then show ?thesis using assms by (auto simp: step split: if_splits)
  qed
qed

lemma boundary_inside:
  fixes cs rest :: "u8 list" and a :: u8
  assumes "\<forall>c \<in> set cs. utf8_cont c" and "0 < i" and "i \<le> length cs"
  shows "\<not> is_char_boundary (a # cs @ rest) i"
proof -
  have "(a # cs @ rest) ! i = cs ! (i - 1)" using assms(2,3) by (cases i) (simp_all add: nth_append)
  moreover have "utf8_cont (cs ! (i - 1))" using assms(1,2,3) by simp
  moreover have "i < length (a # cs @ rest)" using assms(2,3) by simp
  ultimately show ?thesis using assms(2) unfolding is_char_boundary_def by auto
qed

lemma utf8_valid_take_boundary:
  "utf8_valid bs \<Longrightarrow> i \<le> length bs \<Longrightarrow> is_char_boundary bs i \<Longrightarrow> utf8_valid (take i bs)"
proof (induction "length bs" arbitrary: bs i rule: less_induct)
  case less
  show ?case
  proof (cases bs)
    case (Cons a bs')
    obtain cs rest where cs: "bs' = cs @ rest" "length cs \<le> 3" "\<forall>c \<in> set cs. utf8_cont c"
      and rest: "utf8_valid rest" and ext: "\<And>r. utf8_valid r \<Longrightarrow> utf8_valid (a # cs @ r)"
      using utf8_valid_first [OF less.prems(1) [unfolded Cons]] by blast
    show ?thesis
    proof (cases "i = 0 \<or> i \<le> length cs")
      case True
      then show ?thesis
        using less.prems(3) boundary_inside [OF cs(3), of i a rest] Cons cs(1)
        by (cases "i = 0") (auto simp: is_char_boundary_def nth_append)
    next
      case False
      then obtain j where i: "i = Suc (length cs + j)"
        by (metis Suc_leI add_Suc le_Suc_ex linorder_not_less neq0_conv)
      have "is_char_boundary rest j"
        using less.prems(3) Cons cs(1) i by (auto simp: is_char_boundary_def nth_append)
      then have "utf8_valid (take j rest)"
        using less.hyps [of rest j] rest less.prems(2) Cons cs(1) i by simp
      then show ?thesis using ext Cons cs(1) i by simp
    qed
  qed simp
qed

lemma boundary_near:
  "utf8_valid bs \<Longrightarrow> i \<le> length bs \<Longrightarrow> \<exists>k \<le> 3. k \<le> i \<and> is_char_boundary bs (i - k)"
proof (induction "length bs" arbitrary: bs i rule: less_induct)
  case less
  show ?case
  proof (cases bs)
    case Nil
    then show ?thesis using less.prems by (auto simp: is_char_boundary_def)
  next
    case (Cons a bs')
    obtain cs rest where cs: "bs' = cs @ rest" "length cs \<le> 3" "\<forall>c \<in> set cs. utf8_cont c"
      and rest: "utf8_valid rest"
      using utf8_valid_first [OF less.prems(1) [unfolded Cons]] by blast
    show ?thesis
    proof (cases "i \<le> length cs")
      case True
      then show ?thesis using cs(2) by (intro exI [of _ i]) (auto simp: is_char_boundary_def)
    next
      case False
      then obtain j where i: "i = Suc (length cs + j)"
        by (metis Suc_leI add_Suc le_Suc_ex linorder_not_less)
      have "j \<le> length rest" using less.prems(2) Cons cs(1) i by simp
      then obtain k where k: "k \<le> 3" "k \<le> j" "is_char_boundary rest (j - k)"
        using less.hyps [of rest j] rest Cons cs(1) by auto
      have "is_char_boundary bs (i - k)"
      proof (cases "j = k")
        case True
        show ?thesis
        proof (cases rest)
          case Nil
          then show ?thesis using True i Cons cs(1) by (simp add: is_char_boundary_def)
        next
          case (Cons b r)
          have "\<not> utf8_cont b"
            using rest Cons utf8_valid.simps(2) [of b r]
            by (auto simp: utf8_cont_iff word_less_nat_alt word_le_nat_alt split: if_splits)
          then show ?thesis
            using True i \<open>bs = a # bs'\<close> cs(1) Cons by (simp add: is_char_boundary_def)
        qed
      next
        case False
        then have "i - k = Suc (length cs + (j - k))" using k i by simp
        then show ?thesis using k False Cons cs(1)
          by (auto simp: is_char_boundary_def nth_append)
      qed
      then show ?thesis using k i by (intro exI [of _ k]) simp
    qed
  qed
qed

lemma last_boundary_spec:
  "is_char_boundary bs (last_boundary bs i) \<and> last_boundary bs i \<le> i
     \<and> (\<forall>k \<le> i. is_char_boundary bs k \<longrightarrow> k \<le> last_boundary bs i)"
proof (induction bs i rule: last_boundary.induct)
  case (1 bs i)
  show ?case
  proof (cases "is_char_boundary bs i")
    case True
    then show ?thesis by (subst (1 2 3) last_boundary.simps) simp
  next
    case False
    then have lb: "last_boundary bs i = last_boundary bs (i - 1)"
      by (subst last_boundary.simps) simp
    have "k \<le> i - 1" if "k \<le> i" "is_char_boundary bs k" for k
      using that False by (metis One_nat_def Suc_pred bot_nat_0.not_eq_extremum le_SucE le_zero_eq)
    then show ?thesis using 1 [OF False] by (auto simp: lb)
  qed
qed

lemmas [simp] = utf8_valid.simps(2)

section \<open>An example server\<close>

definition example_latest :: "u8 list \<Rightarrow> string + latest_round" where
  "example_latest bytes = Inr \<lparr>lr_format_version = 1, lr_cohort = ''prod'', lr_effective = Some 60\<rparr>"

definition example_answer :: get_result where
  "example_answer = Get_ok 2 (Inr [123, 125])"

definition example_served :: rec_system where
  "example_served =
     (let a = app_state_new rec_config_default in
      \<lparr>sys_app = a\<lparr>as_recommendations := [CohortName ''prod'' \<mapsto> 60],
                  as_coalesced := [CohortName ''prod'' \<mapsto> Found 60]\<rparr>,
       sys_waiting = [], sys_answers = [(CohortName ''prod'', example_answer)],
       sys_responses = [(''prod'', Ok_text ''60'')]\<rparr>)"

lemma example_prod_valid: "is_valid_cohort_name ''prod''"
  by (simp add: is_valid_cohort_name_iff is_ascii_def cohort_segment_def is_allowed_segment_byte_def)

lemma show_int_60: "show_int 60 = ''60''"
  by code_simp

lemma example_served_reachable: "rec_reachable rec_config_default example_latest example_served"
proof -
  let ?a = "app_state_new rec_config_default"
  let ?s0 = "\<lparr>sys_app = ?a, sys_waiting = [], sys_answers = [], sys_responses = []\<rparr>"
  let ?s1 = "\<lparr>sys_app = ?a\<lparr>as_permits := 99\<rparr>, sys_waiting = [CohortName ''prod''],
      sys_answers = [], sys_responses = []\<rparr>"
  have r0: "rec_reachable rec_config_default example_latest ?s0"
    by (rule rec_init) (simp add: rec_validate_config_Inr rec_config_default_ok)
  have "get_ef_search_start ''prod'' ?a = (Loading (CohortName ''prod''), ?a\<lparr>as_permits := 99\<rparr>)"
    using example_prod_valid
    by (simp add: get_ef_search_start_def cohort_new_def is_valid_cohort_name_def is_ok_iff
        app_state_new_def rec_config_default_def split: sum.split)
  then have r1: "rec_reachable rec_config_default example_latest ?s1"
    using rec_next [OF r0 request_loading [of "''prod''" ?s0]] by simp
  have "load_with_timeout example_latest example_answer (CohortName ''prod'') d False
      = Inr (Found 60)" for d
    unfolding load_with_timeout_Found
    by (simp add: recommends_def example_answer_def example_latest_def LATEST_JSON_MAX_BYTES_def)
  then have "get_ef_search_finish (CohortName ''prod'')
      (load_with_timeout example_latest example_answer (CohortName ''prod'')
        (as_lookup_timeout (sys_app ?s1)) False) (sys_app ?s1)
      = (Ok_text ''60'', sys_app example_served)"
    by (simp add: get_ef_search_finish_def try_get_with_def app_state_new_def rec_config_default_def
        show_int_60 example_served_def Let_def)
  from rec_next [OF r1 load_done [of ?s1 "[]" "CohortName ''prod''" "[]", OF _ this]]
  show ?thesis by (simp add: example_served_def Let_def)
qed

section \<open>Properties\<close>

text \<open>
  C4. Whatever requests, loads, timeouts, cancellations and cache evictions happen in whatever
  order, a recommendation the server sends was requested under a valid cohort name, is in the range
  1 to 1000, and comes from an answer of the store to a load of that same cohort: a document of
  format 1 that names the cohort. No cache mixes cohorts or serves a rejected document.
\<close>

theorem served_recommendation_is_sourced:
  assumes "rec_reachable c from_slice s" and "(raw, Ok_text body) \<in> set (sys_responses s)"
  shows "\<exists>ef answer. body = show_nat (nat ef) \<and> 1 \<le> ef \<and> ef \<le> 1000
     \<and> is_valid_cohort_name raw \<and> (CohortName raw, answer) \<in> set (sys_answers s)
     \<and> recommends from_slice answer (CohortName raw) ef"
proof -
  obtain ef where ef: "body = show_int ef" "is_valid_cohort_name raw"
      "sourced from_slice s (CohortName raw) ef"
    using rec_reachable_inv [OF assms(1)] assms(2) by (fastforce simp: rec_inv_def)
  then obtain answer where "(CohortName raw, answer) \<in> set (sys_answers s)"
      "recommends from_slice answer (CohortName raw) ef"
    by (auto simp: sourced_def)
  moreover from this have "1 \<le> ef" "ef \<le> 1000" by (auto simp: recommends_def)
  ultimately show ?thesis using ef by (intro exI [of _ ef] exI [of _ answer]) (simp add: show_int_nonneg)
qed

theorem served_recommendation_is_sourced_witness:
  "\<exists>ef answer. ''60'' = show_nat (nat ef) \<and> 1 \<le> ef \<and> ef \<le> 1000
     \<and> is_valid_cohort_name ''prod'' \<and> (CohortName ''prod'', answer) \<in> set (sys_answers example_served)
     \<and> recommends example_latest answer (CohortName ''prod'') ef"
  by (rule served_recommendation_is_sourced [OF example_served_reachable])
    (simp add: example_served_def Let_def)

text \<open>
  C30. The load permits are conserved: the permits that are free plus the requests waiting for a
  load always make up the configured limit, so no more loads than that run at once and none leaks
  a permit, also when requests are cancelled or their loads fail.
\<close>

theorem load_permits_conserved:
  assumes "rec_reachable c from_slice s"
  shows "as_permits (sys_app s) + length (sys_waiting s) = rc_max_concurrent_requests c"
  using rec_reachable_inv [OF assms] by (simp add: rec_inv_def)

theorem load_permits_conserved_witness:
  "as_permits (sys_app example_served) + length (sys_waiting example_served)
     = rc_max_concurrent_requests rec_config_default"
  by (rule load_permits_conserved [OF example_served_reachable])

text \<open>
  Truncating a cohort name for a diagnostic never splits a character and always terminates
  inside the string: the result is a well-formed prefix of at most 255 bytes, and at most three
  bytes shorter than that when the name was too long.
\<close>

lemma truncated_diagnostic_is_utf8:
  assumes "utf8_valid cohort"
  shows "utf8_valid (truncate_cohort_diagnostic cohort)
     \<and> prefix (truncate_cohort_diagnostic cohort) cohort
     \<and> length (truncate_cohort_diagnostic cohort) \<le> 255
     \<and> min 252 (length cohort) \<le> length (truncate_cohort_diagnostic cohort)"
proof (cases "length cohort \<le> 255")
  case True
  then show ?thesis using assms by (simp add: truncate_cohort_diagnostic_def cohort_limits)
next
  case False
  let ?b = "last_boundary cohort 255"
  note spec = last_boundary_spec [of cohort 255]
  obtain k where k: "k \<le> 3" "k \<le> 255" "is_char_boundary cohort (255 - k)"
    using boundary_near [OF assms, of 255] False by auto
  then have "255 - k \<le> ?b" using spec by simp
  then have "252 \<le> ?b" using k(1) by linarith
  moreover have "utf8_valid (take ?b cohort)"
    using utf8_valid_take_boundary [OF assms, of ?b] spec False by simp
  ultimately show ?thesis
    using False spec by (simp add: truncate_cohort_diagnostic_def cohort_limits take_is_prefix)
qed

end
