(* ===== verification/Supervision.thy ===== *)
theory Supervision
  imports RecConfig CollectorConfig
begin

text \<open>
  Task supervision (\<open>vectorseam-runtime/src/lib.rs\<close>) and the two accept loops: the recommendation
  server's \<open>serve\<close> and the collector's \<open>run_with_listener\<close>, with their connection caps, drains and
  the order in which task results decide the exit. What a task or a join did is an argument; an
  \<open>anyhow\<close> error is its chain of messages, the outermost first.
\<close>

section \<open>Task results\<close>

type_synonym anyhow = "string list"

datatype join_error = Cancelled | Panicked string

fun show_join_error :: "join_error \<Rightarrow> string" where
  "show_join_error Cancelled = ''task was cancelled''"
| "show_join_error (Panicked m) = ''task panicked with message '' @ m"

definition unexpected_task_result ::
  "join_error + (anyhow + unit) \<Rightarrow> string \<Rightarrow> anyhow + unit" where
  "unexpected_task_result joined task_name =
     (case joined of
        Inr (Inr _) \<Rightarrow> Inl [task_name @ '' exited unexpectedly'']
      | Inr (Inl e) \<Rightarrow> Inl ((task_name @ '' failed'') # e)
      | Inl e \<Rightarrow> Inl [task_name @ '' task failed: '' @ show_join_error e])"

definition unexpected_unit_task_result :: "join_error + unit \<Rightarrow> string \<Rightarrow> anyhow + unit" where
  "unexpected_unit_task_result joined task_name =
     (case joined of
        Inr _ \<Rightarrow> Inl [task_name @ '' exited unexpectedly'']
      | Inl e \<Rightarrow> Inl [task_name @ '' task failed: '' @ show_join_error e])"

text \<open>
  The task's result within the timeout, if it came, and what joining it after the abort gave.
\<close>

definition await_task_shutdown ::
  "(join_error + (anyhow + unit)) option \<Rightarrow> join_error + (anyhow + unit) \<Rightarrow> string \<Rightarrow> anyhow + unit" where
  "await_task_shutdown in_time aborted task_name =
     (case in_time of
        Some joined \<Rightarrow>
          res_bind (map_err (\<lambda>e. [task_name @ '' task failed: '' @ show_join_error e]) joined)
            (\<lambda>res. res)
      | None \<Rightarrow>
          (case aborted of
             Inr res \<Rightarrow> res
           | Inl Cancelled \<Rightarrow> Inr ()
           | Inl e \<Rightarrow> Inl [task_name @ '' task failed after abort: '' @ show_join_error e]))"

definition await_unit_task_shutdown ::
  "(join_error + unit) option \<Rightarrow> join_error + unit \<Rightarrow> string \<Rightarrow> anyhow + unit" where
  "await_unit_task_shutdown in_time aborted task_name =
     (case in_time of
        Some joined \<Rightarrow>
          map_err (\<lambda>e. [task_name @ '' task failed: '' @ show_join_error e]) joined
      | None \<Rightarrow>
          (case aborted of
             Inr _ \<Rightarrow> Inr ()
           | Inl Cancelled \<Rightarrow> Inr ()
           | Inl e \<Rightarrow> Inl [task_name @ '' task failed after abort: '' @ show_join_error e]))"

text \<open>The end of \<open>run_with_listener\<close>: the first failure in the order writer, summary, server.\<close>

record task_ends =
  te_writer_early :: "(join_error + (anyhow + unit)) option"
  te_writer :: "(join_error + (anyhow + unit)) option \<times> (join_error + (anyhow + unit))"
  te_summary :: "(join_error + (anyhow + unit)) option \<times> (join_error + (anyhow + unit))"
  te_recommendation_early :: "(join_error + unit) option"
  te_recommendation :: "((join_error + unit) option \<times> (join_error + unit)) option"

definition collector_exit :: "task_ends \<Rightarrow> anyhow + unit" where
  "collector_exit t =
     (let writer_result =
            (case te_writer_early t of
               Some joined \<Rightarrow> unexpected_task_result joined ''writer''
             | None \<Rightarrow> await_task_shutdown (fst (te_writer t)) (snd (te_writer t)) ''writer'');
          summary_result = await_task_shutdown (fst (te_summary t)) (snd (te_summary t)) ''summary'';
          recommendation_result =
            (case te_recommendation_early t of
               Some joined \<Rightarrow> unexpected_unit_task_result joined ''recommendation server''
             | None \<Rightarrow>
                 (case te_recommendation t of
                    Some (in_time, aborted) \<Rightarrow>
                      await_unit_task_shutdown in_time aborted ''recommendation server''
                  | None \<Rightarrow> Inr ()))
      in res_bind writer_result (\<lambda>_. res_bind summary_result (\<lambda>_. recommendation_result)))"

section \<open>Accept loops\<close>

text \<open>
  The connection tasks of a loop are its \<open>JoinSet\<close>: those that have not ended, which may never end, and
  those that have ended and wait to be joined. The loop accepts (\<open>Backoff\<close> is the sleep after a failed
  accept), drains, the collector once more after telling its readers to stop, and joins what is left.
  \<open>al_told\<close> is the readers' stop signal, \<open>al_aborted\<close> says that \<open>abort_all\<close> was called.
\<close>

datatype loop_phase = Running | Backoff | Draining | Stopping | Joining | Done

record accept_loop =
  al_phase :: loop_phase
  al_active :: nat
  al_ended :: nat
  al_told :: bool
  al_aborted :: bool
  al_accepted :: nat
  al_joined :: nat
  al_accept_errors :: nat

definition accept_loop_start :: accept_loop where
  "accept_loop_start = \<lparr>al_phase = Running, al_active = 0, al_ended = 0, al_told = False, al_aborted = False,
     al_accepted = 0, al_joined = 0, al_accept_errors = 0\<rparr>"

definition connections_len :: "accept_loop \<Rightarrow> nat" where
  "connections_len s = al_active s + al_ended s"

definition spawn_connection :: "accept_loop \<Rightarrow> accept_loop" where
  "spawn_connection s = s\<lparr>al_active := al_active s + 1, al_accepted := al_accepted s + 1\<rparr>"

definition join_next :: "accept_loop \<Rightarrow> accept_loop" where
  "join_next s = s\<lparr>al_ended := al_ended s - 1, al_joined := al_joined s + 1\<rparr>"

text \<open>The collector's loop until it stops: by the signal, or because the writer or the server ended.\<close>

inductive collector_accept_step :: "nat \<Rightarrow> accept_loop \<Rightarrow> accept_loop \<Rightarrow> bool" for max_connections where
  cl_joined: "al_phase s = Running \<Longrightarrow> 0 < al_ended s \<Longrightarrow>
    collector_accept_step max_connections s (join_next s)"
| cl_accepted: "al_phase s = Running \<Longrightarrow> connections_len s < max_connections \<Longrightarrow>
    collector_accept_step max_connections s (spawn_connection s)"
| cl_accept_error: "al_phase s = Running \<Longrightarrow> connections_len s < max_connections \<Longrightarrow>
    collector_accept_step max_connections s
      (s\<lparr>al_phase := Backoff, al_accept_errors := al_accept_errors s + 1\<rparr>)"
| cl_retry: "al_phase s = Backoff \<Longrightarrow>
    collector_accept_step max_connections s (s\<lparr>al_phase := Running\<rparr>)"
| cl_stop: "al_phase s = Running \<Longrightarrow>
    collector_accept_step max_connections s (s\<lparr>al_phase := Draining\<rparr>)"

text \<open>
  Its \<open>drain_connections\<close>: the first wait ends when no connection is left or at its deadline, the second
  wait likewise, but its deadline aborts what is left; then every task is joined.
\<close>

inductive collector_drain_step :: "accept_loop \<Rightarrow> accept_loop \<Rightarrow> bool" where
  cl_drained: "al_phase s \<in> {Draining, Stopping, Joining} \<Longrightarrow> 0 < al_ended s \<Longrightarrow>
    collector_drain_step s (join_next s)"
| cl_signal: "al_phase s = Draining \<Longrightarrow>
    collector_drain_step s (s\<lparr>al_phase := Stopping, al_told := True\<rparr>)"
| cl_stopped: "al_phase s = Stopping \<Longrightarrow> connections_len s = 0 \<Longrightarrow>
    collector_drain_step s (s\<lparr>al_phase := Joining\<rparr>)"
| cl_abort: "al_phase s = Stopping \<Longrightarrow> 0 < connections_len s \<Longrightarrow>
    collector_drain_step s (s\<lparr>al_phase := Joining, al_aborted := True\<rparr>)"
| cl_done: "al_phase s = Joining \<Longrightarrow> connections_len s = 0 \<Longrightarrow>
    collector_drain_step s (s\<lparr>al_phase := Done\<rparr>)"

definition collector_loop_step :: "nat \<Rightarrow> accept_loop \<Rightarrow> accept_loop \<Rightarrow> bool" where
  "collector_loop_step max_connections s t \<longleftrightarrow>
     collector_accept_step max_connections s t \<or> collector_drain_step s t"

text \<open>The recommendation server: it can be shut down in a backoff, and tells its connections at once.\<close>

inductive serve_accept_step :: "nat \<Rightarrow> accept_loop \<Rightarrow> accept_loop \<Rightarrow> bool" for max_connections where
  sv_joined: "al_phase s = Running \<Longrightarrow> 0 < al_ended s \<Longrightarrow>
    serve_accept_step max_connections s (join_next s)"
| sv_accepted: "al_phase s = Running \<Longrightarrow> connections_len s < max_connections \<Longrightarrow>
    serve_accept_step max_connections s (spawn_connection s)"
| sv_accept_error: "al_phase s = Running \<Longrightarrow> connections_len s < max_connections \<Longrightarrow>
    serve_accept_step max_connections s (s\<lparr>al_phase := Backoff\<rparr>)"
| sv_retry: "al_phase s = Backoff \<Longrightarrow>
    serve_accept_step max_connections s (s\<lparr>al_phase := Running\<rparr>)"
| sv_shutdown: "al_phase s \<in> {Running, Backoff} \<Longrightarrow>
    serve_accept_step max_connections s (s\<lparr>al_phase := Draining, al_told := True\<rparr>)"

inductive serve_drain_step :: "accept_loop \<Rightarrow> accept_loop \<Rightarrow> bool" where
  sv_drained: "al_phase s \<in> {Draining, Joining} \<Longrightarrow> 0 < al_ended s \<Longrightarrow>
    serve_drain_step s (join_next s)"
| sv_empty: "al_phase s = Draining \<Longrightarrow> connections_len s = 0 \<Longrightarrow>
    serve_drain_step s (s\<lparr>al_phase := Joining\<rparr>)"
| sv_abort: "al_phase s = Draining \<Longrightarrow> 0 < connections_len s \<Longrightarrow>
    serve_drain_step s (s\<lparr>al_phase := Joining, al_aborted := True\<rparr>)"
| sv_done: "al_phase s = Joining \<Longrightarrow> connections_len s = 0 \<Longrightarrow>
    serve_drain_step s (s\<lparr>al_phase := Done\<rparr>)"

definition serve_step :: "nat \<Rightarrow> accept_loop \<Rightarrow> accept_loop \<Rightarrow> bool" where
  "serve_step max_connections s t \<longleftrightarrow> serve_accept_step max_connections s t \<or> serve_drain_step s t"

section \<open>The tasks\<close>

text \<open>
  A connection task ends when it will, if ever. The runtime promises the end of a task only once it is
  aborted. \<open>loop_system\<close> is what may happen; \<open>loop_assured\<close> is what happens if no task ends by itself: the
  steps of the loop, its timers included, and the ends of aborted tasks.
\<close>

definition end_task :: "accept_loop \<Rightarrow> accept_loop" where
  "end_task s = s\<lparr>al_active := al_active s - 1, al_ended := al_ended s + 1\<rparr>"

definition loop_system :: "(accept_loop \<Rightarrow> accept_loop \<Rightarrow> bool) \<Rightarrow> accept_loop \<Rightarrow> accept_loop \<Rightarrow> bool" where
  "loop_system step s t \<longleftrightarrow> step s t \<or> 0 < al_active s \<and> t = end_task s"

definition loop_assured :: "(accept_loop \<Rightarrow> accept_loop \<Rightarrow> bool) \<Rightarrow> accept_loop \<Rightarrow> accept_loop \<Rightarrow> bool" where
  "loop_assured step s t \<longleftrightarrow> step s t \<or> al_aborted s \<and> 0 < al_active s \<and> t = end_task s"

lemma assured_system: "loop_assured step s t \<Longrightarrow> loop_system step s t"
  by (auto simp: loop_assured_def loop_system_def)

section \<open>The loop as an interface\<close>

text \<open>
  What both loops promise: a step keeps the cap, the balance of the tasks and the order of stopping; after
  the loop stopped accepting every step makes a measure smaller; and only the end of the loop is a state
  in which neither the loop nor the runtime has a step to do.
\<close>

fun phase_rank :: "loop_phase \<Rightarrow> nat" where
  "phase_rank Running = 4"
| "phase_rank Backoff = 4"
| "phase_rank Draining = 3"
| "phase_rank Stopping = 2"
| "phase_rank Joining = 1"
| "phase_rank Done = 0"

abbreviation stopped :: "accept_loop \<Rightarrow> bool" where
  "stopped s \<equiv> al_phase s \<noteq> Running \<and> al_phase s \<noteq> Backoff"

definition loop_ok :: "nat \<Rightarrow> accept_loop \<Rightarrow> bool" where
  "loop_ok m s \<longleftrightarrow> connections_len s \<le> m \<and> al_accepted s = al_joined s + connections_len s
     \<and> (al_phase s = Done \<longrightarrow> connections_len s = 0)
     \<and> (al_phase s = Joining \<longrightarrow> al_aborted s \<or> connections_len s = 0)
     \<and> (al_phase s \<in> {Stopping, Joining, Done} \<longrightarrow> al_told s)
     \<and> (al_aborted s \<longrightarrow> al_told s) \<and> (al_told s \<longrightarrow> stopped s)"

definition loop_measure :: "accept_loop \<Rightarrow> nat" where
  "loop_measure s = 2 * al_active s + al_ended s + phase_rank (al_phase s)"

lemmas loop_defs = loop_ok_def loop_measure_def connections_len_def join_next_def spawn_connection_def end_task_def

locale bounded_loop =
  fixes step :: "nat \<Rightarrow> accept_loop \<Rightarrow> accept_loop \<Rightarrow> bool"
    and good :: "accept_loop \<Rightarrow> bool"
  assumes step_ok: "step m s t \<Longrightarrow> loop_ok m s \<Longrightarrow> good s \<Longrightarrow> loop_ok m t \<and> good t"
    and end_good: "good s \<Longrightarrow> good (end_task s)"
    and step_drains: "step m s t \<Longrightarrow> stopped s \<Longrightarrow> stopped t \<and> loop_measure t < loop_measure s"
    and step_enabled: "loop_ok m s \<Longrightarrow> good s \<Longrightarrow> stopped s \<Longrightarrow> al_phase s \<noteq> Done \<Longrightarrow>
      al_ended s = 0 \<Longrightarrow> \<not> (al_aborted s \<and> 0 < al_active s) \<Longrightarrow> \<exists>t. step m s t"
    and step_joins: "stopped s \<Longrightarrow> good s \<Longrightarrow> al_phase s \<noteq> Done \<Longrightarrow> 0 < al_ended s \<Longrightarrow> step m s (join_next s)"
begin

lemma system_ok: "loop_system (step m) s t \<Longrightarrow> loop_ok m s \<and> good s \<Longrightarrow> loop_ok m t \<and> good t"
  unfolding loop_system_def by (auto dest: step_ok intro: end_good) (auto simp: loop_defs)

lemma run_ok: "(loop_system (step m))\<^sup>*\<^sup>* s t \<Longrightarrow> loop_ok m s \<and> good s \<Longrightarrow> loop_ok m t \<and> good t"
  by (induction rule: rtranclp_induct) (auto dest: system_ok)

lemma system_drains:
  "loop_system (step m) s t \<Longrightarrow> stopped s \<Longrightarrow> stopped t \<and> loop_measure t < loop_measure s"
  unfolding loop_system_def by (auto dest: step_drains) (auto simp: loop_defs)

lemma run_stopped: "(loop_system (step m))\<^sup>*\<^sup>* s t \<Longrightarrow> stopped s \<Longrightarrow> stopped t"
  by (induction rule: rtranclp_induct) (auto dest: system_drains)

lemma drain_length:
  "(loop_system (step m) ^^ n) s t \<Longrightarrow> stopped s \<Longrightarrow> stopped t \<and> n + loop_measure t \<le> loop_measure s"
proof (induction n arbitrary: t)
  case (Suc n)
  then obtain u where "(loop_system (step m) ^^ n) s u" "loop_system (step m) u t" by auto
  then show ?case using Suc.IH [of u] Suc.prems(2) system_drains [of m u t] by fastforce
qed simp

lemma never_stuck:
  assumes "loop_ok m s" and "good s" and "stopped s" and "al_phase s \<noteq> Done"
  shows "\<exists>t. loop_assured (step m) s t"
  using step_enabled [OF assms] step_joins [OF assms(3,2,4)] unfolding loop_assured_def by blast

lemma drain_reaches_done:
  "stopped s \<Longrightarrow> loop_ok m s \<Longrightarrow> good s \<Longrightarrow>
     \<exists>t. (loop_assured (step m))\<^sup>*\<^sup>* s t \<and> al_phase t = Done"
proof (induction "loop_measure s" arbitrary: s rule: less_induct)
  case less
  show ?case
  proof (cases "al_phase s = Done")
    case False
    then obtain t where t: "loop_assured (step m) s t" using never_stuck less.prems by blast
    note t' = assured_system [OF t]
    obtain u where "(loop_assured (step m))\<^sup>*\<^sup>* t u" "al_phase u = Done"
      using less.hyps [of t] system_drains [OF t'] system_ok [OF t'] less.prems by blast
    then show ?thesis using t by (meson converse_rtranclp_into_rtranclp)
  qed blast
qed

lemma promise:
  assumes "loop_ok m s0" and "good s0" and "(loop_system (step m))\<^sup>*\<^sup>* s0 s"
  shows "al_active s + al_ended s \<le> m \<and> al_accepted s = al_joined s + al_active s + al_ended s
     \<and> (al_phase s = Done \<longrightarrow> al_joined s = al_accepted s)
     \<and> (al_told s \<longrightarrow> stopped s) \<and> (al_aborted s \<longrightarrow> al_told s)
     \<and> (stopped s \<longrightarrow>
          (\<exists>t. (loop_assured (step m))\<^sup>*\<^sup>* s t \<and> al_phase t = Done)
          \<and> (\<forall>t. (loop_system (step m))\<^sup>*\<^sup>* s t \<longrightarrow> al_phase t = Done \<or> (\<exists>u. loop_assured (step m) t u))
          \<and> (\<forall>n t. (loop_system (step m) ^^ n) s t \<longrightarrow> n \<le> 2 * (al_active s + al_ended s) + 3))"
proof -
  have ok: "loop_ok m s" "good s" using run_ok [OF assms(3)] assms(1,2) by simp_all
  have short: "n \<le> 2 * (al_active s + al_ended s) + 3"
    if "stopped s" "(loop_system (step m) ^^ n) s t" for n t
  proof -
    have "n \<le> loop_measure s" using drain_length [OF that(2,1)] by simp
    also have "\<dots> \<le> 2 * (al_active s + al_ended s) + 3"
      using that(1) by (cases "al_phase s") (simp_all add: loop_measure_def)
    finally show ?thesis .
  qed
  have unstuck: "al_phase t = Done \<or> (\<exists>u. loop_assured (step m) t u)"
    if "stopped s" "(loop_system (step m))\<^sup>*\<^sup>* s t" for t
    using never_stuck [of m t] run_ok [OF that(2)] run_stopped [OF that(2,1)] ok by blast
  have reaches: "\<exists>t. (loop_assured (step m))\<^sup>*\<^sup>* s t \<and> al_phase t = Done" if "stopped s"
    by (rule drain_reaches_done [OF that ok])
  have head: "al_active s + al_ended s \<le> m" "al_accepted s = al_joined s + al_active s + al_ended s"
    "al_phase s = Done \<Longrightarrow> al_joined s = al_accepted s" "al_told s \<Longrightarrow> stopped s" "al_aborted s \<Longrightarrow> al_told s"
    using ok(1) unfolding loop_ok_def connections_len_def by simp_all
  show ?thesis
    by (rule conjI [OF head(1)], rule conjI [OF head(2)], rule conjI, rule impI, erule head(3),
        rule conjI, rule impI, erule head(4), rule conjI, rule impI, erule head(5),
        rule impI, rule conjI, erule reaches, rule conjI, rule allI, rule impI, erule (1) unstuck,
        rule allI, rule allI, rule impI, erule (1) short)
qed

end

interpretation collector_loop: bounded_loop collector_loop_step "\<lambda>_. True"
proof unfold_locales
  fix m s t
  show "collector_loop_step m s t \<Longrightarrow> loop_ok m s \<Longrightarrow> True \<Longrightarrow> loop_ok m t \<and> True"
    unfolding collector_loop_step_def
    by (elim disjE; elim collector_accept_step.cases collector_drain_step.cases) (auto simp: loop_defs)
  show "collector_loop_step m s t \<Longrightarrow> stopped s \<Longrightarrow> stopped t \<and> loop_measure t < loop_measure s"
    unfolding collector_loop_step_def
    by (elim disjE; elim collector_accept_step.cases collector_drain_step.cases) (auto simp: loop_defs)
  show "stopped s \<Longrightarrow> True \<Longrightarrow> al_phase s \<noteq> Done \<Longrightarrow> 0 < al_ended s \<Longrightarrow> collector_loop_step m s (join_next s)"
    using cl_drained [of s] by (cases "al_phase s") (auto simp: collector_loop_step_def)
  show "loop_ok m s \<Longrightarrow> True \<Longrightarrow> stopped s \<Longrightarrow> al_phase s \<noteq> Done \<Longrightarrow> al_ended s = 0 \<Longrightarrow>
      \<not> (al_aborted s \<and> 0 < al_active s) \<Longrightarrow> \<exists>t. collector_loop_step m s t"
    using cl_signal [of s] cl_stopped [of s] cl_abort [of s] cl_done [of s] unfolding collector_loop_step_def
    by (cases "al_phase s") (auto simp: loop_ok_def connections_len_def)
qed simp

interpretation serve_loop: bounded_loop serve_step "\<lambda>s. al_phase s \<noteq> Stopping \<and> (al_phase s = Draining \<longrightarrow> al_told s)"
proof unfold_locales
  fix m s t
  let ?good = "\<lambda>s. al_phase s \<noteq> Stopping \<and> (al_phase s = Draining \<longrightarrow> al_told s)"
  show "serve_step m s t \<Longrightarrow> loop_ok m s \<Longrightarrow> ?good s \<Longrightarrow> loop_ok m t \<and> ?good t"
    unfolding serve_step_def
    by (elim disjE; elim serve_accept_step.cases serve_drain_step.cases) (auto simp: loop_defs)
  show "?good s \<Longrightarrow> ?good (end_task s)" by (simp add: end_task_def)
  show "serve_step m s t \<Longrightarrow> stopped s \<Longrightarrow> stopped t \<and> loop_measure t < loop_measure s"
    unfolding serve_step_def
    by (elim disjE; elim serve_accept_step.cases serve_drain_step.cases) (auto simp: loop_defs)
  show "stopped s \<Longrightarrow> ?good s \<Longrightarrow> al_phase s \<noteq> Done \<Longrightarrow> 0 < al_ended s \<Longrightarrow> serve_step m s (join_next s)"
    using sv_drained [of s] by (cases "al_phase s") (auto simp: serve_step_def)
  show "loop_ok m s \<Longrightarrow> ?good s \<Longrightarrow> stopped s \<Longrightarrow> al_phase s \<noteq> Done \<Longrightarrow> al_ended s = 0 \<Longrightarrow>
      \<not> (al_aborted s \<and> 0 < al_active s) \<Longrightarrow> \<exists>t. serve_step m s t"
    using sv_empty [of s] sv_abort [of s] sv_done [of s] unfolding serve_step_def
    by (cases "al_phase s") (auto simp: loop_ok_def connections_len_def)
qed

section \<open>Properties\<close>

text \<open>
  C18. Both accept loops, in every state that any interleaving of accepts, ends of tasks, deadlines and
  joins reaches: the connections never exceed their cap; every accepted connection is joined or still in
  the set, and a loop that is done has joined them all; no connection is told to stop while the loop accepts,
  and none is aborted before it was told. Once a loop has stopped accepting, it ends even if no
  connection ever ends by itself: the deadlines, the abort and the ends of aborted tasks take it to its
  end, no state of the drain but its end is stuck without them, and no drain takes more than two steps
  for each connection and three more.
\<close>

theorem accept_loops_bounded_and_drained:
  assumes "step = collector_loop_step m \<or> step = serve_step m"
    and "(loop_system step)\<^sup>*\<^sup>* accept_loop_start s"
  shows "al_active s + al_ended s \<le> m \<and> al_accepted s = al_joined s + al_active s + al_ended s
     \<and> (al_phase s = Done \<longrightarrow> al_joined s = al_accepted s)
     \<and> (al_told s \<longrightarrow> stopped s) \<and> (al_aborted s \<longrightarrow> al_told s)
     \<and> (stopped s \<longrightarrow>
          (\<exists>t. (loop_assured step)\<^sup>*\<^sup>* s t \<and> al_phase t = Done)
          \<and> (\<forall>t. (loop_system step)\<^sup>*\<^sup>* s t \<longrightarrow> al_phase t = Done \<or> (\<exists>u. loop_assured step t u))
          \<and> (\<forall>n t. (loop_system step ^^ n) s t \<longrightarrow> n \<le> 2 * (al_active s + al_ended s) + 3))"
proof -
  have start: "loop_ok m accept_loop_start" "al_phase accept_loop_start = Running"
    by (simp_all add: loop_defs accept_loop_start_def)
  have serving: "al_phase accept_loop_start \<noteq> Stopping
      \<and> (al_phase accept_loop_start = Draining \<longrightarrow> al_told accept_loop_start)"
    by (simp add: start(2))
  show ?thesis
    using assms(1)
  proof
    assume step: "step = collector_loop_step m"
    show ?thesis unfolding step by (rule collector_loop.promise [OF start(1) TrueI assms(2) [unfolded step]])
  next
    assume step: "step = serve_step m"
    show ?thesis unfolding step by (rule serve_loop.promise [OF start(1) serving assms(2) [unfolded step]])
  qed
qed

text \<open>Both loops with one connection, told to stop, that never ends by itself.\<close>

definition loop_example :: accept_loop where
  "loop_example = \<lparr>al_phase = Draining, al_active = 1, al_ended = 0, al_told = False, al_aborted = False,
     al_accepted = 1, al_joined = 0, al_accept_errors = 0\<rparr>"

lemma system_two_steps: "step a b \<Longrightarrow> step b c \<Longrightarrow> (loop_system step)\<^sup>*\<^sup>* a c"
  by (rule rtranclp.rtrancl_into_rtrancl [of _ a b, OF r_into_rtranclp]) (simp_all add: loop_system_def)

lemma loop_example_reached:
  "(loop_system (collector_loop_step 5))\<^sup>*\<^sup>* accept_loop_start loop_example"
  "(loop_system (serve_step 5))\<^sup>*\<^sup>* accept_loop_start (loop_example\<lparr>al_told := True\<rparr>)"
proof -
  let ?one = "spawn_connection accept_loop_start"
  have "collector_loop_step 5 accept_loop_start ?one" "collector_loop_step 5 ?one loop_example"
    using cl_accepted [of accept_loop_start 5] cl_stop [of ?one 5]
    by (simp_all add: collector_loop_step_def accept_loop_start_def loop_example_def loop_defs)
  then show "(loop_system (collector_loop_step 5))\<^sup>*\<^sup>* accept_loop_start loop_example"
    by (rule system_two_steps)
  have "serve_step 5 accept_loop_start ?one" "serve_step 5 ?one (loop_example\<lparr>al_told := True\<rparr>)"
    using sv_accepted [of accept_loop_start 5] sv_shutdown [of ?one 5]
    by (simp_all add: serve_step_def accept_loop_start_def loop_example_def loop_defs)
  then show "(loop_system (serve_step 5))\<^sup>*\<^sup>* accept_loop_start (loop_example\<lparr>al_told := True\<rparr>)"
    by (rule system_two_steps)
qed

theorem accept_loops_bounded_and_drained_witness:
  "(\<exists>t. (loop_assured (collector_loop_step 5))\<^sup>*\<^sup>* loop_example t \<and> al_phase t = Done)
   \<and> (\<exists>t. (loop_assured (serve_step 5))\<^sup>*\<^sup>* (loop_example\<lparr>al_told := True\<rparr>) t \<and> al_phase t = Done)"
proof -
  have "stopped loop_example" "stopped (loop_example\<lparr>al_told := True\<rparr>)" by (simp_all add: loop_example_def)
  then show ?thesis
    using accept_loops_bounded_and_drained [OF disjI1 [OF refl] loop_example_reached(1),
          THEN conjunct2, THEN conjunct2, THEN conjunct2, THEN conjunct2, THEN conjunct2, THEN mp, THEN conjunct1]
      accept_loops_bounded_and_drained [OF disjI2 [OF refl] loop_example_reached(2),
          THEN conjunct2, THEN conjunct2, THEN conjunct2, THEN conjunct2, THEN conjunct2, THEN mp, THEN conjunct1]
    by (intro conjI)
qed

text \<open>
  The collector exits cleanly exactly when no critical task ended early and each of the writer,
  the summary and the recommendation server (where enabled) returned without error, in time or
  after its abort, or was cancelled by that abort; a writer error is reported before any other.
\<close>

definition clean_end :: "(join_error + (anyhow + unit)) option \<Rightarrow> join_error + (anyhow + unit) \<Rightarrow> bool" where
  "clean_end in_time aborted \<longleftrightarrow>
     in_time = Some (Inr (Inr ()))
     \<or> (in_time = None \<and> (aborted = Inr (Inr ()) \<or> aborted = Inl Cancelled))"

definition clean_unit_end :: "(join_error + unit) option \<Rightarrow> join_error + unit \<Rightarrow> bool" where
  "clean_unit_end in_time aborted \<longleftrightarrow>
     in_time = Some (Inr ()) \<or> (in_time = None \<and> (aborted = Inr () \<or> aborted = Inl Cancelled))"

lemma res_bind_unit: "res_bind r f = Inr y \<longleftrightarrow> r = Inr () \<and> f () = Inr y"
  by (cases r) auto

lemma joined_cases:
  fixes joined :: "join_error + (anyhow + unit)"
  obtains (clean) "joined = Inr (Inr ())" | (failed) e where "joined = Inr (Inl e)"
    | (cancelled) "joined = Inl Cancelled" | (panicked) m where "joined = Inl (Panicked m)"
  by (metis join_error.exhaust old.unit.exhaust sum.exhaust)

lemma joined_unit_cases:
  fixes joined :: "join_error + unit"
  obtains (clean) "joined = Inr ()" | (cancelled) "joined = Inl Cancelled"
    | (panicked) m where "joined = Inl (Panicked m)"
  by (metis join_error.exhaust old.unit.exhaust sum.exhaust)

lemma await_task_shutdown_clean:
  "await_task_shutdown in_time aborted name = Inr () \<longleftrightarrow> clean_end in_time aborted"
proof (cases in_time)
  case None
  then show ?thesis
    by (cases aborted rule: joined_cases) (simp_all add: await_task_shutdown_def clean_end_def)
next
  case (Some joined)
  then show ?thesis
    by (cases joined rule: joined_cases) (simp_all add: await_task_shutdown_def clean_end_def)
qed

lemma await_unit_task_shutdown_clean:
  "await_unit_task_shutdown in_time aborted name = Inr () \<longleftrightarrow> clean_unit_end in_time aborted"
proof (cases in_time)
  case None
  then show ?thesis
    by (cases aborted rule: joined_unit_cases)
      (simp_all add: await_unit_task_shutdown_def clean_unit_end_def)
next
  case (Some joined)
  then show ?thesis
    by (cases joined rule: joined_unit_cases)
      (simp_all add: await_unit_task_shutdown_def clean_unit_end_def)
qed

lemma unexpected_results_fail:
  "unexpected_task_result joined name \<noteq> Inr ()" "unexpected_unit_task_result joined' name \<noteq> Inr ()"
  by (auto simp: unexpected_task_result_def unexpected_unit_task_result_def split: sum.splits)

lemma collector_exit_clean:
  "collector_exit t = Inr () \<longleftrightarrow>
     te_writer_early t = None \<and> clean_end (fst (te_writer t)) (snd (te_writer t))
     \<and> clean_end (fst (te_summary t)) (snd (te_summary t))
     \<and> te_recommendation_early t = None
     \<and> (\<forall>in_time aborted. te_recommendation t = Some (in_time, aborted) \<longrightarrow>
          clean_unit_end in_time aborted)"
  by (cases "te_writer_early t"; cases "te_recommendation_early t"; cases "te_recommendation t")
    (auto simp: collector_exit_def Let_def res_bind_unit await_task_shutdown_clean
      await_unit_task_shutdown_clean unexpected_results_fail)

end
