(* ===== verification/Effects.thy ===== *)
theory Effects
  imports Prelude "HOL-Library.Sublist"
begin

text \<open>
  Fallible computations over a state of the environment, as the tuner's asynchronous code composes
  them: each awaited operation maps a state to a result and the next state, and \<open>?\<close> is \<open>io_bind\<close>. A
  service (the database, the object store) answers requests; \<open>logged\<close> runs it and keeps the exchange,
  so that a protocol is a statement about the log. \<open>traces\<close> and \<open>returns\<close> are the two judgements the
  proofs use, each with a rule per combinator.
\<close>

section \<open>Definitions\<close>

type_synonym ('w, 'e, 'a) io = "'w \<Rightarrow> ('e + 'a) \<times> 'w"

definition io_lift :: "'e + 'a \<Rightarrow> ('w, 'e, 'a) io" where
  "io_lift r w = (r, w)"

abbreviation io_pure :: "'a \<Rightarrow> ('w, 'e, 'a) io" where
  "io_pure x \<equiv> io_lift (Inr x)"

abbreviation io_fail :: "'e \<Rightarrow> ('w, 'e, 'a) io" where
  "io_fail e \<equiv> io_lift (Inl e)"

definition io_read :: "('w \<Rightarrow> 'a) \<Rightarrow> ('w, 'e, 'a) io" where
  "io_read f w = (Inr (f w), w)"

definition io_bind :: "('w, 'e, 'a) io \<Rightarrow> ('a \<Rightarrow> ('w, 'e, 'b) io) \<Rightarrow> ('w, 'e, 'b) io" where
  "io_bind m f w = (case m w of (Inl e, w) \<Rightarrow> (Inl e, w) | (Inr x, w) \<Rightarrow> f x w)"

fun io_map :: "('a \<Rightarrow> ('w, 'e, 'b) io) \<Rightarrow> 'a list \<Rightarrow> ('w, 'e, 'b list) io" where
  "io_map f [] = io_pure []"
| "io_map f (x # xs) = io_bind (f x) (\<lambda>y. io_bind (io_map f xs) (\<lambda>ys. io_pure (y # ys)))"

fun io_fold :: "('s \<Rightarrow> 'a \<Rightarrow> ('w, 'e, 's) io) \<Rightarrow> 's \<Rightarrow> 'a list \<Rightarrow> ('w, 'e, 's) io" where
  "io_fold f s [] = io_pure s"
| "io_fold f s (x # xs) = io_bind (f s x) (\<lambda>s. io_fold f s xs)"

type_synonym ('w, 'q, 'r) service = "'q \<Rightarrow> 'w \<Rightarrow> 'r \<times> 'w"

type_synonym ('w, 'ev) logging = "'w \<times> 'ev list"

definition logged :: "('w, 'q, 'r) service \<Rightarrow> (('w, 'q \<times> 'r) logging, 'q, 'r) service" where
  "logged serve q = (\<lambda>(w, l). case serve q w of (r, w) \<Rightarrow> (r, (w, l @ [(q, r)])))"

definition unlogged :: "('w \<Rightarrow> 'a \<times> 'w) \<Rightarrow> ('w, 'ev) logging \<Rightarrow> 'a \<times> ('w, 'ev) logging" where
  "unlogged m = (\<lambda>(w, l). case m w of (r, w) \<Rightarrow> (r, (w, l)))"

lemma io_bind_lift [simp]:
  "io_bind (io_lift (Inl e)) f = io_lift (Inl e)"
  "io_bind (io_lift (Inr x)) f = f x"
  by (simp_all add: io_bind_def io_lift_def fun_eq_iff)

lemma io_bind_Inr:
  "io_bind m f s = (Inr y, s'') \<longleftrightarrow> (\<exists>x s'. m s = (Inr x, s') \<and> f x s' = (Inr y, s''))"
  by (auto simp: io_bind_def split: prod.splits sum.splits)

lemma io_lift_eq [simp]: "io_lift r s = (r', s') \<longleftrightarrow> r = r' \<and> s' = s"
  by (auto simp: io_lift_def)

section \<open>Judgements\<close>

text \<open>\<open>traces m T\<close>: whatever the state, the exchange \<open>m\<close> adds to the log stands in \<open>T\<close> to its result.\<close>

definition traces ::
  "(('w, 'ev) logging, 'e, 'a) io \<Rightarrow> ('e + 'a \<Rightarrow> 'ev list \<Rightarrow> bool) \<Rightarrow> bool" where
  "traces m T \<longleftrightarrow> (\<forall>w l r w' l'. m (w, l) = (r, (w', l')) \<longrightarrow> (\<exists>t. l' = l @ t \<and> T r t))"

lemma tracesI:
  assumes "\<And>w l r w' l'. m (w, l) = (r, (w', l')) \<Longrightarrow> \<exists>t. l' = l @ t \<and> T r t"
  shows "traces m T"
  using assms unfolding traces_def by blast

lemma tracesD: "traces m T \<Longrightarrow> m (w, l) = (r, (w', l')) \<Longrightarrow> \<exists>t. l' = l @ t \<and> T r t"
  unfolding traces_def by blast

lemma traces_weaken: "traces m T \<Longrightarrow> (\<And>r t. T r t \<Longrightarrow> U r t) \<Longrightarrow> traces m U"
  unfolding traces_def by blast

lemma traces_lift: "T r [] \<Longrightarrow> traces (io_lift r) T"
  by (auto simp: traces_def io_lift_def)

lemma traces_read: "(\<And>x. T (Inr x) []) \<Longrightarrow> traces (io_read f) T"
  by (auto simp: traces_def io_read_def)

lemma traces_bind:
  assumes "traces m T" and "\<And>x. traces (f x) (U x)"
  shows "traces (io_bind m f)
    (\<lambda>r t. (\<exists>e. r = Inl e \<and> T (Inl e) t) \<or> (\<exists>x a b. t = a @ b \<and> T (Inr x) a \<and> U x r b))"
proof (rule tracesI)
  fix w l r w' l'
  assume run: "io_bind m f (w, l) = (r, (w', l'))"
  obtain r1 w1 l1 where m: "m (w, l) = (r1, (w1, l1))" by (cases "m (w, l)") auto
  obtain a where a: "l1 = l @ a" "T r1 a" using tracesD [OF assms(1) m] by blast
  show "\<exists>t. l' = l @ t \<and> ((\<exists>e. r = Inl e \<and> T (Inl e) t)
      \<or> (\<exists>x a b. t = a @ b \<and> T (Inr x) a \<and> U x r b))"
  proof (cases r1)
    case (Inl e)
    then show ?thesis using run m a by (auto simp: io_bind_def)
  next
    case (Inr x)
    then have "f x (w1, l1) = (r, (w', l'))" using run m by (simp add: io_bind_def)
    then obtain b where "l' = l1 @ b" "U x r b" using tracesD [OF assms(2)] by blast
    then show ?thesis using a Inr by auto
  qed
qed

text \<open>A computation that logs nothing.\<close>

abbreviation quiet :: "(('w, 'ev) logging, 'e, 'a) io \<Rightarrow> bool" where
  "quiet m \<equiv> traces m (\<lambda>_ t. t = [])"

lemma quiet_lift [intro]: "quiet (io_lift r)"
  by (rule traces_lift) simp

lemma quiet_read [intro]: "quiet (io_read f)"
  by (rule traces_read) simp

lemma quiet_unlogged [intro]: "quiet (unlogged m)"
  by (auto simp: traces_def unlogged_def split: prod.splits)

lemma traces_quiet_bind:
  assumes "quiet m" and "\<And>x. traces (f x) T" and "\<And>e. T (Inl e) []"
  shows "traces (io_bind m f) T"
  by (rule traces_weaken [OF traces_bind [OF assms(1,2)]]) (use assms(3) in auto)

lemma quiet_bind [intro]: "quiet m \<Longrightarrow> (\<And>x. quiet (f x)) \<Longrightarrow> quiet (io_bind m f)"
  by (rule traces_quiet_bind) simp_all

lemma quiet_map: "(\<And>x. quiet (f x)) \<Longrightarrow> quiet (io_map f xs)"
  by (induction xs) (auto intro!: quiet_bind)

lemma quiet_fold: "(\<And>s x. quiet (f s x)) \<Longrightarrow> quiet (io_fold f s xs)"
  by (induction xs arbitrary: s) (auto intro!: quiet_bind)

text \<open>
  A script is the list of requests a computation sends when nothing fails: it sends a prefix of it,
  and all of it, each request answered well, when it succeeds.
\<close>

definition follows ::
  "('r \<Rightarrow> bool) \<Rightarrow> 'q list \<Rightarrow> 'e + 'a \<Rightarrow> ('q \<times> 'r) list \<Rightarrow> bool" where
  "follows good script r t \<longleftrightarrow>
     prefix (map fst t) script \<and> (is_ok r \<longrightarrow> map fst t = script \<and> list_all (good \<circ> snd) t)"

lemma follows_pure [intro]: "traces (io_lift r) (follows good [])"
  by (rule traces_lift) (simp add: follows_def)

lemma follows_read [intro]: "traces (io_read f) (follows good [])"
  by (rule traces_read) (simp add: follows_def)

lemma follows_bind:
  assumes "traces m (follows good s1)" and "\<And>x. traces (f x) (follows good s2)"
  shows "traces (io_bind m f) (follows good (s1 @ s2))"
proof (rule traces_weaken [OF traces_bind [OF assms]])
  fix r t
  assume "(\<exists>e. r = Inl e \<and> follows good s1 (Inl e :: _ + _) t)
    \<or> (\<exists>x a b. t = a @ b \<and> follows good s1 (Inr x :: _ + _) a \<and> follows good s2 r b)"
  then show "follows good (s1 @ s2) r t"
    by (auto simp: follows_def prefix_prefix)
qed

lemma follows_map:
  assumes "\<And>x. traces (f x) (follows good (script x))"
  shows "traces (io_map f xs) (follows good (concat (map script xs)))"
proof (induction xs)
  case (Cons x xs)
  have "traces (io_bind (io_map f xs) (\<lambda>ys. io_pure (y # ys))) (follows good (concat (map script xs) @ []))" for y
    by (rule follows_bind [OF Cons follows_pure])
  then have "traces (io_bind (io_map f xs) (\<lambda>ys. io_pure (y # ys))) (follows good (concat (map script xs)))" for y
    by simp
  then show ?case by (simp add: follows_bind [OF assms])
qed (simp add: follows_pure)

text \<open>\<open>returns m Q\<close>: whatever the state, a successful result of \<open>m\<close> satisfies \<open>Q\<close>.\<close>

definition returns :: "('w, 'e, 'a) io \<Rightarrow> ('a \<Rightarrow> bool) \<Rightarrow> bool" where
  "returns m Q \<longleftrightarrow> (\<forall>w x w'. m w = (Inr x, w') \<longrightarrow> Q x)"

lemma returnsD: "returns m Q \<Longrightarrow> m w = (Inr x, w') \<Longrightarrow> Q x"
  unfolding returns_def by blast

lemma returns_True [intro]: "returns m (\<lambda>_. True)"
  by (simp add: returns_def)

lemma returns_lift: "(\<And>x. r = Inr x \<Longrightarrow> Q x) \<Longrightarrow> returns (io_lift r) Q"
  by (simp add: returns_def io_lift_def)

lemma returns_bind:
  assumes "returns m P" and "\<And>x. P x \<Longrightarrow> returns (f x) Q"
  shows "returns (io_bind m f) Q"
  using assms unfolding returns_def io_bind_def by (fastforce split: prod.splits sum.splits)

lemma returns_map:
  assumes "\<And>x. x \<in> set xs \<Longrightarrow> returns (f x) (P x)"
  shows "returns (io_map f xs) (list_all2 P xs)"
  using assms
proof (induction xs)
  case (Cons x xs)
  then show ?case
    by (auto intro!: returns_bind [where P = "P x"] returns_bind [where P = "list_all2 P xs"] returns_lift)
qed (auto intro: returns_lift)

text \<open>A computation that succeeds in every state, as one map over a list.\<close>

lemma io_map_succeeds:
  assumes "\<And>x s. \<exists>s'. f x s = (Inr (g x), s')"
  shows "\<exists>s'. io_map f xs s = (Inr (map g xs), s')"
proof (induction xs arbitrary: s)
  case (Cons x xs)
  obtain s1 where 1: "f x s = (Inr (g x), s1)" using assms by blast
  obtain s2 where "io_map f xs s1 = (Inr (map g xs), s2)" using Cons.IH by blast
  then show ?case using 1 by (simp add: io_bind_def io_lift_def)
qed (simp add: io_lift_def)

text \<open>
  \<open>reads view m\<close>: \<open>m\<close> leaves the state as it is, and its result depends only on a view of it.
\<close>

definition reads :: "('w \<Rightarrow> 'v) \<Rightarrow> ('w, 'e, 'a) io \<Rightarrow> bool" where
  "reads view m \<longleftrightarrow> (\<forall>s. snd (m s) = s \<and> (\<forall>s'. view s' = view s \<longrightarrow> fst (m s') = fst (m s)))"

lemma reads_keep: "reads view m \<Longrightarrow> m s = (r, s') \<Longrightarrow> s' = s"
  unfolding reads_def by (metis snd_conv)

lemma reads_same:
  assumes "reads view m" and "m s = (r, s)" and "view s' = view s"
  shows "m s' = (r, s')"
proof -
  have "fst (m s') = fst (m s)" "snd (m s') = s'" using assms(1,3) unfolding reads_def by blast+
  then show ?thesis using assms(2) by (metis fst_conv prod.collapse)
qed

lemma reads_lift: "reads view (io_lift r)"
  by (simp add: reads_def io_lift_def)

lemma reads_bind_on:
  assumes "reads view m" and "returns m P" and "\<And>x. P x \<Longrightarrow> reads view (f x)"
  shows "reads view (io_bind m f)"
  unfolding reads_def
proof (intro allI conjI impI)
  fix s
  obtain r where m: "m s = (r, s)" using assms(1) unfolding reads_def by (metis prod.collapse)
  show "snd (io_bind m f s) = s"
  proof (cases r)
    case (Inr x)
    have "m s = (Inr x, s)" using m Inr by simp
    then have "reads view (f x)" by (rule assms(3) [OF returnsD [OF assms(2)]])
    then have "snd (f x s) = s" unfolding reads_def by blast
    then show ?thesis using Inr m by (simp add: io_bind_def)
  qed (simp add: io_bind_def m)
  fix s'
  assume v: "view s' = view s"
  have m': "m s' = (r, s')" by (rule reads_same [OF assms(1) m v])
  show "fst (io_bind m f s') = fst (io_bind m f s)"
  proof (cases r)
    case (Inr x)
    have "m s = (Inr x, s)" using m Inr by simp
    then have "reads view (f x)" by (rule assms(3) [OF returnsD [OF assms(2)]])
    then have "fst (f x s') = fst (f x s)" using v unfolding reads_def by blast
    then show ?thesis using Inr m m' by (simp add: io_bind_def)
  qed (simp add: io_bind_def m m')
qed

lemma reads_bind: "reads view m \<Longrightarrow> (\<And>x. reads view (f x)) \<Longrightarrow> reads view (io_bind m f)"
  by (rule reads_bind_on [OF _ returns_True])

lemma reads_map: "(\<And>x. x \<in> set xs \<Longrightarrow> reads view (f x)) \<Longrightarrow> reads view (io_map f xs)"
  by (induction xs) (auto intro!: reads_bind reads_lift)

lemma reads_fold: "(\<And>s x. x \<in> set xs \<Longrightarrow> reads view (f s x)) \<Longrightarrow> reads view (io_fold f s xs)"
  by (induction xs arbitrary: s) (auto intro!: reads_bind reads_lift)

text \<open>An invariant of the accumulator of a fold over what its steps return.\<close>

lemma returns_fold:
  assumes "Q s" and "\<And>s x. x \<in> set xs \<Longrightarrow> Q s \<Longrightarrow> returns (f s x) Q"
  shows "returns (io_fold f s xs) Q"
  using assms
proof (induction xs arbitrary: s)
  case (Cons x xs)
  then show ?case by (auto intro!: returns_bind [where P = Q])
qed (auto intro: returns_lift)


text \<open>\<open>keeps I m\<close>: \<open>m\<close> preserves the invariant \<open>I\<close> of the state.\<close>

definition keeps :: "('w \<Rightarrow> bool) \<Rightarrow> ('w, 'e, 'a) io \<Rightarrow> bool" where
  "keeps I m \<longleftrightarrow> (\<forall>s. I s \<longrightarrow> I (snd (m s)))"

lemma keepsD: "keeps I m \<Longrightarrow> m s = (r, s') \<Longrightarrow> I s \<Longrightarrow> I s'"
  unfolding keeps_def by (metis snd_conv)

lemma keeps_lift [intro!]: "keeps I (io_lift r)"
  by (simp add: keeps_def io_lift_def)

lemma keeps_read [intro!]: "keeps I (io_read f)"
  by (simp add: keeps_def io_read_def)

lemma keeps_bind [intro]: "keeps I m \<Longrightarrow> (\<And>x. keeps I (f x)) \<Longrightarrow> keeps I (io_bind m f)"
  unfolding keeps_def io_bind_def by (auto split: prod.split sum.split)

lemma keeps_map [intro]: "(\<And>x. keeps I (f x)) \<Longrightarrow> keeps I (io_map f xs)"
  by (induction xs) (auto intro!: keeps_bind)

lemma keeps_fold [intro]: "(\<And>s x. keeps I (f s x)) \<Longrightarrow> keeps I (io_fold f s xs)"
  by (induction xs arbitrary: s) (auto intro!: keeps_bind)

end
