(* ===== verification/CollectorProcess.thy ===== *)
theory CollectorProcess
  imports Effects Collector Supervision RecServer
begin

text \<open>
  The start of the collector process (\<open>vectorseam-collector/src/lib.rs\<close>, \<open>listener.rs\<close>) and of the
  recommendation server (\<open>Server::bind\<close>): the storage root, the validation, the two listeners, the
  removal of the socket file at the end, and the loop that reports the counters. The file system and the
  network are arguments; an \<open>anyhow\<close> error is its chain of messages.
\<close>

section \<open>Definitions\<close>

datatype os_error = Os_NotFound | Os_Error string

datatype file_kind = Fs_Socket | Fs_Other

text \<open>A bound socket is a descriptor; the system knows the address it was bound to.\<close>

type_synonym descriptor = nat

datatype socket_address = Tcp_Address string | Unix_Path string

record 'w file_system =
  fs_create_dir_all :: "string \<Rightarrow> 'w \<Rightarrow> (os_error + unit) \<times> 'w"
  fs_open_store :: "string \<Rightarrow> 'w \<Rightarrow> (os_error + unit) \<times> 'w"
  fs_symlink_metadata :: "string \<Rightarrow> 'w \<Rightarrow> (os_error + file_kind) \<times> 'w"
  fs_remove_file :: "string \<Rightarrow> 'w \<Rightarrow> (os_error + unit) \<times> 'w"
  fs_bind_unix :: "string \<Rightarrow> 'w \<Rightarrow> (os_error + descriptor) \<times> 'w"
  fs_bind_tcp :: "string \<Rightarrow> 'w \<Rightarrow> (os_error + descriptor) \<times> 'w"

fun show_os_error :: "os_error \<Rightarrow> string" where
  "show_os_error Os_NotFound = ''not found''"
| "show_os_error (Os_Error e) = e"

definition with_context :: "string \<Rightarrow> ('w \<Rightarrow> (os_error + 'a) \<times> 'w) \<Rightarrow> ('w, anyhow, 'a) io" where
  "with_context context m w = (case m w of (r, w) \<Rightarrow> (map_err (\<lambda>e. [context, show_os_error e]) r, w))"

subsection \<open>Paths\<close>

text \<open>
  \<open>Path::parent\<close> on the reversed text: trailing separators and \<open>.\<close> components do not count; the root
  and the empty path have no parent.
\<close>

function trim_rev :: "string \<Rightarrow> string" where
  "trim_rev [] = []"
| "trim_rev [CHR ''/''] = [CHR ''/'']"
| "trim_rev (CHR ''/'' # c # s) = trim_rev (c # s)"
| "trim_rev [CHR ''.''] = [CHR ''.'']"
| "trim_rev (CHR ''.'' # CHR ''/'' # s) = trim_rev (CHR ''/'' # s)"
| "c \<noteq> CHR ''/'' \<Longrightarrow> trim_rev (CHR ''.'' # c # s) = CHR ''.'' # c # s"
| "c \<noteq> CHR ''/'' \<Longrightarrow> c \<noteq> CHR ''.'' \<Longrightarrow> trim_rev (c # s) = c # s"
  apply (metis list.exhaust)
  by simp_all

termination by (relation "measure length") simp_all

definition path_parent :: "string \<Rightarrow> string option" where
  "path_parent path =
     (let r = trim_rev (rev path) in
      if r = [] \<or> r = ''/'' then None
      else Some (rev (trim_rev (dropWhile (\<lambda>c. c \<noteq> CHR ''/'') r))))"

subsection \<open>The listener\<close>

datatype bound_listener = Listening_Tcp descriptor | Listening_Unix descriptor string

definition prepare_socket :: "'w file_system \<Rightarrow> string \<Rightarrow> ('w, anyhow, unit) io" where
  "prepare_socket fs path =
     io_bind (case path_parent path of
                Some parent \<Rightarrow>
                  if parent \<noteq> [] then with_context (''creating socket directory '' @ parent) (fs_create_dir_all fs parent)
                  else io_pure ()
              | None \<Rightarrow> io_pure ()) (\<lambda>_ w.
     case fs_symlink_metadata fs path w of
       (Inr Fs_Socket, w) \<Rightarrow> with_context (''removing stale socket '' @ path) (fs_remove_file fs path) w
     | (Inr Fs_Other, w) \<Rightarrow> (Inl [''socket path '' @ path @ '' already exists and is not a socket''], w)
     | (Inl Os_NotFound, w) \<Rightarrow> (Inr (), w)
     | (Inl (Os_Error e), w) \<Rightarrow> (Inl [''checking socket path '' @ path, e], w))"

definition listener_bind :: "'w file_system \<Rightarrow> collector_config \<Rightarrow> ('w, anyhow, bound_listener) io" where
  "listener_bind fs c =
     (case cc_unix_socket c of
        Some path \<Rightarrow>
          io_bind (prepare_socket fs path) (\<lambda>_.
          io_bind (with_context (''binding unix socket '' @ path) (fs_bind_unix fs path)) (\<lambda>listener.
          io_pure (Listening_Unix listener path)))
      | None \<Rightarrow>
          io_bind (with_context (''binding TCP listener '' @ cc_listen c) (fs_bind_tcp fs (cc_listen c)))
            (\<lambda>listener. io_pure (Listening_Tcp listener)))"

text \<open>\<open>cleanup\<close>; a failure is only logged.\<close>

definition listener_cleanup :: "'w file_system \<Rightarrow> bound_listener \<Rightarrow> 'w \<Rightarrow> 'w" where
  "listener_cleanup fs listener w =
     (case listener of Listening_Tcp _ \<Rightarrow> w | Listening_Unix _ path \<Rightarrow> snd (fs_remove_file fs path w))"

subsection \<open>The recommendation server\<close>

record rec_server =
  rs_listener :: descriptor
  rs_state :: app_state
  rs_max_connections :: usize
  rs_request_head_timeout :: duration
  rs_shutdown_drain_timeout :: duration

definition server_bind :: "'w file_system \<Rightarrow> rec_config \<Rightarrow> ('w, server_error, rec_server) io" where
  "server_bind fs config =
     io_bind (io_lift (rec_validate_config config)) (\<lambda>_.
     io_bind (\<lambda>w. case fs_bind_tcp fs (rc_listen_addr config) w of
                (r, w) \<Rightarrow> (map_err (Bind (rc_listen_addr config) \<circ> show_os_error) r, w)) (\<lambda>listener.
     io_pure \<lparr>rs_listener = listener, rs_state = app_state_new config, rs_max_connections = rc_max_connections config,
              rs_request_head_timeout = rc_request_head_timeout config,
              rs_shutdown_drain_timeout = rc_shutdown_drain_timeout config\<rparr>))"

fun show_server_error :: "server_error \<Rightarrow> string" where
  "show_server_error (InvalidConfig e) = ''invalid recommendation server configuration: '' @ e"
| "show_server_error (Bind address e) = ''binding recommendation HTTP listener '' @ address @ '' failed: '' @ e"

subsection \<open>The process\<close>

text \<open>\<open>run\<close> and \<open>run_with_store\<close> up to the call of \<open>run_with_listener\<close>.\<close>

definition run_with_store :: "'w file_system \<Rightarrow> collector_config \<Rightarrow> ('w, anyhow, bound_listener \<times> rec_server option) io" where
  "run_with_store fs c =
     io_bind (io_lift (map_err (\<lambda>e. [e]) (validate_collector_config c))) (\<lambda>_.
     io_bind (if cc_recommendation_enabled c
              then io_bind (\<lambda>w. case server_bind fs (server_config (cc_recommendation_server c)) w of
                       (r, w) \<Rightarrow> (map_err (\<lambda>e. [''starting recommendation HTTP server'', show_server_error e]) r, w))
                     (\<lambda>server. io_pure (Some server))
              else io_pure None) (\<lambda>server.
     io_bind (listener_bind fs c) (\<lambda>listener.
     io_pure (listener, server))))"

definition collector_run_process ::
  "'w file_system \<Rightarrow> collector_config \<Rightarrow> ('w, anyhow, bound_listener \<times> rec_server option) io" where
  "collector_run_process fs c =
     io_bind (with_context (''creating storage root '' @ cc_storage_root c) (fs_create_dir_all fs (cc_storage_root c)))
       (\<lambda>_.
     io_bind (with_context (''opening storage root '' @ cc_storage_root c) (fs_open_store fs (cc_storage_root c)))
       (\<lambda>_. run_with_store fs c))"

text \<open>
  \<open>summary_loop\<close>: at each tick the counters are reported; a change of the shutdown flag to true, or
  the end of its sender, ends the loop.
\<close>

datatype summary_event = Summary_Tick counters | Summary_Changed bool | Summary_Closed

fun summary_loop :: "summary_event list \<Rightarrow> u64 list list \<times> bool" where
  "summary_loop [] = ([], False)"
| "summary_loop (Summary_Tick c # events) = (case summary_loop events of (reports, ended) \<Rightarrow> (snapshot c # reports, ended))"
| "summary_loop (Summary_Changed stop # events) = (if stop then ([], True) else summary_loop events)"
| "summary_loop (Summary_Closed # events) = ([], True)"

section \<open>Facts\<close>

text \<open>
  The laws of a system, over the files it has and the addresses its sockets were bound to: reading and
  connecting change no file, creating keeps what there is, removing and binding concern their path, a
  bound descriptor is bound to the address that was asked for, and no call closes a socket.
\<close>

definition keeps_sockets ::
  "('w \<Rightarrow> descriptor \<Rightarrow> socket_address option) \<Rightarrow> (string \<Rightarrow> 'w \<Rightarrow> 'r \<times> 'w) \<Rightarrow> bool" where
  "keeps_sockets sockets f \<longleftrightarrow> (\<forall>p w. sockets w \<subseteq>\<^sub>m sockets (snd (f p w)))"

definition file_system_law ::
  "('w \<Rightarrow> string \<Rightarrow> file_kind option) \<Rightarrow> ('w \<Rightarrow> descriptor \<Rightarrow> socket_address option) \<Rightarrow> 'w file_system \<Rightarrow> bool" where
  "file_system_law files sockets fs \<longleftrightarrow>
     (\<forall>p w. files w \<subseteq>\<^sub>m files (snd (fs_create_dir_all fs p w)))
     \<and> (\<forall>p w. files w \<subseteq>\<^sub>m files (snd (fs_open_store fs p w)))
     \<and> (\<forall>p w. files w \<subseteq>\<^sub>m files (snd (fs_bind_tcp fs p w)))
     \<and> (\<forall>p w r w'. fs_symlink_metadata fs p w = (r, w') \<longrightarrow> files w' = files w \<and> (\<forall>k. r = Inr k \<longrightarrow> files w p = Some k))
     \<and> (\<forall>p w q. q \<noteq> p \<longrightarrow> files (snd (fs_remove_file fs p w)) q = files w q)
     \<and> (\<forall>p w r w'. fs_bind_unix fs p w = (r, w') \<longrightarrow> files w \<subseteq>\<^sub>m files w' \<and> (is_ok r \<longrightarrow> files w' p = Some Fs_Socket))
     \<and> (\<forall>p w h w'. fs_bind_tcp fs p w = (Inr h, w') \<longrightarrow> sockets w' h = Some (Tcp_Address p))
     \<and> (\<forall>p w h w'. fs_bind_unix fs p w = (Inr h, w') \<longrightarrow> sockets w' h = Some (Unix_Path p))
     \<and> keeps_sockets sockets (fs_create_dir_all fs) \<and> keeps_sockets sockets (fs_open_store fs)
     \<and> keeps_sockets sockets (fs_symlink_metadata fs) \<and> keeps_sockets sockets (fs_remove_file fs)
     \<and> keeps_sockets sockets (fs_bind_unix fs) \<and> keeps_sockets sockets (fs_bind_tcp fs)"

text \<open>Every file is kept, a socket at the configured path excepted.\<close>

definition spares :: "('w \<Rightarrow> string \<Rightarrow> file_kind option) \<Rightarrow> collector_config \<Rightarrow> 'w \<Rightarrow> 'w \<Rightarrow> bool" where
  "spares files c w w' \<longleftrightarrow>
     (\<forall>q k. files w q = Some k \<longrightarrow> files w' q = Some k \<or> cc_unix_socket c = Some q \<and> k = Fs_Socket)"


lemma spares_grow: "spares files c w0 w \<Longrightarrow> files w \<subseteq>\<^sub>m files w' \<Longrightarrow> spares files c w0 w'"
  unfolding spares_def map_le_def by (metis domI)

lemma keeps_grow: "(\<And>w. files w \<subseteq>\<^sub>m files (snd (m w))) \<Longrightarrow> keeps (spares files c w0) m"
  by (auto simp: keeps_def intro: spares_grow)

lemma keeps_with_context: "keeps I m \<Longrightarrow> keeps I (with_context context m)"
  by (simp add: keeps_def with_context_def split: prod.split) (metis snd_conv)

lemma with_context_Inr [simp]: "with_context context m w = (Inr x, w') \<longleftrightarrow> m w = (Inr x, w')"
  by (cases "m w"; cases "fst (m w)") (auto simp: with_context_def)

lemma keeps_map_result: "keeps I m \<Longrightarrow> keeps I (\<lambda>w. case m w of (r, w) \<Rightarrow> (f r, w))"
  by (simp add: keeps_def split: prod.split) (metis snd_conv)

lemma law_grows:
  assumes "file_system_law files sockets fs"
  shows "keeps (spares files c w0) (fs_create_dir_all fs p)" and "keeps (spares files c w0) (fs_open_store fs p)"
    and "keeps (spares files c w0) (fs_bind_tcp fs p)" and "keeps (spares files c w0) (fs_bind_unix fs p)"
proof -
  show "keeps (spares files c w0) (fs_bind_unix fs p)"
    using assms unfolding file_system_law_def by (intro keeps_grow) (metis prod.collapse)
qed (use assms in \<open>auto simp: file_system_law_def intro: keeps_grow\<close>)

text \<open>The file at the configured path is removed only after the metadata showed a socket.\<close>

lemma prepare_socket_keeps:
  assumes law: "file_system_law files sockets fs" and path: "cc_unix_socket c = Some path"
  shows "keeps (spares files c w0) (prepare_socket fs path)"
proof -
  have check: "keeps (spares files c w0) (\<lambda>w. case fs_symlink_metadata fs path w of
       (Inr Fs_Socket, w) \<Rightarrow> with_context (''removing stale socket '' @ path) (fs_remove_file fs path) w
     | (Inr Fs_Other, w) \<Rightarrow> (Inl [''socket path '' @ path @ '' already exists and is not a socket''], w)
     | (Inl Os_NotFound, w) \<Rightarrow> (Inr (), w)
     | (Inl (Os_Error e), w) \<Rightarrow> (Inl [''checking socket path '' @ path, e], w))"
    unfolding keeps_def
  proof (intro allI impI)
    fix w
    assume w: "spares files c w0 w"
    obtain r w1 where meta: "fs_symlink_metadata fs path w = (r, w1)" by (cases "fs_symlink_metadata fs path w")
    then have same: "files w1 = files w" and kind: "\<And>k. r = Inr k \<Longrightarrow> files w path = Some k"
      using law unfolding file_system_law_def by blast+
    have w1: "spares files c w0 w1" using w same by (simp add: spares_def)
    have "spares files c w0 (snd (fs_remove_file fs path w1))" if "r = Inr Fs_Socket"
      unfolding spares_def
    proof (intro allI impI)
      fix q k
      assume q: "files w0 q = Some k"
      have gone: "q \<noteq> path \<Longrightarrow> files (snd (fs_remove_file fs path w1)) q = files w1 q"
        using law unfolding file_system_law_def by blast
      have "files w q = Some k \<or> path = q \<and> k = Fs_Socket"
        using w q path unfolding spares_def by auto
      then show "files (snd (fs_remove_file fs path w1)) q = Some k \<or> cc_unix_socket c = Some q \<and> k = Fs_Socket"
        using gone kind [OF that] same path by (cases "q = path") auto
    qed
    then show "spares files c w0 (snd (case fs_symlink_metadata fs path w of
       (Inr Fs_Socket, w) \<Rightarrow> with_context (''removing stale socket '' @ path) (fs_remove_file fs path) w
     | (Inr Fs_Other, w) \<Rightarrow> (Inl [''socket path '' @ path @ '' already exists and is not a socket''], w)
     | (Inl Os_NotFound, w) \<Rightarrow> (Inr (), w)
     | (Inl (Os_Error e), w) \<Rightarrow> (Inl [''checking socket path '' @ path, e], w)))"
      using w1 by (auto simp: meta with_context_def split: sum.split os_error.split file_kind.split prod.split)
  qed
  show ?thesis
    unfolding prepare_socket_def
    by (rule keeps_bind [OF _ check]) (auto intro!: keeps_with_context law_grows [OF law] split: option.split)
qed

lemma run_keeps:
  assumes law: "file_system_law files sockets fs"
  shows "keeps (spares files c w0) (collector_run_process fs c)"
proof -
  have server: "keeps (spares files c w0) (server_bind fs config)" for config
    unfolding server_bind_def
    by (intro keeps_bind keeps_lift keeps_map_result law_grows [OF law])
  have listener: "keeps (spares files c w0) (listener_bind fs c)"
    unfolding listener_bind_def
    by (auto intro!: keeps_bind keeps_with_context law_grows [OF law] prepare_socket_keeps [OF law] split: option.split)
  show ?thesis
    unfolding collector_run_process_def run_with_store_def
    by (auto intro!: keeps_bind keeps_with_context law_grows [OF law] listener keeps_map_result server)
qed

text \<open>A bound descriptor stays bound while the listener is prepared.\<close>

lemma keeps_socket_call:
  "keeps_sockets sockets f \<Longrightarrow> keeps (\<lambda>w. sockets w h = Some a) (f p)"
  unfolding keeps_def keeps_sockets_def map_le_def by (metis domI)

lemma listener_keeps_socket:
  assumes law: "file_system_law files sockets fs"
  shows "keeps (\<lambda>w. sockets w h = Some a) (listener_bind fs c)"
proof -
  let ?I = "\<lambda>w. sockets w h = Some a"
  note laws = law [unfolded file_system_law_def]
  have calls: "keeps ?I (fs_create_dir_all fs p)" "keeps ?I (fs_symlink_metadata fs p)" "keeps ?I (fs_remove_file fs p)"
      "keeps ?I (fs_bind_unix fs p)" "keeps ?I (fs_bind_tcp fs p)" for p
    using laws by (simp_all add: keeps_socket_call)
  have check: "keeps ?I (\<lambda>w. case fs_symlink_metadata fs path w of
       (Inr Fs_Socket, w) \<Rightarrow> with_context (''removing stale socket '' @ path) (fs_remove_file fs path) w
     | (Inr Fs_Other, w) \<Rightarrow> (Inl [''socket path '' @ path @ '' already exists and is not a socket''], w)
     | (Inl Os_NotFound, w) \<Rightarrow> (Inr (), w)
     | (Inl (Os_Error e), w) \<Rightarrow> (Inl [''checking socket path '' @ path, e], w))" for path
    using calls(2,3) [of path] unfolding keeps_def
    by (auto simp: with_context_def split: prod.split sum.split os_error.split file_kind.split)
  have "keeps ?I (prepare_socket fs path)" for path
    unfolding prepare_socket_def
    by (rule keeps_bind [OF _ check]) (auto intro!: keeps_with_context calls split: option.split)
  then show ?thesis
    unfolding listener_bind_def by (auto intro!: keeps_bind keeps_with_context calls split: option.split)
qed

text \<open>Where the listener and the server of a started process listen.\<close>

definition listens_where_configured ::
  "('w \<Rightarrow> string \<Rightarrow> file_kind option) \<Rightarrow> ('w \<Rightarrow> descriptor \<Rightarrow> socket_address option) \<Rightarrow> collector_config
     \<Rightarrow> bound_listener \<Rightarrow> rec_server option \<Rightarrow> 'w \<Rightarrow> bool" where
  "listens_where_configured files sockets c listener server w \<longleftrightarrow>
     (case cc_unix_socket c of
        None \<Rightarrow> (\<exists>h. listener = Listening_Tcp h \<and> sockets w h = Some (Tcp_Address (cc_listen c)))
      | Some path \<Rightarrow>
          (\<exists>h. listener = Listening_Unix h path \<and> sockets w h = Some (Unix_Path path)) \<and> files w path = Some Fs_Socket)
     \<and> (case server of
          None \<Rightarrow> \<not> cc_recommendation_enabled c
        | Some s \<Rightarrow> cc_recommendation_enabled c
            \<and> sockets w (rs_listener s)
                = Some (Tcp_Address (rc_listen_addr (server_config (cc_recommendation_server c)))))"

lemma listener_bound:
  assumes law: "file_system_law files sockets fs" and bind: "listener_bind fs c w = (Inr listener, w')"
  shows "case cc_unix_socket c of
        None \<Rightarrow> (\<exists>h. listener = Listening_Tcp h \<and> sockets w' h = Some (Tcp_Address (cc_listen c)))
      | Some path \<Rightarrow>
          (\<exists>h. listener = Listening_Unix h path \<and> sockets w' h = Some (Unix_Path path)) \<and> files w' path = Some Fs_Socket"
proof (cases "cc_unix_socket c")
  case None
  then show ?thesis
    using bind law by (auto simp: listener_bind_def io_bind_Inr io_lift_def file_system_law_def)
next
  case (Some path)
  then obtain w3 h where "listener = Listening_Unix h path" "fs_bind_unix fs path w3 = (Inr h, w')"
    using bind by (auto simp: listener_bind_def io_bind_Inr io_lift_def)
  then show ?thesis using law Some unfolding file_system_law_def is_ok_iff by auto
qed

lemma server_bound:
  assumes law: "file_system_law files sockets fs" and bind: "server_bind fs config w = (Inr server, w')"
  shows "sockets w' (rs_listener server) = Some (Tcp_Address (rc_listen_addr config))"
proof -
  obtain w1 where "fs_bind_tcp fs (rc_listen_addr config) w1 = (Inr (rs_listener server), w')"
    using bind by (auto simp: server_bind_def io_bind_Inr io_lift_def result_simps split: prod.splits)
  then show ?thesis using law unfolding file_system_law_def by blast
qed

lemma run_bound:
  assumes law: "file_system_law files sockets fs"
    and run: "collector_run_process fs c w = (Inr (listener, server), w')"
  shows "is_ok (validate_collector_config c) \<and> listens_where_configured files sockets c listener server w'"
proof -
  obtain w1 w2 where valid: "validate_collector_config c = Inr ()"
    and start: "(if cc_recommendation_enabled c
              then io_bind (\<lambda>w. case server_bind fs (server_config (cc_recommendation_server c)) w of
                       (r, w) \<Rightarrow> (map_err (\<lambda>e. [''starting recommendation HTTP server'', show_server_error e]) r, w))
                     (\<lambda>server. io_pure (Some server))
              else io_pure None) w1 = (Inr server, w2)"
    and bind: "listener_bind fs c w2 = (Inr listener, w')"
    using run by (auto simp: collector_run_process_def run_with_store_def io_bind_Inr result_simps io_lift_def
        simp del: if_split)
  have "case server of
          None \<Rightarrow> \<not> cc_recommendation_enabled c
        | Some s \<Rightarrow> cc_recommendation_enabled c
            \<and> sockets w' (rs_listener s)
                = Some (Tcp_Address (rc_listen_addr (server_config (cc_recommendation_server c))))"
  proof (cases "cc_recommendation_enabled c")
    case True
    then obtain s where s: "server = Some s"
        "server_bind fs (server_config (cc_recommendation_server c)) w1 = (Inr s, w2)"
      using start by (auto simp: io_bind_Inr io_lift_def result_simps split: prod.splits)
    show ?thesis
      using keepsD [OF listener_keeps_socket [OF law] bind server_bound [OF law s(2)]] True s(1) by simp
  next
    case False
    then show ?thesis using start by (auto simp: io_lift_def)
  qed
  then show ?thesis using valid listener_bound [OF law bind] by (simp add: is_ok_def listens_where_configured_def)
qed

section \<open>Properties\<close>

text \<open>
  C38. The start of the collector spares every file: over any system that keeps its laws, whatever fails
  and wherever the start stops, each file that existed is still there as it was, but for a socket at the
  configured path, in use or not; a file there that is no socket is never removed. A start that succeeds
  had a valid configuration and listens where it says: the listener is bound to the configured socket path,
  which is a socket, or without one to the configured TCP address, and the recommendation server, started
  exactly when it is enabled, to its own. The clean-up at the end touches no other path.
\<close>

theorem collector_start_spares_files:
  assumes "file_system_law files sockets fs" and "collector_run_process fs c w = (r, w')"
  shows "spares files c w w'
     \<and> (\<forall>listener server. r = Inr (listener, server) \<longrightarrow>
          is_ok (validate_collector_config c)
          \<and> listens_where_configured files sockets c listener server w'
          \<and> (\<forall>v q. cc_unix_socket c \<noteq> Some q \<longrightarrow> files (listener_cleanup fs listener v) q = files v q))"
proof -
  have start: "spares files c w w" by (simp add: spares_def)
  have spared: "spares files c w w'" by (rule keepsD [OF run_keeps [OF assms(1)] assms(2) start])
  have "files (listener_cleanup fs listener v) q = files v q"
    if "r = Inr (listener, server)" "cc_unix_socket c \<noteq> Some q" for listener server v q
    using run_bound [OF assms(1) assms(2) [unfolded that(1)]] that(2) assms(1)
    by (auto simp: listener_cleanup_def file_system_law_def listens_where_configured_def split: option.splits)
  then show ?thesis using spared run_bound [OF assms(1)] assms(2) by blast
qed

section \<open>An example\<close>

text \<open>A file system and a socket table in memory, with a socket left at the configured path.\<close>

definition map_bind ::
  "(string \<Rightarrow> socket_address) \<Rightarrow> string \<Rightarrow> (string \<Rightarrow> file_kind option) \<times> socket_address list
     \<Rightarrow> (os_error + descriptor) \<times> (string \<Rightarrow> file_kind option) \<times> socket_address list" where
  "map_bind address p w = (Inr (length (snd w)), fst w, snd w @ [address p])"

definition map_sockets :: "(string \<Rightarrow> file_kind option) \<times> socket_address list \<Rightarrow> descriptor \<Rightarrow> socket_address option" where
  "map_sockets w h = (if h < length (snd w) then Some (snd w ! h) else None)"

definition map_fs :: "((string \<Rightarrow> file_kind option) \<times> socket_address list) file_system" where
  "map_fs =
     \<lparr>fs_create_dir_all = \<lambda>p (w, t). (Inr (), case w p of None \<Rightarrow> w(p \<mapsto> Fs_Other) | Some _ \<Rightarrow> w, t),
      fs_open_store = \<lambda>_ w. (Inr (), w),
      fs_symlink_metadata = \<lambda>p (w, t). (case w p of None \<Rightarrow> Inl Os_NotFound | Some k \<Rightarrow> Inr k, w, t),
      fs_remove_file = \<lambda>p (w, t). (case w p of None \<Rightarrow> Inl Os_NotFound | Some _ \<Rightarrow> Inr (), w(p := None), t),
      fs_bind_unix = \<lambda>p (w, t). (case w p of None \<Rightarrow> map_bind Unix_Path p (w(p \<mapsto> Fs_Socket), t)
                                  | Some _ \<Rightarrow> (Inl (Os_Error ''in use''), w, t)),
      fs_bind_tcp = map_bind Tcp_Address\<rparr>"

lemma map_fs_law: "file_system_law fst map_sockets map_fs"
  by (auto simp: file_system_law_def keeps_sockets_def map_sockets_def map_bind_def map_fs_def map_le_def is_ok_def
      nth_append split: option.splits prod.splits if_splits)

definition socket_config :: collector_config where
  "socket_config = (collector_config_default ''/data'') \<lparr>cc_unix_socket := Some ''/run/vs''\<rparr>"

definition tcp_config :: collector_config where
  "tcp_config = collector_config_default ''/data''"

lemma process_config_ok:
  "validate_collector_config socket_config = Inr ()" "validate_collector_config tcp_config = Inr ()"
  by (simp_all add: socket_config_def tcp_config_def collector_config_default_def result_simps usize_bound_def)

lemma process_server_ok:
  "rec_validate_config (server_config rec_options_default) = Inr ()"
  by (simp add: rec_validate_config_def server_config_def rec_options_default_def from_secs_def)

lemma process_config_fields:
  "cc_unix_socket socket_config = Some ''/run/vs''" "cc_unix_socket tcp_config = None"
  "cc_storage_root socket_config = ''/data''" "cc_storage_root tcp_config = ''/data''"
  "cc_recommendation_enabled socket_config" "cc_recommendation_enabled tcp_config"
  "cc_recommendation_server socket_config = rec_options_default" "cc_recommendation_server tcp_config = rec_options_default"
  "cc_listen tcp_config = ''127.0.0.1:7737''" "rc_listen_addr (server_config rec_options_default) = ''127.0.0.1:7738''"
  by (simp_all add: socket_config_def tcp_config_def collector_config_default_def server_config_def rec_options_default_def)

theorem collector_start_spares_files_witness:
  "(\<exists>server w'. collector_run_process map_fs socket_config ([''/run/vs'' \<mapsto> Fs_Socket, ''/run/notes'' \<mapsto> Fs_Other], [])
       = (Inr (Listening_Unix 1 ''/run/vs'', server), w')
     \<and> fst w' ''/run/notes'' = Some Fs_Other \<and> map_sockets w' 1 = Some (Unix_Path ''/run/vs''))
   \<and> (\<exists>server w'. collector_run_process map_fs tcp_config (Map.empty, [])
       = (Inr (Listening_Tcp 1, server), w')
     \<and> map_sockets w' 1 = Some (Tcp_Address ''127.0.0.1:7737''))"
proof
  let ?w = "([''/run/vs'' \<mapsto> Fs_Socket, ''/run/notes'' \<mapsto> Fs_Other], [])"
  have "path_parent ''/run/vs'' = Some ''/run''" by (simp add: path_parent_def)
  then obtain server w' where run: "collector_run_process map_fs socket_config ?w
       = (Inr (Listening_Unix 1 ''/run/vs'', server), w')"
    by (simp add: collector_run_process_def run_with_store_def listener_bind_def prepare_socket_def io_bind_def
        io_lift_def with_context_def process_config_ok process_config_fields map_fs_def map_bind_def server_bind_def
        process_server_ok)
  note start = collector_start_spares_files [OF map_fs_law run]
  have "fst w' ''/run/notes'' = Some Fs_Other"
    using conjunct1 [OF start, unfolded spares_def, rule_format, of "''/run/notes''" Fs_Other]
    by (simp add: process_config_fields)
  moreover have "map_sockets w' 1 = Some (Unix_Path ''/run/vs'')"
    using conjunct2 [OF start, rule_format, OF refl] by (simp add: process_config_fields listens_where_configured_def)
  ultimately show "\<exists>server w'. collector_run_process map_fs socket_config ?w
       = (Inr (Listening_Unix 1 ''/run/vs'', server), w')
     \<and> fst w' ''/run/notes'' = Some Fs_Other \<and> map_sockets w' 1 = Some (Unix_Path ''/run/vs'')"
    using run by (intro exI conjI)
next
  obtain server w' where run: "collector_run_process map_fs tcp_config (Map.empty, [])
       = (Inr (Listening_Tcp 1, server), w')"
    by (simp add: collector_run_process_def run_with_store_def listener_bind_def io_bind_def
        io_lift_def with_context_def process_config_ok process_config_fields map_fs_def map_bind_def server_bind_def
        process_server_ok)
  note start = collector_start_spares_files [OF map_fs_law run]
  have "map_sockets w' 1 = Some (Tcp_Address ''127.0.0.1:7737'')"
    using conjunct2 [OF start, rule_format, OF refl] by (simp add: process_config_fields listens_where_configured_def)
  then show "\<exists>server w'. collector_run_process map_fs tcp_config (Map.empty, [])
       = (Inr (Listening_Tcp 1, server), w')
     \<and> map_sockets w' 1 = Some (Tcp_Address ''127.0.0.1:7737'')"
    using run by (intro exI conjI)
qed

end
