(* ===== verification/OrdMap.thy ===== *)
theory OrdMap
  imports Prelude
begin

text \<open>
  Rust's \<open>BTreeMap\<close>: an association list with strictly increasing keys. The map interface is a
  locale; its client lemma is the deduplication loop that keeps, per key, the least element under a
  rank. The list operations interpret it.
\<close>

named_theorems omap_simps \<open>lookups in updated ordered maps\<close>

section \<open>Definitions\<close>

type_synonym ('k, 'v) omap = "('k \<times> 'v) list"

fun omap_insert :: "'k::linorder \<Rightarrow> 'v \<Rightarrow> ('k, 'v) omap \<Rightarrow> ('k, 'v) omap" where
  "omap_insert k v [] = [(k, v)]"
| "omap_insert k v ((j, w) # m) =
     (if k < j then (k, v) # (j, w) # m
      else if k = j then (k, v) # m
      else (j, w) # omap_insert k v m)"

definition omap_get :: "('k, 'v) omap \<Rightarrow> 'k \<Rightarrow> 'v option" where
  "omap_get m k = map_of m k"

definition omap_keys :: "('k, 'v) omap \<Rightarrow> 'k list" where
  "omap_keys m = map fst m"

definition omap_values :: "('k, 'v) omap \<Rightarrow> 'v list" where
  "omap_values m = map snd m"

definition omap_inv :: "('k::linorder, 'v) omap \<Rightarrow> bool" where
  "omap_inv m \<longleftrightarrow> sorted_wrt (<) (map fst m)"

text \<open>\<open>collect::<BTreeMap<_, _>>()\<close>: later pairs replace earlier ones.\<close>

definition omap_of_list :: "('k::linorder \<times> 'v) list \<Rightarrow> ('k, 'v) omap" where
  "omap_of_list xs = fold (\<lambda>(k, v). omap_insert k v) xs []"

definition last_key_value :: "('k, 'v) omap \<Rightarrow> ('k \<times> 'v) option" where
  "last_key_value m = (if m = [] then None else Some (last m))"

section \<open>The interface\<close>

locale ordered_map =
  fixes empty :: 'm
    and ins :: "'k::linorder \<Rightarrow> 'v \<Rightarrow> 'm \<Rightarrow> 'm"
    and get :: "'m \<Rightarrow> 'k \<Rightarrow> 'v option"
    and entries :: "'m \<Rightarrow> ('k \<times> 'v) list"
    and inv :: "'m \<Rightarrow> bool"
  assumes inv_empty: "inv empty"
    and get_empty: "get empty k = None"
    and inv_ins: "inv m \<Longrightarrow> inv (ins k v m)"
    and get_ins: "inv m \<Longrightarrow> get (ins k v m) j = (if j = k then Some v else get m j)"
    and entries_sorted: "inv m \<Longrightarrow> sorted_wrt (<) (map fst (entries m))"
    and entries_get: "inv m \<Longrightarrow> (k, v) \<in> set (entries m) \<longleftrightarrow> get m k = Some v"
begin

text \<open>One turn of the deduplication loop, and the loop.\<close>

definition keep_least :: "('a \<Rightarrow> 'k) \<Rightarrow> ('a \<Rightarrow> 'v) \<Rightarrow> ('v \<Rightarrow> 'r::linorder) \<Rightarrow> 'a \<Rightarrow> 'm \<Rightarrow> 'm" where
  "keep_least key mk rank x m =
     (case get m (key x) of
        Some current \<Rightarrow> if rank (mk x) < rank current then ins (key x) (mk x) m else m
      | None \<Rightarrow> ins (key x) (mk x) m)"

lemma keep_least_inv: "inv m \<Longrightarrow> inv (keep_least key mk rank x m)"
  by (simp add: keep_least_def inv_ins split: option.split)

lemma fold_keep_least_inv: "inv m \<Longrightarrow> inv (fold (keep_least key mk rank) xs m)"
  by (induction xs arbitrary: m) (simp_all add: keep_least_inv)

lemma fold_keep_least:
  assumes "inv m"
  shows "get (fold (keep_least key mk rank) xs m) k = None \<longleftrightarrow>
           get m k = None \<and> (\<forall>x \<in> set xs. key x \<noteq> k)"
    and "get (fold (keep_least key mk rank) xs m) k = Some v \<Longrightarrow>
           (get m k = Some v \<or> (\<exists>x \<in> set xs. key x = k \<and> v = mk x))
           \<and> (\<forall>w. get m k = Some w \<longrightarrow> rank v \<le> rank w)
           \<and> (\<forall>x \<in> set xs. key x = k \<longrightarrow> rank v \<le> rank (mk x))"
proof -
  have both: "(get (fold (keep_least key mk rank) xs m) k = None \<longleftrightarrow>
           get m k = None \<and> (\<forall>x \<in> set xs. key x \<noteq> k))
    \<and> (\<forall>v. get (fold (keep_least key mk rank) xs m) k = Some v \<longrightarrow>
           (get m k = Some v \<or> (\<exists>x \<in> set xs. key x = k \<and> v = mk x))
           \<and> (\<forall>w. get m k = Some w \<longrightarrow> rank v \<le> rank w)
           \<and> (\<forall>x \<in> set xs. key x = k \<longrightarrow> rank v \<le> rank (mk x)))"
    using assms
  proof (induction xs arbitrary: m)
    case (Cons x xs)
    let ?m = "keep_least key mk rank x m"
    note IH = Cons.IH [OF keep_least_inv [OF Cons.prems, of key mk rank x]]
    have other: "key x \<noteq> k \<Longrightarrow> get ?m k = get m k"
      using Cons.prems by (simp add: keep_least_def get_ins split: option.split)
    have same: "key x = k \<Longrightarrow> get ?m k =
        (case get m k of None \<Rightarrow> Some (mk x)
         | Some c \<Rightarrow> if rank (mk x) < rank c then Some (mk x) else Some c)"
      using Cons.prems by (auto simp: keep_least_def get_ins split: option.split)
    show ?case
    proof (cases "key x = k")
      case False
      then show ?thesis using IH other by simp
    next
      case True
      show ?thesis
      proof (cases "get m k")
        case None
        then show ?thesis using IH same [OF True] True by (auto split: option.splits)
      next
        case (Some c)
        show ?thesis
        proof (cases "rank (mk x) < rank c")
          case less: True
          then have "get ?m k = Some (mk x)" using same [OF True] Some by simp
          then show ?thesis using IH True Some less by fastforce
        next
          case ge: False
          then have "get ?m k = Some c" using same [OF True] Some by simp
          then show ?thesis using IH True Some ge by fastforce
        qed
      qed
    qed
  qed simp
  then show "get (fold (keep_least key mk rank) xs m) k = None \<longleftrightarrow>
           get m k = None \<and> (\<forall>x \<in> set xs. key x \<noteq> k)" by blast
  show "get (fold (keep_least key mk rank) xs m) k = Some v \<Longrightarrow>
           (get m k = Some v \<or> (\<exists>x \<in> set xs. key x = k \<and> v = mk x))
           \<and> (\<forall>w. get m k = Some w \<longrightarrow> rank v \<le> rank w)
           \<and> (\<forall>x \<in> set xs. key x = k \<longrightarrow> rank v \<le> rank (mk x))"
    using both by blast
qed

lemma entries_distinct: "inv m \<Longrightarrow> distinct (map fst (entries m))"
  using entries_sorted [of m] strict_sorted_iff by blast

end

section \<open>The implementation\<close>

lemma omap_insert_keys: "fst ` set (omap_insert k v m) = insert k (fst ` set m)"
  by (induction k v m rule: omap_insert.induct) auto

lemma omap_inv_Cons: "omap_inv ((k, v) # m) \<longleftrightarrow> (\<forall>j \<in> fst ` set m. k < j) \<and> omap_inv m"
  by (auto simp: omap_inv_def)

lemma omap_insert_inv: "omap_inv m \<Longrightarrow> omap_inv (omap_insert k v m)"
proof (induction k v m rule: omap_insert.induct)
  case (2 k v j w m)
  then show ?case
    by (auto simp: omap_inv_Cons omap_insert_keys)
qed (simp add: omap_inv_def)

lemma omap_get_insert:
  "omap_inv m \<Longrightarrow> omap_get (omap_insert k v m) j = (if j = k then Some v else omap_get m j)"
  by (induction k v m rule: omap_insert.induct) (auto simp: omap_get_def omap_inv_Cons)

lemma omap_get_mem:
  "omap_inv m \<Longrightarrow> (k, v) \<in> set m \<longleftrightarrow> omap_get m k = Some v"
  unfolding omap_get_def omap_inv_def
  by (metis map_of_SomeD map_of_is_SomeI strict_sorted_iff)

interpretation btree: ordered_map "[]" omap_insert omap_get "\<lambda>m. m" omap_inv
  by unfold_locales
    (simp_all add: omap_insert_inv omap_get_insert omap_get_mem,
      simp_all add: omap_inv_def omap_get_def)

declare btree.get_ins [omap_simps]

lemma omap_of_list_inv: "omap_inv (omap_of_list xs)"
proof -
  have "omap_inv m \<Longrightarrow> omap_inv (fold (\<lambda>(k, v). omap_insert k v) xs m)" for m
    by (induction xs arbitrary: m) (auto simp: omap_insert_inv)
  then show ?thesis by (simp add: omap_of_list_def omap_inv_def)
qed

lemma omap_insert_last:
  "\<forall>j \<in> fst ` set m. j < k \<Longrightarrow> omap_insert k v m = m @ [(k, v)]"
proof (induction m)
  case (Cons x m)
  obtain j w where "x = (j, w)" by (cases x)
  with Cons show ?case by auto
qed simp

text \<open>Collecting pairs whose keys already increase keeps the list.\<close>

lemma omap_of_sorted: "omap_inv xs \<Longrightarrow> omap_of_list xs = xs"
proof -
  have "fold (\<lambda>(k, v). omap_insert k v) xs m = m @ xs" if "omap_inv (m @ xs)" for m
    using that
  proof (induction xs arbitrary: m)
    case (Cons x xs)
    obtain k v where x: "x = (k, v)" by (cases x)
    have "omap_insert k v m = m @ [(k, v)]"
      using Cons.prems x by (intro omap_insert_last) (auto simp: omap_inv_def sorted_wrt_append)
    then show ?case using Cons x by simp
  qed simp
  then show "omap_inv xs \<Longrightarrow> omap_of_list xs = xs" by (simp add: omap_of_list_def)
qed

lemma omap_of_list_mem: "set (omap_of_list xs) \<subseteq> set xs"
proof -
  have ins: "set (omap_insert k v m) \<subseteq> insert (k, v) (set m)" for k :: 'a and v :: 'b and m
    by (induction k v m rule: omap_insert.induct) auto
  have "set (fold (\<lambda>(k, v). omap_insert k v) xs m) \<subseteq> set m \<union> set xs" for m
  proof (induction xs arbitrary: m)
    case (Cons x xs)
    then show ?case using ins [of "fst x" "snd x" m] by (fastforce simp: case_prod_beta)
  qed simp
  from this [of "[]"] show ?thesis by (simp add: omap_of_list_def)
qed

lemma omap_ext:
  assumes "omap_inv m" and "omap_inv n" and get: "\<And>k. omap_get m k = omap_get n k"
  shows "m = n"
proof -
  have "(k, v) \<in> set m \<longleftrightarrow> (k, v) \<in> set n" for k v
    using omap_get_mem [OF assms(1)] omap_get_mem [OF assms(2)] get by simp
  then have s: "set m = set n" by auto
  have d: "sorted (map fst m)" "distinct (map fst m)" "sorted (map fst n)" "distinct (map fst n)"
    using assms(1,2) by (simp_all add: omap_inv_def strict_sorted_iff)
  have "inj_on fst (set m \<union> set n)" using s d(2) by (simp add: distinct_map)
  then show ?thesis using d s by (intro map_sorted_distinct_set_unique [of fst m n])
qed

lemma omap_values_mem: "omap_inv m \<Longrightarrow> v \<in> set (omap_values m) \<longleftrightarrow> (\<exists>k. omap_get m k = Some v)"
  by (force simp: omap_values_def omap_get_mem [symmetric])

end
