(* ===== verification/TunerMath.thy ===== *)
theory TunerMath
  imports Float64 OrdMap
begin

text \<open>
  The tuner's numeric primitives (\<open>seam/src/math.rs\<close>): recall, the FNV-1a hash, the deterministic
  train split, the type-7 quantile, the ef selection and the compliance confidence. Floats are
  binary64 values; the regularized incomplete beta function is an argument. An index that would be
  out of range is the value \<open>IndexPanic\<close>, so that its absence is a theorem.
\<close>

unbundle bit_operations_syntax

section \<open>Definitions\<close>

datatype math_error =
    ZeroK
  | EmptyQuantile
  | InvalidQuantileProbability
  | NonFiniteQuantileValue
  | EmptyEfGrid
  | InvalidSelectionInput
  | InvalidConfidenceInput
  | InvalidTrainFraction
  | IndexPanic   \<comment> \<open>a slice index out of range\<close>

datatype round_status = Status_Ok | TargetUnmet | InsufficientSamples

record ef_selection =
  es_recommended_ef :: int
  es_status :: round_status

definition recall_at_k :: "int list \<Rightarrow> int list \<Rightarrow> u32 \<Rightarrow> math_error + f64" where
  "recall_at_k gt_keys returned_keys k =
     (if k = 0 then Inl ZeroK
      else let hits = card (set gt_keys \<inter> set returned_keys)
           in Inr (f64_div (f64_of_nat hits) (f64_of_nat (unat k))))"

definition FNV_OFFSET_BASIS :: u64 where
  "FNV_OFFSET_BASIS = 0xcbf29ce484222325"

definition FNV_PRIME :: u64 where
  "FNV_PRIME = 0x00000100000001b3"

definition SPLIT_BUCKETS :: u64 where
  "SPLIT_BUCKETS = 10000"

definition fnv1a64 :: "u8 list \<Rightarrow> u64" where
  "fnv1a64 bytes = foldl (\<lambda>hash byte. (hash XOR ucast byte) * FNV_PRIME) FNV_OFFSET_BASIS bytes"

definition split_threshold :: "f64 \<Rightarrow> math_error + nat" where
  "split_threshold train_fraction =
     (if \<not> f64_is_finite train_fraction then Inl InvalidTrainFraction
      else let rounded = f64_round (f64_mul train_fraction (f64_of_nat (unat SPLIT_BUCKETS)))
           in if \<not> (f64_le (Fin 1) rounded \<and> f64_le rounded (Fin 9999))
              then Inl InvalidTrainFraction
              else Inr (f64_to_u64 rounded))"

definition is_train_member :: "u64 \<Rightarrow> u64 \<Rightarrow> f64 \<Rightarrow> math_error + bool" where
  "is_train_member vector_hash split_seed train_fraction =
     res_bind (split_threshold train_fraction) (\<lambda>threshold.
     let split_key = ''s:'' @ show_nat (unat split_seed) @ '':'' @ show_nat (unat vector_hash)
     in Inr (unat (fnv1a64 (str_bytes split_key) mod SPLIT_BUCKETS) < threshold))"

definition index_at :: "'a list \<Rightarrow> nat \<Rightarrow> math_error + 'a" where
  "index_at xs i = (if i < length xs then Inr (xs ! i) else Inl IndexPanic)"

definition quantile_type7 :: "f64 list \<Rightarrow> f64 \<Rightarrow> math_error + f64" where
  "quantile_type7 values q =
     (if values = [] then Inl EmptyQuantile
      else if \<not> f64_is_finite q \<or> \<not> (f64_le (Fin 0) q \<and> f64_le q (Fin 1))
      then Inl InvalidQuantileProbability
      else if list_ex (\<lambda>v. \<not> f64_is_finite v) values then Inl NonFiniteQuantileValue
      else
      let sorted = sort values in
      if length sorted = 1 then index_at sorted 0
      else
      let h = f64_mul (f64_of_nat (length sorted - 1)) q;
          lower = f64_to_u64 (f64_floor h);
          fraction = f64_sub h (f64_of_nat lower)
      in if f64_eq fraction (Fin 0) then index_at sorted lower
         else res_bind (index_at sorted lower) (\<lambda>a.
              res_bind (index_at sorted (lower + 1)) (\<lambda>b.
              Inr (f64_add a (f64_mul fraction (f64_sub b a))))))"

definition select_ef :: "(int, f64) omap \<Rightarrow> f64 \<Rightarrow> math_error + ef_selection" where
  "select_ef scores threshold =
     (if \<not> f64_is_finite threshold \<or> \<not> (f64_le (Fin 0) threshold \<and> f64_le threshold (Fin 1))
         \<or> f64_eq threshold (Fin 0)
         \<or> list_ex (\<lambda>score. \<not> f64_is_finite score
                      \<or> \<not> (f64_le (Fin 0) score \<and> f64_le score (Fin 1))) (omap_values scores)
      then Inl InvalidSelectionInput
      else
      res_bind (ok_or (last_key_value scores) EmptyEfGrid) (\<lambda>(maximum, score).
      if f64_lt score threshold
      then Inr \<lparr>es_recommended_ef = maximum, es_status = TargetUnmet\<rparr>
      else
      (case find (\<lambda>(ef, score). f64_le threshold score) scores of
         None \<Rightarrow> Inl IndexPanic
       | Some (recommended_ef, s) \<Rightarrow>
           Inr \<lparr>es_recommended_ef = recommended_ef, es_status = Status_Ok\<rparr>)))"

text \<open>\<open>beta_reg(a, b, x)\<close> is \<open>statrs::function::beta::beta_reg\<close>.\<close>

type_synonym beta_reg = "f64 \<Rightarrow> f64 \<Rightarrow> f64 \<Rightarrow> f64"

definition compliance_confidence :: "beta_reg \<Rightarrow> nat \<Rightarrow> nat \<Rightarrow> f64 \<Rightarrow> math_error + f64" where
  "compliance_confidence beta_reg n m percentile =
     (if n < m \<or> \<not> f64_is_finite percentile \<or> f64_le percentile (Fin 0) \<or> f64_le (Fin 1) percentile
      then Inl InvalidConfidenceInput
      else
      let successes = f64_add (f64_of_nat m) (Fin 1);
          failures = f64_add (f64_of_nat (n - m)) (Fin 1)
      in Inr (beta_reg failures successes (f64_sub (Fin 1) percentile)))"

section \<open>Facts\<close>

lemma recall_unit:
  assumes "k \<noteq> 0" and "card (set gt) \<le> unat k"
  shows "\<exists>r. recall_at_k gt ret k = Inr (Fin r) \<and> 0 \<le> r \<and> r \<le> 1"
proof -
  have "card (set gt \<inter> set ret) \<le> card (set gt)" by (intro card_mono) auto
  then have "card (set gt \<inter> set ret) \<le> unat k" using assms(2) by simp
  moreover have "0 < unat k" using assms(1) by (simp add: unat_gt_0)
  moreover have "unat k < 2 ^ 64" using u32_bound [of k] by simp
  ultimately show ?thesis
    using f64_ratio_unit [of "card (set gt \<inter> set ret)" "unat k"] assms(1)
    by (auto simp: recall_at_k_def Let_def)
qed

lemma split_threshold_Inr:
  assumes "split_threshold p = Inr t"
  shows "1 \<le> t \<and> t \<le> 9999"
proof -
  obtain r where r: "f64_round (f64_mul p (f64_of_nat (unat SPLIT_BUCKETS))) = r"
    "f64_le (Fin 1) r" "f64_le r (Fin 9999)" "t = f64_to_u64 r"
    using assms by (auto simp: split_threshold_def Let_def split: if_splits)
  then obtain q where q: "r = Fin q" "1 \<le> q" "q \<le> 9999"
    by (cases r) (auto simp: less_eq_f64_def)
  then have "1 \<le> \<lfloor>q\<rfloor>" "\<lfloor>q\<rfloor> \<le> 9999"
    by (simp_all add: le_floor_iff floor_le_iff)
  then have "1 \<le> nat \<lfloor>q\<rfloor>" "nat \<lfloor>q\<rfloor> \<le> 9999" by linarith+
  then show ?thesis using r(4) q by (simp add: usize_bound_def)
qed

text \<open>The two indices of the quantile are in range.\<close>

lemma product_le_last:
  assumes n: "n < 2 ^ 53" and q: "0 \<le> q" "q \<le> 1"
  shows "\<exists>h. f64_mul (f64_of_nat n) (Fin q) = Fin h \<and> 0 \<le> h \<and> h \<le> of_nat n"
proof -
  have p: "0 \<le> of_nat n * q" "of_nat n * q \<le> of_nat n"
    using q by (simp_all add: mult_left_le)
  have le: "round_pos (of_nat n * q) \<le> of_nat n"
    using round_pos_mono [OF p] round_pos_nat [OF n] by simp
  have "(of_nat n :: rat) < 2 ^ 1024"
  proof -
    have "(of_nat n :: rat) < of_nat (2 ^ 53)" using n by (simp only: of_nat_less_iff)
    also have "\<dots> \<le> 2 ^ 1024" unfolding of_nat_power of_nat_numeral
      by (rule power_increasing) simp_all
    finally show ?thesis .
  qed
  then have "fl (of_nat n * q) = Fin (round_pos (of_nat n * q))"
    using p(1) le by (intro fl_nonneg) linarith+
  then show ?thesis using round_pos_nonneg [OF p(1)] le n by (simp add: f64_of_nat_exact)
qed

lemma sub_zero_iff:
  "f64_sub (Fin a) (Fin a) = Fin 0"
  by (simp add: f64_sub_def)

lemma quantile_indices:
  assumes n: "n < 2 ^ 53" and q: "0 \<le> q" "q \<le> 1"
  defines "h \<equiv> f64_mul (f64_of_nat n) (Fin q)"
  defines "lower \<equiv> f64_to_u64 (f64_floor h)"
  shows "lower \<le> n"
    and "f64_sub h (f64_of_nat lower) \<noteq> Fin 0 \<Longrightarrow> lower + 1 \<le> n"
proof -
  obtain x where x: "h = Fin x" "0 \<le> x" "x \<le> of_nat n"
    using product_le_last [OF n q] h_def by auto
  have fl0: "0 \<le> \<lfloor>x\<rfloor>" using x(2) by simp
  have fln: "\<lfloor>x\<rfloor> \<le> int n" using x(3) by (metis floor_mono floor_of_nat)
  have "nat \<lfloor>x\<rfloor> \<le> n" using fln by (simp add: nat_le_iff)
  moreover have "nat \<lfloor>x\<rfloor> < usize_bound" using calculation n by (simp add: usize_bound_def)
  ultimately have l: "lower = nat \<lfloor>x\<rfloor>"
    using fl0 x(1) by (simp add: lower_def min_def)
  show le: "lower \<le> n" using l \<open>nat \<lfloor>x\<rfloor> \<le> n\<close> by simp
  have lf: "f64_of_nat lower = Fin (of_nat lower)" using le n by (intro f64_of_nat_exact) simp
  show "lower + 1 \<le> n" if "f64_sub h (f64_of_nat lower) \<noteq> Fin 0"
  proof (rule ccontr)
    assume "\<not> lower + 1 \<le> n"
    then have "lower = n" using le by simp
    then have "\<lfloor>x\<rfloor> = int n" using l fl0 by (metis int_nat_eq)
    then have "of_nat n \<le> x" by (simp add: floor_eq_iff)
    then have "h = Fin (of_nat lower)" using x \<open>lower = n\<close> by simp
    then show False using that lf sub_zero_iff by simp
  qed
qed

text \<open>The ordered scores: the last entry is the greatest key, the search meets the least first.\<close>

lemma find_sorted_least:
  assumes "omap_inv m" and "find P m = Some (k, v)"
  shows "(k, v) \<in> set m \<and> P (k, v) \<and> (\<forall>(j, w) \<in> set m. P (j, w) \<longrightarrow> k \<le> j)"
  using assms
proof (induction m)
  case (Cons x m)
  obtain j w where x: "x = (j, w)" by (cases x)
  show ?case
  proof (cases "P x")
    case True
    then show ?thesis using Cons.prems x by (auto simp: omap_inv_Cons intro: less_imp_le)
  next
    case False
    then show ?thesis using Cons x by (auto simp: omap_inv_Cons)
  qed
qed simp

lemma last_key_greatest:
  assumes "omap_inv m" and "last_key_value m = Some (k, v)"
  shows "(k, v) \<in> set m \<and> (\<forall>j \<in> fst ` set m. j \<le> k)"
proof -
  have ne: "m \<noteq> []" and l: "last m = (k, v)"
    using assms(2) by (auto simp: last_key_value_def split: if_splits)
  have m: "m = butlast m @ [(k, v)]" using append_butlast_last_id [OF ne] l by simp
  have "map fst m = map fst (butlast m) @ [k]"
    using arg_cong [OF m, of "map fst"] by (simp only: map_append list.map fst_conv)
  then have "sorted_wrt (<) (map fst (butlast m) @ [k])"
    using assms(1) by (simp add: omap_inv_def)
  then have "\<forall>j \<in> fst ` set (butlast m). j \<le> k"
    by (auto simp: sorted_wrt_append intro: less_imp_le)
  moreover have "set m = insert (k, v) (set (butlast m))"
    using arg_cong [OF m, of set] by (simp only: set_append list.set) simp
  ultimately show ?thesis by auto
qed

lemma quantile_total:
  assumes "values \<noteq> []" and "length values \<le> 2 ^ 53" and "\<forall>v \<in> set values. f64_is_finite v"
    and "0 \<le> q" and "q \<le> 1"
  shows "is_ok (quantile_type7 values (Fin q))"
proof -
  let ?n = "length values - 1"
  let ?h = "f64_mul (f64_of_nat ?n) (Fin q)"
  let ?l = "f64_to_u64 (f64_floor ?h)"
  have n: "?n < 2 ^ 53" using assms(1,2) by (cases "values") auto
  note idx = quantile_indices [OF n assms(4,5)]
  have len: "0 < length values" using assms(1) by simp
  have l1: "?l < length values" using idx(1) len by linarith
  have l2: "f64_sub ?h (f64_of_nat ?l) \<noteq> Fin 0 \<Longrightarrow> ?l + 1 < length values"
    using idx(2) len by linarith
  have fin: "\<not> list_ex (\<lambda>v. \<not> f64_is_finite v) values"
    using assms(3) by (simp add: list_ex_iff)
  obtain x where x: "f64_sub ?h (f64_of_nat ?l) = x" by simp
  have nn: "x \<noteq> NaN"
  proof -
    obtain y where "?h = Fin y" using product_le_last [OF n assms(4,5)] by blast
    moreover have "f64_of_nat ?l = Fin (of_nat ?l)"
      using idx(1) n by (intro f64_of_nat_exact) simp
    ultimately show ?thesis using x by (auto simp: f64_sub_def fl_def Let_def split: if_splits)
  qed
  show ?thesis
    using assms(1,4,5) fin l1 l2 len x nn
    by (simp add: quantile_type7_def Let_def index_at_def f64_eq_def)
qed

text \<open>The panics of the code are not reached, and the selection is one of its candidates.\<close>

lemma quantile_no_panic:
  assumes "length values \<le> 2 ^ 53"
  shows "quantile_type7 values q \<noteq> Inl IndexPanic"
proof
  assume p: "quantile_type7 values q = Inl IndexPanic"
  then have c: "values \<noteq> []" "f64_is_finite q" "f64_le (Fin 0) q" "f64_le q (Fin 1)"
    "\<not> list_ex (\<lambda>v. \<not> f64_is_finite v) values"
    by (auto simp: quantile_type7_def split: if_splits)
  then obtain r where "q = Fin r" "0 \<le> r" "r \<le> 1" by (cases q) auto
  then show False using c p assms quantile_total [of "values" r] by (simp add: list_ex_iff)
qed

lemma select_ef_no_panic: "select_ef scores t \<noteq> Inl IndexPanic"
proof
  assume p: "select_ef scores t = Inl IndexPanic"
  then obtain k v where last: "last_key_value scores = Some (k, v)" and lt: "\<not> f64_lt v t"
    and none: "find (\<lambda>(ef, score). f64_le t score) scores = None"
    and ok: "f64_is_finite t" "\<not> list_ex (\<lambda>s. \<not> f64_is_finite s \<or> \<not> (f64_le (Fin 0) s \<and> f64_le s (Fin 1)))
       (omap_values scores)"
    by (auto simp: select_ef_def result_simps split: if_splits option.splits)
  have mem: "(k, v) \<in> set scores"
    using last by (auto simp: last_key_value_def split: if_splits dest: last_in_set)
  then have "f64_is_finite v" using ok(2) by (force simp: list_ex_iff omap_values_def)
  then have "f64_le t v" using lt ok(1) by (cases t; cases v) auto
  then show False using none mem by (auto simp: find_None_iff)
qed

lemma select_ef_mem:
  assumes "select_ef scores t = Inr sel"
  shows "es_recommended_ef sel \<in> fst ` set scores"
  using assms
  by (auto simp: select_ef_def result_simps last_key_value_def find_Some_iff
      split: if_splits option.splits dest!: last_in_set)
    (metis fst_conv imageI nth_mem)+

lemma select_ef_status:
  "select_ef scores t = Inr sel \<Longrightarrow> es_status sel = Status_Ok \<or> es_status sel = TargetUnmet"
  by (auto simp: select_ef_def result_simps split: if_splits option.splits)

lemma confidence_no_panic: "compliance_confidence br n m p \<noteq> Inl IndexPanic"
  by (simp add: compliance_confidence_def Let_def)

section \<open>Properties\<close>

text \<open>
  The type-7 quantile never indexes out of range and rejects exactly the inputs its errors
  name: for fewer than 2^53 finite values and a probability in the unit interval it returns a
  number.
\<close>

lemma quantile_type7_total:
  assumes "values \<noteq> []" and "length values \<le> 2 ^ 53" and "\<forall>v \<in> set values. f64_is_finite v"
    and "0 \<le> q" and "q \<le> 1"
  shows "is_ok (quantile_type7 values (Fin q))"
  using assms by (rule quantile_total)

text \<open>
  C35. The ef selection is decided by the largest ef of the grid: when its score misses the threshold
  the selection is that largest ef with status target-unmet, whether or not a smaller ef clears it;
  when its score clears the threshold, the selection is the smallest ef whose score does, with status
  ok. The search that the code expects to succeed does.
\<close>

definition score_ok :: "f64 \<Rightarrow> bool" where
  "score_ok s \<longleftrightarrow> (\<exists>q. s = Fin q \<and> 0 \<le> q \<and> q \<le> 1)"

lemma score_ok_iff:
  "score_ok s \<longleftrightarrow> f64_is_finite s \<and> f64_le (Fin 0) s \<and> f64_le s (Fin 1)"
  by (cases s) (auto simp: score_ok_def less_eq_f64_def)

theorem select_ef_least:
  assumes "omap_inv scores" and "scores \<noteq> []" and "\<forall>(ef, s) \<in> set scores. score_ok s"
    and "0 < t" and "t \<le> 1"
  shows "\<exists>sel top score. select_ef scores (Fin t) = Inr sel
     \<and> (top, score) \<in> set scores \<and> (\<forall>ef \<in> fst ` set scores. ef \<le> top)
     \<and> (score < Fin t \<longrightarrow> sel = \<lparr>es_recommended_ef = top, es_status = TargetUnmet\<rparr>)
     \<and> (Fin t \<le> score \<longrightarrow> es_status sel = Status_Ok
          \<and> (\<exists>s. (es_recommended_ef sel, s) \<in> set scores \<and> Fin t \<le> s)
          \<and> (\<forall>(ef, s) \<in> set scores. Fin t \<le> s \<longrightarrow> es_recommended_ef sel \<le> ef))"
proof -
  have ok: "\<not> list_ex (\<lambda>score. \<not> f64_is_finite score
      \<or> \<not> (f64_le (Fin 0) score \<and> f64_le score (Fin 1))) (omap_values scores)"
    using assms(3) by (auto simp: list_ex_iff omap_values_def score_ok_iff)
  obtain k v where last: "last_key_value scores = Some (k, v)"
    using assms(2) by (auto simp: last_key_value_def) (metis surj_pair)
  note great = last_key_greatest [OF assms(1) last]
  have cmp: "f64_le (Fin t) s \<longleftrightarrow> Fin t \<le> s" "f64_lt s (Fin t) \<longleftrightarrow> s < Fin t"
    if "(e, s) \<in> set scores" for e s
    using that assms(3) by (auto simp: score_ok_def)
  have sel: "select_ef scores (Fin t) =
      (if f64_lt v (Fin t) then Inr \<lparr>es_recommended_ef = k, es_status = TargetUnmet\<rparr>
       else (case find (\<lambda>(ef, score). f64_le (Fin t) score) scores of
         None \<Rightarrow> Inl IndexPanic
       | Some (recommended_ef, s) \<Rightarrow>
           Inr \<lparr>es_recommended_ef = recommended_ef, es_status = Status_Ok\<rparr>))"
    using assms(4,5) ok last by (simp add: select_ef_def f64_eq_def)
  show ?thesis
  proof (cases "f64_lt v (Fin t)")
    case True
    moreover have "v < Fin t" using True great cmp by blast
    ultimately show ?thesis using sel great
      by (intro exI [of _ "\<lparr>es_recommended_ef = k, es_status = TargetUnmet\<rparr>"] exI [of _ k] exI [of _ v]) auto
  next
    case False
    then have v: "Fin t \<le> v" using great cmp by (auto simp: not_less)
    then have "f64_le (Fin t) v" using great cmp by blast
    then obtain k' v' where f: "find (\<lambda>(ef, score). f64_le (Fin t) score) scores = Some (k', v')"
      using great by (cases "find (\<lambda>(ef, score). f64_le (Fin t) score) scores")
        (auto simp: find_None_iff)
    note least = find_sorted_least [OF assms(1) f]
    show ?thesis
      using sel False f least cmp great v
      by (intro exI [of _ "\<lparr>es_recommended_ef = k', es_status = Status_Ok\<rparr>"] exI [of _ k] exI [of _ v]) auto
  qed
qed

text \<open>
  The witness is a grid whose smaller ef clears the threshold and whose largest does not: the selection is
  the largest, unmet.
\<close>

theorem select_ef_least_witness:
  "select_ef [(20, Fin 1), (40, Fin 0)] (Fin (3/4)) = Inr \<lparr>es_recommended_ef = 40, es_status = TargetUnmet\<rparr>"
proof -
  have "\<exists>sel top score. select_ef [(20, Fin 1), (40, Fin 0)] (Fin (3/4)) = Inr sel
     \<and> (top, score) \<in> set [(20, Fin 1), (40, Fin 0)] \<and> (\<forall>ef \<in> fst ` set [(20, Fin 1), (40, Fin 0)]. ef \<le> top)
     \<and> (score < Fin (3/4) \<longrightarrow> sel = \<lparr>es_recommended_ef = top, es_status = TargetUnmet\<rparr>)
     \<and> (Fin (3/4) \<le> score \<longrightarrow> es_status sel = Status_Ok
          \<and> (\<exists>s. (es_recommended_ef sel, s) \<in> set [(20, Fin 1), (40, Fin 0)] \<and> Fin (3/4) \<le> s)
          \<and> (\<forall>(ef, s) \<in> set [(20, Fin 1), (40, Fin 0)]. Fin (3/4) \<le> s \<longrightarrow> es_recommended_ef sel \<le> ef))"
    by (rule select_ef_least) (simp_all add: omap_inv_def score_ok_iff)
  then show ?thesis by (auto simp: less_f64_def)
qed

text \<open>
  The split is a deterministic cut of 10,000 buckets: when a fraction is accepted at all, its
  threshold is an interior bucket, and a vector is in the train split exactly when the bucket of
  its split key, which depends on the seed and the vector's hash only, is below the threshold.
\<close>

lemma split_membership_by_bucket:
  "is_train_member h seed p = Inr b \<longleftrightarrow>
     (\<exists>t. split_threshold p = Inr t \<and> 1 \<le> t \<and> t \<le> 9999
        \<and> b = (unat (fnv1a64 (str_bytes (''s:'' @ show_nat (unat seed) @ '':''
                 @ show_nat (unat h)))) mod 10000 < t))"
proof -
  have "unat (x mod SPLIT_BUCKETS) = unat x mod 10000" for x :: u64
    by (simp add: SPLIT_BUCKETS_def unat_mod_distrib)
  then show ?thesis
    using split_threshold_Inr [of p]
    by (auto simp: is_train_member_def result_simps Let_def)
qed

end
