(* ===== verification/TunerModel.thy ===== *)
theory TunerModel
  imports TunerMath Window
begin

text \<open>
  The tuner's pure data contracts (\<open>seam/src/model.rs\<close>): aggregation inputs, intermediate parts and
  the published round. A 32-bit signed integer is an \<open>int\<close>, a counter a 64-bit word. Where the code
  compares values that hold floats with the derived \<open>==\<close>, the model compares with IEEE equality,
  under which a NaN differs from itself.
\<close>

section \<open>Inputs\<close>

record aggregation_config =
  ac_cohort :: string
  ac_target_name :: string
  ac_index :: string
  ac_table :: string
  ac_column :: string
  ac_key :: string
  ac_k :: u32
  ac_value :: f64
  ac_percentile :: f64
  ac_selection_confidence :: f64
  ac_approval_confidence :: f64
  ac_window_duration_seconds :: u64
  ac_storage_window_seconds :: u32
  ac_ef_grid :: "int list"
  ac_train_fraction :: f64
  ac_split_seed :: u64

record listed_part =
  lp_part_ulid :: string
  lp_window_start :: u64
  lp_window_seconds :: u32
  lp_received_frame_count :: u64
  lp_record_count :: u64

record intermediate_metadata =
  im_format_version :: u32
  im_cohort :: string
  im_part_ulid :: string
  im_window_start :: u64
  im_window_seconds :: u32
  im_received_frame_count :: u64
  im_record_count :: u64
  im_index :: string
  im_table :: string
  im_column :: string
  im_key :: string
  im_k :: u32
  im_ef_grid :: "int list"
  im_failed_count :: u64
  im_measured_count :: u64
  im_computed_at_us :: u64

record sweep_measurement =
  sm_recall :: f64
  sm_latency_ms :: f64

record measured_sample =
  ms_record_index :: int
  ms_vector_hash :: u64
  ms_dup_count :: int
  ms_ground_truth_latency_ms :: f64
  ms_sweeps :: "(int, sweep_measurement) omap"

record intermediate_part =
  ip_metadata :: intermediate_metadata
  ip_samples :: "measured_sample list"

datatype phase_a_abort = TableSmallerThanK (abort_error: string)

section \<open>The published round\<close>

record round_target =
  rt_name :: string
  rt_k :: u32
  rt_value :: f64
  rt_percentile :: f64
  rt_selection_confidence :: f64
  rt_approval_confidence :: f64

record round_window =
  rw_start :: string
  rw_end :: string
  rw_duration_seconds :: u64

record sample_counts =
  sc_available :: u64
  sc_measured :: u64
  sc_failed :: u64
  sc_unique :: u64
  sc_train :: u64
  sc_test :: u64

record coverage_counts =
  cv_empty_window_fraction :: f64
  cv_windows_in_scope :: u64
  cv_windows_with_parts :: u64

record per_ef_summary =
  pe_ef :: int
  pe_quantile_recall :: f64
  pe_mean_recall :: f64
  pe_latency_mean_ms :: f64

record effective_rec =
  er_recommended_ef :: int
  er_confidence :: f64
  er_source_round :: string
  er_carried :: bool

record round_output =
  rd_format_version :: u32
  rd_cohort :: string
  rd_computed_at :: string
  rd_window :: round_window
  rd_target :: round_target
  rd_index :: string
  rd_ef_grid :: "int list"
  rd_status :: round_status
  rd_error :: "string option"
  rd_recommended_ef :: "int option"
  rd_confidence :: "f64 option"
  rd_train_confidence :: "f64 option"
  rd_train_compliance :: "f64 option"
  rd_train_quantile_recall :: "f64 option"
  rd_test_compliance :: "f64 option"
  rd_test_quantile_recall :: "f64 option"
  rd_effective :: "effective_rec option"
  rd_samples :: sample_counts
  rd_dropped_frame_fraction :: f64
  rd_coverage :: coverage_counts
  rd_parts_used :: u64
  rd_incompatible_parts :: u64
  rd_ground_truth_latency_mean_ms :: "f64 option"
  rd_per_ef :: "per_ef_summary list"

record aggregation_input =
  ai_config :: aggregation_config
  ai_round_end :: u64
  ai_computed_at :: string
  ai_phase_a_abort :: "phase_a_abort option"
  ai_phase_a_incompatible_parts :: u64
  ai_previous_round :: "round_output option"
  ai_listed_parts :: "listed_part list"
  ai_intermediates :: "intermediate_part list"

section \<open>Derived equality on values that hold floats\<close>

definition sweep_eq :: "sweep_measurement \<Rightarrow> sweep_measurement \<Rightarrow> bool" where
  "sweep_eq a b \<longleftrightarrow> f64_eq (sm_recall a) (sm_recall b) \<and> f64_eq (sm_latency_ms a) (sm_latency_ms b)"

definition sample_eq :: "measured_sample \<Rightarrow> measured_sample \<Rightarrow> bool" where
  "sample_eq a b \<longleftrightarrow>
     ms_record_index a = ms_record_index b \<and> ms_vector_hash a = ms_vector_hash b
     \<and> ms_dup_count a = ms_dup_count b
     \<and> f64_eq (ms_ground_truth_latency_ms a) (ms_ground_truth_latency_ms b)
     \<and> list_all2 (\<lambda>(e, s) (f, t). e = f \<and> sweep_eq s t) (ms_sweeps a) (ms_sweeps b)"

definition intermediate_eq :: "intermediate_part \<Rightarrow> intermediate_part \<Rightarrow> bool" where
  "intermediate_eq a b \<longleftrightarrow>
     ip_metadata a = ip_metadata b \<and> list_all2 sample_eq (ip_samples a) (ip_samples b)"

section \<open>Errors\<close>

datatype aggregate_error =
    A_Math math_error
  | A_Window window_error
  | WindowUnderflow
  | UnalignedRoundEnd
  | A_InvalidConfig string
  | ConflictingListedPart string
  | ConflictingIntermediate string
  | InvalidPartCounts string
  | CounterOverflow string
  | PartWindowOverflow string
  | MissingSweep string int int
  | InvalidObservation string int int
  | InvalidGroundTruthLatency string int

text \<open>The \<open>?\<close> conversions into the error.\<close>

definition a_math :: "math_error + 'a \<Rightarrow> aggregate_error + 'a" where
  "a_math r = map_err A_Math r"

definition a_window :: "window_error + 'a \<Rightarrow> aggregate_error + 'a" where
  "a_window r = map_err A_Window r"

lemma a_math_Inr [result_simps]: "a_math r = Inr x \<longleftrightarrow> r = Inr x"
  by (simp add: a_math_def result_simps)

lemma a_window_Inr [result_simps]: "a_window r = Inr x \<longleftrightarrow> r = Inr x"
  by (simp add: a_window_def result_simps)

end
