(* ===== verification/Accounting.thy ===== *)
theory Accounting
  imports TunerModel "HOL-Library.Product_Lexorder"
begin

text \<open>
  Rolling-window membership and collector accounting (\<open>seam/src/accounting.rs\<close>): the storage
  windows of a round, the drop fraction, the distinct listed parts in scope, and the coverage. The
  facts show which windows are enumerated, that the fractions are in the unit interval, and that the
  subtraction of the coverage cannot underflow.
\<close>

section \<open>Definitions\<close>

text \<open>The enumeration loop; it is entered with a width that is not zero.\<close>

function scope_loop :: "u64 \<Rightarrow> u64 \<Rightarrow> u64 \<Rightarrow> u64 list" where
  "scope_loop storage_width lower candidate_end =
     (if storage_width = 0 then []
      else
      (case checked_sub candidate_end storage_width of
         None \<Rightarrow> []
       | Some start \<Rightarrow>
           if start < lower then [] else start # scope_loop storage_width lower start))"
  by pat_completeness auto
termination
proof (relation "measure (\<lambda>(w, l, e). unat e)", goal_cases)
  case (2 w l e start)
  then have "w \<le> e" "start = e - w" by (simp_all add: arith_simps)
  moreover have "0 < unat w" using 2(1) by (simp add: unat_gt_0)
  ultimately show ?case by (simp add: unat_sub_le word_le_nat_alt)
qed simp

declare scope_loop.simps [simp del]

definition in_scope_window_starts :: "u64 \<Rightarrow> u64 \<Rightarrow> u32 \<Rightarrow> aggregate_error + u64 list" where
  "in_scope_window_starts round_end window_duration_seconds storage_window_seconds =
     (let storage_width = ucast storage_window_seconds :: u64 in
      if storage_width = 0 then Inl (A_Window ZeroDuration)
      else if round_end mod storage_width \<noteq> 0 then Inl UnalignedRoundEnd
      else
      res_bind (ok_or (checked_sub round_end window_duration_seconds) WindowUnderflow) (\<lambda>lower.
      Inr (rev (scope_loop storage_width lower round_end))))"

text \<open>One turn of the loop over the part headers.\<close>

definition drop_step :: "u64 \<times> u64 \<Rightarrow> string \<times> u64 \<times> u64 \<Rightarrow> aggregate_error + u64 \<times> u64" where
  "drop_step =
     (\<lambda>(received, records) (part_ulid, part_received, part_records).
         if part_received < part_records then Inl (InvalidPartCounts part_ulid)
         else
         res_bind (ok_or (checked_add received part_received)
                     (CounterOverflow ''received_frame_count'')) (\<lambda>received.
         res_bind (ok_or (checked_add records part_records) (CounterOverflow ''record_count''))
           (\<lambda>records. Inr (received, records))))"

definition dropped_frame_fraction :: "(string \<times> u64 \<times> u64) list \<Rightarrow> aggregate_error + f64" where
  "dropped_frame_fraction headers =
     res_bind (try_fold drop_step (0, 0) headers)
       (\<lambda>(received :: u64, records :: u64).
         if received = 0 then Inr (Fin 0)
         else Inr (f64_sub (Fin 1)
                (f64_div (f64_of_nat (unat records)) (f64_of_nat (unat received)))))"

definition scope_step ::
  "u64 \<Rightarrow> u64 \<Rightarrow> (string, listed_part) omap \<Rightarrow> listed_part \<Rightarrow> aggregate_error + (string, listed_part) omap" where
  "scope_step lower round_end unique part =
     res_bind (ok_or (checked_add (lp_window_start part) (ucast (lp_window_seconds part)))
                 (PartWindowOverflow (lp_part_ulid part))) (\<lambda>part_end.
     if lp_window_start part < lower \<or> round_end < part_end then Inr unique
     else
     (case omap_get unique (lp_part_ulid part) of
        Some existing \<Rightarrow>
          if existing \<noteq> part then Inl (ConflictingListedPart (lp_part_ulid part))
          else Inr (omap_insert (lp_part_ulid part) part unique)
      | None \<Rightarrow> Inr (omap_insert (lp_part_ulid part) part unique)))"

definition unique_in_scope_parts ::
  "listed_part list \<Rightarrow> u64 \<Rightarrow> u64 \<Rightarrow> aggregate_error + (string, listed_part) omap" where
  "unique_in_scope_parts parts lower round_end = try_fold (scope_step lower round_end) [] parts"

definition coverage :: "u64 list \<Rightarrow> (string, listed_part) omap \<Rightarrow> coverage_counts" where
  "coverage expected_windows listed =
     (let expected = set expected_windows;
          windows_with_parts =
            card (set (filter (\<lambda>w. w \<in> expected) (map lp_window_start (omap_values listed))));
          windows_in_scope = length expected_windows;
          empty_window_fraction =
            (if windows_in_scope = 0 then Fin 1
             else f64_div (f64_of_nat (windows_in_scope - windows_with_parts))
                    (f64_of_nat windows_in_scope))
      in \<lparr>cv_empty_window_fraction = empty_window_fraction,
          cv_windows_in_scope = word_of_nat windows_in_scope,
          cv_windows_with_parts = word_of_nat windows_with_parts\<rparr>)"

section \<open>Facts\<close>

lemma unat_lt_iff: "(a :: 'a::len word) < b \<longleftrightarrow> unat a < unat b"
  by (rule word_less_nat_alt)

text \<open>The loop walks down the multiples of the width below an aligned end.\<close>

lemma scope_loop_spec:
  assumes w: "w \<noteq> 0" and "unat w dvd unat e"
  shows "sorted_wrt (>) (scope_loop w lower e)
     \<and> (\<forall>s. s \<in> set (scope_loop w lower e) \<longleftrightarrow>
          unat w dvd unat s \<and> lower \<le> s \<and> unat s + unat w \<le> unat e)"
  using assms
proof (induction w lower e rule: scope_loop.induct)
  case (1 w lower e)
  have w0: "0 < unat w" using "1.prems"(1) by (simp add: unat_gt_0)
  show ?case
  proof (cases "w \<le> e")
    case False
    then have "checked_sub e w = None" by (simp add: checked_sub_def)
    then have "scope_loop w lower e = []" by (subst scope_loop.simps) simp
    then show ?thesis using False by (auto simp: word_le_nat_alt)
  next
    case True
    let ?s = "e - w"
    have c: "checked_sub e w = Some ?s" using True by (simp add: checked_sub_def)
    have us: "unat ?s = unat e - unat w" using True by (simp add: unat_sub_le)
    have le: "unat w \<le> unat e" using True by (simp add: word_le_nat_alt)
    have dvd: "unat w dvd unat ?s" using us le "1.prems"(2) by (simp add: dvd_diff_nat)
    have multiple: "unat t + unat w \<le> unat e \<longleftrightarrow> unat t \<le> unat ?s" for t :: u64
      using us le by linarith
    have gap: "unat t \<le> unat ?s \<longleftrightarrow> t = ?s \<or> unat t + unat w \<le> unat ?s" if "unat w dvd unat t" for t
    proof
      assume t: "unat t \<le> unat ?s"
      show "t = ?s \<or> unat t + unat w \<le> unat ?s"
      proof (cases "unat t = unat ?s")
        case True
        then show ?thesis by (simp add: word_unat_eq_iff)
      next
        case False
        then have "0 < unat ?s - unat t" using t by simp
        moreover have "unat w dvd unat ?s - unat t" using dvd that by (simp add: dvd_diff_nat)
        ultimately have "unat w \<le> unat ?s - unat t" by (rule dvd_imp_le [rotated])
        then show ?thesis using t by linarith
      qed
    qed auto
    show ?thesis
    proof (cases "?s < lower")
      case lt: True
      then have "scope_loop w lower e = []" using c by (subst scope_loop.simps) simp
      moreover have "\<not> (lower \<le> t \<and> unat t + unat w \<le> unat e)" for t
        using lt multiple [of t] by (auto simp: word_less_nat_alt word_le_nat_alt)
      ultimately show ?thesis by auto
    next
      case ge: False
      have eq: "scope_loop w lower e = ?s # scope_loop w lower ?s"
        using c ge "1.prems"(1) by (subst scope_loop.simps) simp
      note IH = "1.IH" [OF "1.prems"(1) c ge "1.prems"(1) dvd]
      have "\<forall>t \<in> set (scope_loop w lower ?s). t < ?s"
        using IH w0 by (auto simp: word_less_nat_alt)
      then have "sorted_wrt (>) (scope_loop w lower e)" using IH eq by simp
      moreover have "t \<in> set (scope_loop w lower e) \<longleftrightarrow>
          unat w dvd unat t \<and> lower \<le> t \<and> unat t + unat w \<le> unat e" for t
        using IH multiple [of t] gap [of t] dvd ge eq by (auto simp: not_less)
      ultimately show ?thesis by blast
    qed
  qed
qed

text \<open>The running totals keep the records below the received frames.\<close>

lemma drop_totals:
  assumes "try_fold drop_step (a, b) headers = Inr (rec, recs)"
    and "unat (b :: u64) \<le> unat (a :: u64)"
  shows "unat recs \<le> unat rec
     \<and> unat rec = unat a + (\<Sum>(u, r, n) \<leftarrow> headers. unat r)
     \<and> unat recs = unat b + (\<Sum>(u, r, n) \<leftarrow> headers. unat n)"
  using assms
proof (induction headers arbitrary: a b)
  case (Cons x xs)
  obtain u r n where x: "x = (u, r, n)" by (cases x)
  obtain a' b' where s: "\<not> r < n" "unat a' = unat a + unat r" "unat b' = unat b + unat n"
    and rest: "try_fold drop_step (a', b') xs = Inr (rec, recs)"
    using Cons.prems(1) x by (auto simp: drop_step_def result_simps arith_simps split: if_splits)
  have "unat b' \<le> unat a'" using s Cons.prems(2) by (simp add: word_less_nat_alt)
  then show ?case using Cons.IH [OF rest] s x by simp
qed simp

lemma coverage_no_underflow:
  "card (set (filter (\<lambda>w. w \<in> set es) ws)) \<le> length es"
proof -
  have "card (set (filter (\<lambda>w. w \<in> set es) ws)) \<le> card (set es)" by (rule card_mono) auto
  then show ?thesis using card_length [of es] by linarith
qed

lemma scope_step_inv:
  "scope_step lower e m p = Inr m' \<Longrightarrow> omap_inv m \<Longrightarrow> omap_inv m'"
  by (auto simp: scope_step_def result_simps omap_insert_inv split: if_splits option.splits)

lemma unique_in_scope_parts_inv:
  "unique_in_scope_parts ps lower e = Inr m \<Longrightarrow> omap_inv m"
  unfolding unique_in_scope_parts_def
  by (erule try_fold_invariant) (auto simp: omap_inv_def dest: scope_step_inv [unfolded omap_inv_def])

section \<open>Properties\<close>

text \<open>
  C39. The storage windows of a round are exactly the aligned windows that lie wholly between the
  start and the end of its rolling window, listed in ascending order without repetition.
\<close>

theorem in_scope_windows_exact:
  assumes "in_scope_window_starts round_end duration width = Inr starts"
  shows "sorted_wrt (<) starts
     \<and> (s \<in> set starts \<longleftrightarrow>
          unat width dvd unat s \<and> unat round_end - unat duration \<le> unat s
          \<and> unat s + unat width \<le> unat round_end)"
proof -
  let ?w = "ucast width :: u64"
  obtain lower where w: "?w \<noteq> 0" and al: "round_end mod ?w = 0"
    and lo: "checked_sub round_end duration = Some lower"
    and st: "starts = rev (scope_loop ?w lower round_end)"
    using assms by (auto simp: in_scope_window_starts_def Let_def result_simps split: if_splits)
  have lower: "unat lower = unat round_end - unat duration"
    using lo by (auto simp: arith_simps unat_sub_le)
  have "unat (round_end mod ?w) = 0" using al by simp
  then have "unat ?w dvd unat round_end" by (simp add: unat_mod_distrib dvd_eq_mod_eq_0)
  from scope_loop_spec [OF w this, of lower] show ?thesis
    by (simp add: st sorted_wrt_rev word_le_nat_alt lower)
qed

theorem in_scope_windows_exact_witness:
  "sorted_wrt (<) [600, 1200 :: u64]
     \<and> (600 \<in> set [600, 1200 :: u64] \<longleftrightarrow>
          unat (600 :: u32) dvd unat (600 :: u64) \<and> unat (1800 :: u64) - unat (1200 :: u64) \<le> unat (600 :: u64)
          \<and> unat (600 :: u64) + unat (600 :: u32) \<le> unat (1800 :: u64))"
proof -
  have "in_scope_window_starts 1800 1200 600 = Inr [600, 1200]"
    by (simp add: in_scope_window_starts_def Let_def checked_sub_def scope_loop.simps)
  then show ?thesis by (rule in_scope_windows_exact)
qed

text \<open>
  The drop fraction of a round is a number in the unit interval whenever it is computed, and it
  is computed unless a part's record count exceeds its received count or a total overflows.
\<close>

lemma dropped_fraction_unit:
  "(\<forall>f. dropped_frame_fraction headers = Inr f \<longrightarrow> (\<exists>r. f = Fin r \<and> 0 \<le> r \<and> r \<le> 1))
   \<and> ((\<forall>(u, r, n) \<in> set headers. n \<le> r) \<and> (\<Sum>(u, r, n) \<leftarrow> headers. unat r) < 2 ^ 64 \<longrightarrow>
        is_ok (dropped_frame_fraction headers))"
proof (intro conjI impI allI)
  fix f
  assume "dropped_frame_fraction headers = Inr f"
  then obtain rec recs where t: "try_fold drop_step (0, 0) headers = Inr (rec :: u64, recs :: u64)"
    and f: "f = (if rec = 0 then Fin 0 else f64_sub (Fin 1)
                (f64_div (f64_of_nat (unat recs)) (f64_of_nat (unat rec))))"
    by (auto simp: dropped_frame_fraction_def result_simps split: if_splits)
  have le: "unat recs \<le> unat rec" using drop_totals [OF t] by simp
  show "\<exists>r. f = Fin r \<and> 0 \<le> r \<and> r \<le> 1"
  proof (cases "rec = 0")
    case True
    then show ?thesis using f by simp
  next
    case False
    then have "0 < unat rec" by (simp add: unat_gt_0)
    then show ?thesis
      using f64_ratio_unit [OF le] f64_one_minus_unit u64_bound [of rec] f False
      by (fastforce simp: usize_bound_def)
  qed
next
  assume ok: "(\<forall>(u, r, n) \<in> set headers. n \<le> r) \<and> (\<Sum>(u, r, n) \<leftarrow> headers. unat r) < 2 ^ 64"
  have "is_ok (try_fold drop_step (a :: u64, b :: u64) hs)"
    if "\<forall>(u, r, n) \<in> set hs. n \<le> r" "unat a + (\<Sum>(u, r, n) \<leftarrow> hs. unat r) < 2 ^ 64"
      "unat b \<le> unat a" for a b hs
    using that
  proof (induction hs arbitrary: a b)
    case (Cons x xs)
    obtain u r n where x: "x = (u, r, n)" by (cases x)
    have nr: "unat n \<le> unat r" using Cons.prems(1) x by (simp add: word_le_nat_alt)
    have ar: "unat a + unat r < 2 ^ 64" using Cons.prems(2) x by simp
    have bn: "unat b + unat n < 2 ^ 64" using ar nr Cons.prems(3) by linarith
    have s: "checked_add a r = Some (a + r)" "checked_add b n = Some (b + n)"
      using ar bn by (simp_all add: checked_add_def)
    have u: "unat (a + r) = unat a + unat r" "unat (b + n) = unat b + unat n"
      using ar bn by (simp_all add: unat_add_no_overflow)
    have "is_ok (try_fold drop_step (a + r, b + n) xs)"
      using Cons.prems x nr by (intro Cons.IH) (simp_all add: u)
    then show ?case using x s nr by (simp add: drop_step_def word_less_nat_alt)
  qed simp
  from this [of headers 0 0] ok show "is_ok (dropped_frame_fraction headers)"
    by (auto simp: dropped_frame_fraction_def is_ok_iff)
qed

end
