(* ===== verification/Population.thy ===== *)
theory Population
  imports Accounting
begin

text \<open>
  The deduplicated population of a round (\<open>seam/src/population.rs\<close>): one survivor per vector hash,
  the validation of its observations, the summary of every ef, and the selection on the train split
  with its check on the holdout. A map index \<open>sweeps[ef]\<close> without an entry is the error
  \<open>A_Math IndexPanic\<close>; the facts show that a validated population never meets it.
\<close>

section \<open>Definitions\<close>

record population_sample =
  ps_part_ulid :: string
  ps_record_index :: int
  ps_vector_hash :: u64
  ps_ground_truth_latency_ms :: f64
  ps_sweeps :: "(int, sweep_measurement) omap"

definition candidate :: "string \<times> measured_sample \<Rightarrow> population_sample" where
  "candidate = (\<lambda>(part_ulid, sample).
     \<lparr>ps_part_ulid = part_ulid, ps_record_index = ms_record_index sample,
      ps_vector_hash = ms_vector_hash sample,
      ps_ground_truth_latency_ms = ms_ground_truth_latency_ms sample,
      ps_sweeps = ms_sweeps sample\<rparr>)"

definition dedup_step ::
  "string \<times> measured_sample \<Rightarrow> (u64, population_sample) omap \<Rightarrow> (u64, population_sample) omap" where
  "dedup_step x survivors =
     (let c = candidate x; hash = ms_vector_hash (snd x) in
      case omap_get survivors hash of
        Some current \<Rightarrow>
          if (ps_part_ulid c, ps_record_index c) < (ps_part_ulid current, ps_record_index current)
          then omap_insert hash c survivors
          else survivors
      | None \<Rightarrow> omap_insert hash c survivors)"

definition deduplicate_samples :: "(string \<times> measured_sample) list \<Rightarrow> population_sample list" where
  "deduplicate_samples samples = omap_values (fold dedup_step samples [])"

definition observation_ok :: "sweep_measurement \<Rightarrow> bool" where
  "observation_ok observation \<longleftrightarrow>
     \<not> (\<not> f64_is_finite (sm_recall observation)
        \<or> \<not> (f64_le (Fin 0) (sm_recall observation) \<and> f64_le (sm_recall observation) (Fin 1))
        \<or> \<not> f64_is_finite (sm_latency_ms observation)
        \<or> f64_lt (sm_latency_ms observation) (Fin 0))"

definition validate_sample :: "int list \<Rightarrow> population_sample \<Rightarrow> aggregate_error + unit" where
  "validate_sample ef_grid sample =
     (if \<not> f64_is_finite (ps_ground_truth_latency_ms sample)
         \<or> f64_lt (ps_ground_truth_latency_ms sample) (Fin 0)
      then Inl (InvalidGroundTruthLatency (ps_part_ulid sample) (ps_record_index sample))
      else try_fold (\<lambda>_ ef.
        res_bind (ok_or (omap_get (ps_sweeps sample) ef)
                    (MissingSweep (ps_part_ulid sample) (ps_record_index sample) ef)) (\<lambda>observation.
        if \<not> observation_ok observation
        then Inl (InvalidObservation (ps_part_ulid sample) (ps_record_index sample) ef)
        else Inr ())) () ef_grid)"

definition validate_population :: "population_sample list \<Rightarrow> int list \<Rightarrow> aggregate_error + unit" where
  "validate_population population ef_grid =
     try_fold (\<lambda>_ sample. validate_sample ef_grid sample) () population"

text \<open>\<open>sample.sweeps[ef]\<close>.\<close>

definition sweep_at :: "population_sample \<Rightarrow> int \<Rightarrow> aggregate_error + sweep_measurement" where
  "sweep_at sample ef = ok_or (omap_get (ps_sweeps sample) ef) (A_Math IndexPanic)"

definition f64_mean :: "f64 list \<Rightarrow> f64" where
  "f64_mean xs = f64_div (f64_sum xs) (f64_of_nat (length xs))"

definition per_ef_summaries ::
  "population_sample list \<Rightarrow> aggregation_config \<Rightarrow> aggregate_error + per_ef_summary list" where
  "per_ef_summaries population config =
     (if population = [] then Inr []
      else
      let q = f64_sub (Fin 1) (ac_percentile config) in
      res_map (\<lambda>ef.
        res_bind (res_map (\<lambda>sample. sweep_at sample ef) population) (\<lambda>observations.
        let recalls = map sm_recall observations; latencies = map sm_latency_ms observations in
        res_bind (a_math (quantile_type7 recalls q)) (\<lambda>quantile_recall.
        Inr \<lparr>pe_ef = ef, pe_quantile_recall = quantile_recall,
             pe_mean_recall = f64_mean recalls, pe_latency_mean_ms = f64_mean latencies\<rparr>)))
        (ac_ef_grid config))"

record completed_selection =
  cs_recommended_ef :: int
  cs_status :: round_status
  cs_train_confidence :: f64
  cs_train_compliance :: f64
  cs_train_quantile :: f64
  cs_confidence :: f64
  cs_test_compliance :: f64
  cs_test_quantile :: f64

record split_evaluation =
  se_confidence :: f64
  se_compliance :: f64
  se_quantile :: f64

definition evaluate_split ::
  "beta_reg \<Rightarrow> aggregation_config \<Rightarrow> population_sample list \<Rightarrow> int \<Rightarrow> aggregate_error + split_evaluation" where
  "evaluate_split beta_reg config samples ef =
     res_bind (res_map (\<lambda>sample. sweep_at sample ef) samples) (\<lambda>observations.
     let recalls = map sm_recall observations;
         successes = length (filter (\<lambda>recall. f64_le (ac_value config) recall) recalls) in
     res_bind (a_math (compliance_confidence beta_reg (length samples) successes (ac_percentile config)))
       (\<lambda>confidence.
     res_bind (a_math (quantile_type7 recalls (f64_sub (Fin 1) (ac_percentile config)))) (\<lambda>quantile.
     Inr \<lparr>se_confidence = confidence,
          se_compliance = f64_div (f64_of_nat successes) (f64_of_nat (length samples)),
          se_quantile = quantile\<rparr>)))"

definition train_score ::
  "beta_reg \<Rightarrow> aggregation_config \<Rightarrow> population_sample list \<Rightarrow> int \<Rightarrow> aggregate_error + int \<times> f64" where
  "train_score beta_reg config train ef =
     res_bind (res_map (\<lambda>sample. sweep_at sample ef) train) (\<lambda>observations.
     let successes = length (filter (\<lambda>obs. f64_le (ac_value config) (sm_recall obs)) observations) in
     res_bind (a_math (compliance_confidence beta_reg (length train) successes (ac_percentile config)))
       (\<lambda>confidence. Inr (ef, confidence)))"

definition select_and_validate ::
  "beta_reg \<Rightarrow> aggregation_config \<Rightarrow> population_sample list \<Rightarrow> population_sample list
     \<Rightarrow> aggregate_error + completed_selection" where
  "select_and_validate beta_reg config train test =
     res_bind (res_map (train_score beta_reg config train) (ac_ef_grid config)) (\<lambda>pairs.
     res_bind (a_math (select_ef (omap_of_list pairs) (ac_selection_confidence config))) (\<lambda>selected.
     res_bind (evaluate_split beta_reg config train (es_recommended_ef selected)) (\<lambda>train_stats.
     res_bind (evaluate_split beta_reg config test (es_recommended_ef selected)) (\<lambda>holdout.
     Inr \<lparr>cs_recommended_ef = es_recommended_ef selected, cs_status = es_status selected,
          cs_train_confidence = se_confidence train_stats,
          cs_train_compliance = se_compliance train_stats,
          cs_train_quantile = se_quantile train_stats,
          cs_confidence = se_confidence holdout, cs_test_compliance = se_compliance holdout,
          cs_test_quantile = se_quantile holdout\<rparr>))))"

section \<open>Deduplication\<close>

definition sample_rank :: "population_sample \<Rightarrow> string \<times> int" where
  "sample_rank s = (ps_part_ulid s, ps_record_index s)"

lemma dedup_step_keep_least:
  "dedup_step = btree.keep_least (\<lambda>x. ms_vector_hash (snd x)) candidate sample_rank"
  by (intro ext) (unfold dedup_step_def btree.keep_least_def sample_rank_def Let_def, rule refl)

lemma dedup_inv: "omap_inv (fold dedup_step xs [])"
  unfolding dedup_step_keep_least by (intro btree.fold_keep_least_inv) (simp add: omap_inv_def)

lemmas dedup_get = btree.fold_keep_least [OF btree.inv_empty, of "\<lambda>x. ms_vector_hash (snd x)" candidate sample_rank,
  folded dedup_step_keep_least]

lemma candidate_simps [simp]:
  "ps_part_ulid (candidate x) = fst x"
  "ps_record_index (candidate x) = ms_record_index (snd x)"
  "ps_vector_hash (candidate x) = ms_vector_hash (snd x)"
  "ps_sweeps (candidate x) = ms_sweeps (snd x)"
  by (cases x, simp add: candidate_def)+

lemma dedup_survivor:
  assumes "omap_get (fold dedup_step xs []) h = Some s"
  shows "ps_vector_hash s = h" and "\<exists>x \<in> set xs. ms_vector_hash (snd x) = h \<and> s = candidate x"
    and "\<forall>x \<in> set xs. ms_vector_hash (snd x) = h \<longrightarrow> sample_rank s \<le> sample_rank (candidate x)"
  using dedup_get(2) [OF assms] by (auto simp: omap_get_def)

lemma dedup_none: "omap_get (fold dedup_step xs []) h = None \<longleftrightarrow> (\<forall>x \<in> set xs. ms_vector_hash (snd x) \<noteq> h)"
  using dedup_get(1) [of xs h] by (simp add: omap_get_def)

lemma dedup_hashes: "map ps_vector_hash (deduplicate_samples xs) = map fst (fold dedup_step xs [])"
proof -
  have "ps_vector_hash s = h" if "(h, s) \<in> set (fold dedup_step xs [])" for h s
    using that dedup_survivor(1) omap_get_mem [OF dedup_inv] by blast
  then show ?thesis by (auto simp: deduplicate_samples_def omap_values_def)
qed

lemma dedup_mem:
  assumes "s \<in> set (deduplicate_samples xs)"
  shows "omap_get (fold dedup_step xs []) (ps_vector_hash s) = Some s"
  using assms dedup_survivor(1) omap_values_mem [OF dedup_inv]
  by (auto simp: deduplicate_samples_def)

lemma deduplicate_length: "length (deduplicate_samples xs) \<le> length xs"
proof -
  have "fst ` set (fold dedup_step xs []) \<subseteq> (\<lambda>x. ms_vector_hash (snd x)) ` set xs"
  proof
    fix h
    assume "h \<in> fst ` set (fold dedup_step xs [])"
    then have "omap_get (fold dedup_step xs []) h \<noteq> None"
      by (simp add: omap_get_def map_of_eq_None_iff)
    then show "h \<in> (\<lambda>x. ms_vector_hash (snd x)) ` set xs" using dedup_none [of xs h] by force
  qed
  then have "card (fst ` set (fold dedup_step xs [])) \<le> card ((\<lambda>x. ms_vector_hash (snd x)) ` set xs)"
    by (rule card_mono [rotated]) simp
  also have "\<dots> \<le> length xs" using card_image_le card_length le_trans by blast
  finally have "card (set (map fst (fold dedup_step xs []))) \<le> length xs" by simp
  moreover have "distinct (map fst (fold dedup_step xs []))"
    using dedup_inv [of xs] by (simp add: omap_inv_def strict_sorted_iff)
  ultimately have "length (map fst (fold dedup_step xs [])) \<le> length xs"
    by (simp only: distinct_card)
  then show ?thesis by (simp add: deduplicate_samples_def omap_values_def)
qed

section \<open>Validation\<close>

lemma try_fold_unit_ok:
  "try_fold (\<lambda>_. f) () xs = Inr () \<longleftrightarrow> (\<forall>x \<in> set xs. f x = Inr ())"
  by (induction xs) (auto simp: result_simps)

definition sample_ok :: "int list \<Rightarrow> population_sample \<Rightarrow> bool" where
  "sample_ok ef_grid s \<longleftrightarrow>
     f64_is_finite (ps_ground_truth_latency_ms s) \<and> \<not> f64_lt (ps_ground_truth_latency_ms s) (Fin 0)
     \<and> (\<forall>ef \<in> set ef_grid. \<exists>obs. omap_get (ps_sweeps s) ef = Some obs \<and> observation_ok obs)"

lemma validate_sample_ok: "validate_sample ef_grid s = Inr () \<longleftrightarrow> sample_ok ef_grid s"
  by (auto simp: validate_sample_def sample_ok_def try_fold_unit_ok result_simps)

lemma validate_population_ok:
  "validate_population population ef_grid = Inr () \<longleftrightarrow> (\<forall>s \<in> set population. sample_ok ef_grid s)"
  by (simp add: validate_population_def try_fold_unit_ok validate_sample_ok)

lemma observation_recall: "observation_ok obs \<Longrightarrow> score_ok (sm_recall obs)"
  by (auto simp: observation_ok_def score_ok_iff)

lemma sweeps_at_ok:
  assumes "\<forall>s \<in> set population. sample_ok ef_grid s" and "ef \<in> set ef_grid"
  shows "\<exists>os. res_map (\<lambda>s. sweep_at s ef) population = Inr os \<and> (\<forall>obs \<in> set os. observation_ok obs)"
  using assms(1)
proof (induction population)
  case (Cons s ss)
  then obtain obs where "omap_get (ps_sweeps s) ef = Some obs" "observation_ok obs"
    using assms(2) by (auto simp: sample_ok_def)
  then show ?case using Cons by (auto simp: sweep_at_def)
qed simp

section \<open>The indices of a validated population\<close>

lemma res_map_no_error:
  "(\<And>x. x \<in> set xs \<Longrightarrow> f x \<noteq> Inl e) \<Longrightarrow> res_map f xs \<noteq> Inl e"
  by (induction xs) (auto simp: result_simps)

lemma a_math_panic: "a_math r = Inl (A_Math IndexPanic) \<longleftrightarrow> r = Inl IndexPanic"
  by (auto simp: a_math_def result_simps)

lemma sweeps_no_panic:
  "\<forall>s \<in> set population. sample_ok ef_grid s \<Longrightarrow> ef \<in> set ef_grid
     \<Longrightarrow> res_map (\<lambda>s. sweep_at s ef) population \<noteq> Inl e"
  using sweeps_at_ok by fastforce

lemma recalls_no_panic:
  "length obs \<le> 2 ^ 53 \<Longrightarrow> quantile_type7 (map sm_recall obs) q \<noteq> Inl IndexPanic"
  by (rule quantile_no_panic) simp

lemmas no_panic = sweeps_no_panic recalls_no_panic confidence_no_panic select_ef_no_panic

lemma summaries_no_panic:
  assumes "\<forall>s \<in> set population. sample_ok (ac_ef_grid config) s" and "length population \<le> 2 ^ 53"
  shows "per_ef_summaries population config \<noteq> Inl (A_Math IndexPanic)"
  unfolding per_ef_summaries_def Let_def using assms
  by (auto simp: result_simps a_math_panic no_panic dest!: res_map_length intro!: res_map_no_error)

lemma evaluate_no_panic:
  assumes "\<forall>s \<in> set samples. sample_ok (ac_ef_grid config) s" and "length samples \<le> 2 ^ 53"
    and "ef \<in> set (ac_ef_grid config)"
  shows "evaluate_split br config samples ef \<noteq> Inl (A_Math IndexPanic)"
  unfolding evaluate_split_def Let_def using assms
  by (auto simp: result_simps a_math_panic no_panic dest!: res_map_length)

lemma omap_of_list_keys: "fst ` set (omap_of_list xs) = fst ` set xs"
proof -
  have "fst ` set (fold (\<lambda>(k, v). omap_insert k v) xs m) = fst ` set m \<union> fst ` set xs" for m
    by (induction xs arbitrary: m) (simp_all add: omap_insert_keys case_prod_beta)
  then show ?thesis by (simp add: omap_of_list_def)
qed

text \<open>The selected ef is one of the grid.\<close>

lemma train_scores_keys:
  assumes "res_map (train_score br config train) grid = Inr pairs"
  shows "map fst pairs = grid"
  using assms
proof (induction grid arbitrary: pairs)
  case (Cons ef grid)
  then show ?case by (auto simp: result_simps train_score_def Let_def)
qed simp

lemma selected_in_grid:
  assumes "res_map (train_score br config train) grid = Inr pairs"
    and "select_ef (omap_of_list pairs) t = Inr sel"
  shows "es_recommended_ef sel \<in> set grid"
  using select_ef_mem [OF assms(2)] arg_cong [OF train_scores_keys [OF assms(1)], of set]
  by (simp add: omap_of_list_keys)

lemma select_no_panic:
  assumes "\<forall>s \<in> set train. sample_ok (ac_ef_grid config) s" and "length train \<le> 2 ^ 53"
    and "\<forall>s \<in> set test. sample_ok (ac_ef_grid config) s" and "length test \<le> 2 ^ 53"
  shows "select_and_validate br config train test \<noteq> Inl (A_Math IndexPanic)"
proof -
  have "res_map (train_score br config train) (ac_ef_grid config) \<noteq> Inl (A_Math IndexPanic)"
    unfolding train_score_def Let_def using assms
    by (auto simp: result_simps a_math_panic no_panic intro!: res_map_no_error)
  then show ?thesis unfolding select_and_validate_def using assms
    by (auto simp: result_simps a_math_panic no_panic evaluate_no_panic dest: selected_in_grid)
qed

section \<open>Properties\<close>

text \<open>
  C31. Deduplication keeps one sample per vector hash, in ascending order of the hashes, none of
  them lost; the survivor is one of the samples of its hash, and none of the others comes before it
  in the order of part ULID and record ordinal.
\<close>

theorem deduplicate_keeps_least:
  "sorted_wrt (<) (map ps_vector_hash (deduplicate_samples xs))
   \<and> set (map ps_vector_hash (deduplicate_samples xs)) = (\<lambda>x. ms_vector_hash (snd x)) ` set xs
   \<and> (\<forall>s \<in> set (deduplicate_samples xs).
        (\<exists>x \<in> set xs. s = candidate x)
        \<and> (\<forall>x \<in> set xs. ms_vector_hash (snd x) = ps_vector_hash s \<longrightarrow>
             (ps_part_ulid s, ps_record_index s) \<le> (fst x, ms_record_index (snd x))))"
proof (intro conjI ballI)
  show "sorted_wrt (<) (map ps_vector_hash (deduplicate_samples xs))"
    using dedup_inv [of xs] by (simp add: dedup_hashes omap_inv_def)
  have "h \<in> fst ` set (fold dedup_step xs []) \<longleftrightarrow> (\<exists>x \<in> set xs. h = ms_vector_hash (snd x))" for h
    using dedup_none [of xs h] omap_get_def [of "fold dedup_step xs []" h]
    by (metis map_of_eq_None_iff)
  then show "set (map ps_vector_hash (deduplicate_samples xs)) = (\<lambda>x. ms_vector_hash (snd x)) ` set xs"
    unfolding dedup_hashes by (auto simp: image_iff)
next
  fix s
  assume "s \<in> set (deduplicate_samples xs)"
  note facts = dedup_survivor(2,3) [OF dedup_mem [OF this]]
  show "\<exists>x \<in> set xs. s = candidate x" using facts(1) by blast
  fix x
  assume "x \<in> set xs"
  then show "ms_vector_hash (snd x) = ps_vector_hash s \<longrightarrow>
      (ps_part_ulid s, ps_record_index s) \<le> (fst x, ms_record_index (snd x))"
    using facts(2) by (simp add: sample_rank_def del: less_eq_prod_simp)
qed

definition example_sample :: "int \<Rightarrow> u64 \<Rightarrow> measured_sample" where
  "example_sample i h =
     \<lparr>ms_record_index = i, ms_vector_hash = h, ms_dup_count = 0, ms_ground_truth_latency_ms = Fin 2,
      ms_sweeps = [(10, \<lparr>sm_recall = Fin 0, sm_latency_ms = Fin 1\<rparr>),
                   (20, \<lparr>sm_recall = Fin 1, sm_latency_ms = Fin 2\<rparr>)]\<rparr>"

theorem deduplicate_keeps_least_witness:
  "set (map ps_vector_hash (deduplicate_samples [(''b'', example_sample 0 7), (''a'', example_sample 1 7)])) = {7}
   \<and> list_all (\<lambda>s. (ps_part_ulid s, ps_record_index s) \<le> (''a'', 1))
        (deduplicate_samples [(''b'', example_sample 0 7), (''a'', example_sample 1 7)])"
  using deduplicate_keeps_least [of "[(''b'', example_sample 0 7), (''a'', example_sample 1 7)]"]
  by (auto simp: example_sample_def list_all_iff)

text \<open>
  C32. The deduplicated population depends on which samples were measured, not on the order in which
  the parts were read: any two listings of the same samples give the same population, provided that
  a part has one sample per record ordinal and hash.
\<close>

theorem deduplicate_order_free:
  assumes "set xs = set ys"
    and "\<forall>x \<in> set xs. \<forall>y \<in> set xs. ms_vector_hash (snd x) = ms_vector_hash (snd y)
           \<and> fst x = fst y \<and> ms_record_index (snd x) = ms_record_index (snd y) \<longrightarrow> x = y"
  shows "deduplicate_samples xs = deduplicate_samples ys"
proof -
  have "omap_get (fold dedup_step xs []) h = omap_get (fold dedup_step ys []) h" for h
  proof (cases "omap_get (fold dedup_step xs []) h")
    case None
    then have "omap_get (fold dedup_step ys []) h = None"
      using assms(1) by (simp add: dedup_none)
    with None show ?thesis by simp
  next
    case (Some s)
    then have "omap_get (fold dedup_step ys []) h \<noteq> None"
      using assms(1) dedup_none [of xs h] dedup_none [of ys h] by auto
    then obtain t where t: "omap_get (fold dedup_step ys []) h = Some t" by blast
    obtain x where x: "x \<in> set xs" "ms_vector_hash (snd x) = h" "s = candidate x"
      using dedup_survivor(2) [OF Some] by blast
    obtain y where y: "y \<in> set xs" "ms_vector_hash (snd y) = h" "t = candidate y"
      using dedup_survivor(2) [OF t] assms(1) by blast
    have "sample_rank s \<le> sample_rank t" "sample_rank t \<le> sample_rank s"
      using dedup_survivor(3) [OF Some] dedup_survivor(3) [OF t] x y assms(1) by blast+
    then have "sample_rank s = sample_rank t" by (rule antisym)
    then have "x = y" using assms(2) x y by (simp add: sample_rank_def)
    then show ?thesis using Some t x y by simp
  qed
  then have "fold dedup_step xs [] = fold dedup_step ys []"
    by (intro omap_ext dedup_inv)
  then show ?thesis by (simp add: deduplicate_samples_def)
qed

theorem deduplicate_order_free_witness:
  "deduplicate_samples [(''b'', example_sample 0 7), (''a'', example_sample 1 7)]
     = deduplicate_samples [(''a'', example_sample 1 7), (''b'', example_sample 0 7)]"
  by (rule deduplicate_order_free) (auto simp: example_sample_def)

end
