(* ===== verification/Aggregate.thy ===== *)
theory Aggregate
  imports Population Recommendation
begin

text \<open>
  Phase B, the aggregation of one cohort round (\<open>seam/src/aggregate.rs\<close>): a pure function of the
  configuration, the listed parts, the measured intermediates and the previous round. The facts show
  what a published recommendation rests on, how the previous one is carried, that the split
  partitions the population, and that no index of the code is out of range.
\<close>

section \<open>Definitions\<close>

definition ef_grid_ok :: "int list \<Rightarrow> u32 \<Rightarrow> bool" where
  "ef_grid_ok ef_grid k \<longleftrightarrow>
     \<not> (ef_grid = []
        \<or> list_ex (\<lambda>(a, b). b \<le> a) (zip ef_grid (tl ef_grid))
        \<or> hd ef_grid < (if unat k < 2 ^ 31 then int (unat k) else 2 ^ 31 - 1)
        \<or> list_ex (\<lambda>ef. MAX_EF_SEARCH < ef) ef_grid)"

definition validate_aggregation_config :: "aggregation_config \<Rightarrow> aggregate_error + unit" where
  "validate_aggregation_config config =
     (if ac_storage_window_seconds config = 0
      then Inl (A_InvalidConfig ''storage_window_seconds must be greater than zero'')
      else if ac_storage_window_seconds config mod 60 \<noteq> 0
      then Inl (A_InvalidConfig ''storage_window_seconds must be a multiple of 60'')
      else if ac_window_duration_seconds config < ucast (ac_storage_window_seconds config)
      then Inl (A_InvalidConfig ''window duration must be at least one storage window'')
      else if ac_window_duration_seconds config mod ucast (ac_storage_window_seconds config) \<noteq> 0
      then Inl (A_InvalidConfig ''window duration must be a multiple of storage_window_seconds'')
      else if ac_k config = 0 then Inl (A_InvalidConfig ''k must be >= 1'')
      else if \<not> (f64_lt (Fin 0) (ac_value config) \<and> f64_le (ac_value config) (Fin 1))
      then Inl (A_InvalidConfig ''value must be in (0, 1]'')
      else if \<not> (f64_lt (Fin 0) (ac_percentile config) \<and> f64_lt (ac_percentile config) (Fin 1))
      then Inl (A_InvalidConfig ''percentile must be in (0, 1)'')
      else if \<not> (f64_lt (Fin 0) (ac_selection_confidence config)
                 \<and> f64_lt (ac_selection_confidence config) (Fin 1))
      then Inl (A_InvalidConfig ''selection_confidence must be in (0, 1)'')
      else if \<not> (f64_lt (Fin 0) (ac_approval_confidence config)
                 \<and> f64_lt (ac_approval_confidence config) (Fin 1))
      then Inl (A_InvalidConfig ''approval_confidence must be in (0, 1)'')
      else if \<not> ef_grid_ok (ac_ef_grid config) (ac_k config)
      then Inl (A_InvalidConfig (''ef_grid must be non-empty, strictly increasing, >= k, and <= ''
                  @ show_nat (nat MAX_EF_SEARCH)))
      else res_bind (a_math (split_threshold (ac_train_fraction config))) (\<lambda>_. Inr ()))"

definition slice_at :: "nat \<Rightarrow> nat \<Rightarrow> string \<Rightarrow> aggregate_error + string" where
  "slice_at a b s = ok_or (str_slice a b s) (A_Math IndexPanic)"

definition iso8601_seconds :: "u64 \<Rightarrow> aggregate_error + string" where
  "iso8601_seconds unix_seconds =
     res_bind (a_window (format_window_timestamp unix_seconds)) (\<lambda>compact.
     res_bind (slice_at 0 4 compact) (\<lambda>year.
     res_bind (slice_at 4 6 compact) (\<lambda>month.
     res_bind (slice_at 6 8 compact) (\<lambda>day.
     res_bind (slice_at 9 11 compact) (\<lambda>hour.
     res_bind (slice_at 11 13 compact) (\<lambda>minute.
     Inr (year @ ''-'' @ month @ ''-'' @ day @ ''T'' @ hour @ '':'' @ minute @ '':00Z'')))))))"

definition intermediate_step ::
  "(string, intermediate_part) omap \<Rightarrow> intermediate_part \<Rightarrow> aggregate_error + (string, intermediate_part) omap" where
  "intermediate_step unique part =
     (let u = im_part_ulid (ip_metadata part); unique' = omap_insert u part unique in
      case omap_get unique u of
        Some existing \<Rightarrow>
          if \<not> intermediate_eq existing part then Inl (ConflictingIntermediate u) else Inr unique'
      | None \<Rightarrow> Inr unique')"

definition unique_intermediates ::
  "intermediate_part list \<Rightarrow> aggregate_error + (string, intermediate_part) omap" where
  "unique_intermediates parts = try_fold intermediate_step [] parts"

definition is_compatible :: "aggregation_config \<Rightarrow> intermediate_part \<Rightarrow> bool" where
  "is_compatible config part \<longleftrightarrow>
     (let metadata = ip_metadata part in
      im_format_version metadata = 1 \<and> im_k metadata = ac_k config
      \<and> im_index metadata = ac_index config \<and> im_table metadata = ac_table config
      \<and> im_column metadata = ac_column config \<and> im_key metadata = ac_key config
      \<and> im_ef_grid metadata = ac_ef_grid config)"

definition carry_fingerprint_matches :: "aggregation_config \<Rightarrow> round_output \<Rightarrow> bool" where
  "carry_fingerprint_matches config previous \<longleftrightarrow>
     rd_cohort previous = ac_cohort config
     \<and> rd_index previous = ac_index config
     \<and> rd_ef_grid previous = ac_ef_grid config
     \<and> rt_k (rd_target previous) = ac_k config
     \<and> f64_eq (rt_value (rd_target previous)) (ac_value config)
     \<and> f64_eq (rt_percentile (rd_target previous)) (ac_percentile config)
     \<and> f64_eq (rt_selection_confidence (rd_target previous)) (ac_selection_confidence config)
     \<and> f64_eq (rt_approval_confidence (rd_target previous)) (ac_approval_confidence config)"

definition effective_recommendation ::
  "aggregation_config \<Rightarrow> completed_selection option \<Rightarrow> effective_rec option \<Rightarrow> string
     \<Rightarrow> effective_rec option" where
  "effective_recommendation config selection previous source_round =
     (let carried = map_option (\<lambda>effective. effective\<lparr>er_carried := True\<rparr>) previous in
      case selection of
        None \<Rightarrow> carried
      | Some s \<Rightarrow>
          if cs_status s = Status_Ok \<and> f64_le (ac_approval_confidence config) (cs_confidence s)
          then Some \<lparr>er_recommended_ef = cs_recommended_ef s, er_confidence = cs_confidence s,
                     er_source_round = source_round, er_carried = False\<rparr>
          else carried)"

text \<open>The loop over the intermediates of listed parts: the ones used, and three counters.\<close>

record usage =
  us_used :: "intermediate_part list"
  us_incompatible :: u64
  us_measured :: u64
  us_failed :: u64

definition use_step ::
  "aggregation_config \<Rightarrow> (string, listed_part) omap \<Rightarrow> usage \<Rightarrow> string \<times> intermediate_part
     \<Rightarrow> aggregate_error + usage" where
  "use_step config listed s = (\<lambda>(part_ulid, intermediate).
     if omap_get listed part_ulid = None then Inr s
     else if \<not> is_compatible config intermediate then
       res_bind (ok_or (checked_add (us_incompatible s) 1) (CounterOverflow ''incompatible_parts''))
         (\<lambda>n. Inr (s\<lparr>us_incompatible := n\<rparr>))
     else
     res_bind (ok_or (checked_add (us_measured s) (im_measured_count (ip_metadata intermediate)))
                 (CounterOverflow ''samples.measured'')) (\<lambda>measured.
     res_bind (ok_or (checked_add (us_failed s) (im_failed_count (ip_metadata intermediate)))
                 (CounterOverflow ''samples.failed'')) (\<lambda>failed.
     Inr (s\<lparr>us_used := us_used s @ [intermediate], us_measured := measured, us_failed := failed\<rparr>))))"

definition available_step :: "u64 \<Rightarrow> listed_part \<Rightarrow> aggregate_error + u64" where
  "available_step acc part =
     (if lp_received_frame_count part < lp_record_count part
      then Inl (InvalidPartCounts (lp_part_ulid part))
      else ok_or (checked_add acc (lp_record_count part)) (CounterOverflow ''samples.available''))"

text \<open>The train and test members of the population, in its order.\<close>

definition split_step ::
  "aggregation_config \<Rightarrow> population_sample list \<times> population_sample list \<Rightarrow> population_sample
     \<Rightarrow> aggregate_error + population_sample list \<times> population_sample list" where
  "split_step config = (\<lambda>(train, test) sample.
     res_bind (a_math (is_train_member (ps_vector_hash sample) (ac_split_seed config)
                 (ac_train_fraction config))) (\<lambda>member.
     if member then Inr (train @ [sample], test) else Inr (train, test @ [sample])))"

definition used_samples :: "intermediate_part list \<Rightarrow> (string \<times> measured_sample) list" where
  "used_samples used =
     concat (map (\<lambda>part. map (Pair (im_part_ulid (ip_metadata part))) (ip_samples part)) used)"

definition insufficient ::
  "aggregation_input \<Rightarrow> 'a list \<Rightarrow> 'a list \<Rightarrow> f64 \<Rightarrow> f64 \<Rightarrow> bool" where
  "insufficient input train test train_ceiling test_ceiling \<longleftrightarrow>
     ai_phase_a_abort input \<noteq> None \<or> train = [] \<or> test = []
     \<or> f64_lt train_ceiling (ac_selection_confidence (ai_config input))
     \<or> f64_lt test_ceiling (ac_approval_confidence (ai_config input))"

definition aggregate :: "beta_reg \<Rightarrow> aggregation_input \<Rightarrow> aggregate_error + round_output" where
  "aggregate beta_reg input =
     (let config = ai_config input in
     res_bind (validate_aggregation_config config) (\<lambda>_.
     res_bind (in_scope_window_starts (ai_round_end input) (ac_window_duration_seconds config)
                 (ac_storage_window_seconds config)) (\<lambda>expected_windows.
     res_bind (ok_or (checked_sub (ai_round_end input) (ac_window_duration_seconds config))
                 WindowUnderflow) (\<lambda>lower.
     res_bind (unique_in_scope_parts (ai_listed_parts input) lower (ai_round_end input)) (\<lambda>listed.
     res_bind (try_fold available_step 0 (omap_values listed)) (\<lambda>available.
     res_bind (dropped_frame_fraction (map (\<lambda>part.
         (lp_part_ulid part, lp_received_frame_count part, lp_record_count part))
         (omap_values listed))) (\<lambda>drop_fraction.
     res_bind (unique_intermediates (ai_intermediates input)) (\<lambda>intermediates.
     res_bind (try_fold (use_step config listed)
         \<lparr>us_used = [], us_incompatible = ai_phase_a_incompatible_parts input,
          us_measured = 0, us_failed = 0\<rparr> intermediates) (\<lambda>usage.
     let population = deduplicate_samples (used_samples (us_used usage)) in
     res_bind (validate_population population (ac_ef_grid config)) (\<lambda>_.
     let ground_truth_latency_mean_ms =
           (if population \<noteq> [] then Some (f64_mean (map ps_ground_truth_latency_ms population))
            else None) in
     res_bind (per_ef_summaries population config) (\<lambda>per_ef.
     res_bind (try_fold (split_step config) ([], []) population) (\<lambda>(train, test).
     let samples = \<lparr>sc_available = available, sc_measured = us_measured usage,
                    sc_failed = us_failed usage, sc_unique = word_of_nat (length population),
                    sc_train = word_of_nat (length train), sc_test = word_of_nat (length test)\<rparr> in
     res_bind (a_math (compliance_confidence beta_reg (length train) (length train)
                 (ac_percentile config))) (\<lambda>train_ceiling.
     res_bind (a_math (compliance_confidence beta_reg (length test) (length test)
                 (ac_percentile config))) (\<lambda>test_ceiling.
     res_bind (if insufficient input train test train_ceiling test_ceiling then Inr None
               else res_bind (select_and_validate beta_reg config train test) (\<lambda>s. Inr (Some s)))
       (\<lambda>selected.
     res_bind (iso8601_seconds (ai_round_end input)) (\<lambda>window_end.
     let previous_effective =
           Option.bind (case ai_previous_round input of
               Some previous \<Rightarrow> if carry_fingerprint_matches config previous then Some previous else None
             | None \<Rightarrow> None) rd_effective;
         effective = effective_recommendation config selected previous_effective window_end in
     res_bind (iso8601_seconds lower) (\<lambda>window_start.
     Inr \<lparr>rd_format_version = 1, rd_cohort = ac_cohort config, rd_computed_at = ai_computed_at input,
          rd_window = \<lparr>rw_start = window_start, rw_end = window_end,
                       rw_duration_seconds = ac_window_duration_seconds config\<rparr>,
          rd_target = \<lparr>rt_name = ac_target_name config, rt_k = ac_k config, rt_value = ac_value config,
                       rt_percentile = ac_percentile config,
                       rt_selection_confidence = ac_selection_confidence config,
                       rt_approval_confidence = ac_approval_confidence config\<rparr>,
          rd_index = ac_index config, rd_ef_grid = ac_ef_grid config,
          rd_status = (case selected of None \<Rightarrow> InsufficientSamples | Some s \<Rightarrow> cs_status s),
          rd_error = map_option abort_error (ai_phase_a_abort input),
          rd_recommended_ef = map_option cs_recommended_ef selected,
          rd_confidence = map_option cs_confidence selected,
          rd_train_confidence = map_option cs_train_confidence selected,
          rd_train_compliance = map_option cs_train_compliance selected,
          rd_train_quantile_recall = map_option cs_train_quantile selected,
          rd_test_compliance = map_option cs_test_compliance selected,
          rd_test_quantile_recall = map_option cs_test_quantile selected,
          rd_effective = effective, rd_samples = samples, rd_dropped_frame_fraction = drop_fraction,
          rd_coverage = coverage expected_windows listed,
          rd_parts_used = word_of_nat (length (us_used usage)),
          rd_incompatible_parts = us_incompatible usage,
          rd_ground_truth_latency_mean_ms = ground_truth_latency_mean_ms,
          rd_per_ef = per_ef\<rparr>)))))))))))))))))"

section \<open>Facts\<close>

subsection \<open>The configuration\<close>

lemma valid_config_grid:
  assumes "validate_aggregation_config config = Inr ()"
  shows "ef_grid_ok (ac_ef_grid config) (ac_k config)" and "ac_k config \<noteq> 0"
  using assms by (auto simp: validate_aggregation_config_def split: if_splits)

lemma steps_sorted: "(\<forall>(a, b) \<in> set (zip xs (tl xs)). (a :: int) < b) \<Longrightarrow> sorted_wrt (<) xs"
proof (induction xs)
  case (Cons x xs)
  then show ?case by (cases xs) fastforce+
qed simp

lemma grid_bounds:
  assumes "ef_grid_ok grid k" and "ef \<in> set grid"
  shows "sorted_wrt (<) grid" and "min (int (unat k)) (2 ^ 31 - 1) \<le> ef" and "ef \<le> MAX_EF_SEARCH"
proof -
  have ne: "grid \<noteq> []" and st: "\<not> list_ex (\<lambda>(a, b). b \<le> a) (zip grid (tl grid))"
    and h: "\<not> hd grid < (if unat k < 2 ^ 31 then int (unat k) else 2 ^ 31 - 1)"
    and m: "\<not> list_ex (\<lambda>ef. MAX_EF_SEARCH < ef) grid"
    using assms(1) by (simp_all add: ef_grid_ok_def)
  show s: "sorted_wrt (<) grid" using st by (intro steps_sorted) (auto simp: list_ex_iff)
  show "ef \<le> MAX_EF_SEARCH" using m assms(2) by (auto simp: list_ex_iff)
  have "hd grid \<le> ef" using s ne assms(2) by (cases grid) (auto intro: less_imp_le)
  then show "min (int (unat k)) (2 ^ 31 - 1) \<le> ef" using h by (auto split: if_splits)
qed

text \<open>A grid of the tuner lies in the range the recommendation server accepts.\<close>

lemma grid_servable:
  assumes "validate_aggregation_config config = Inr ()" and "ef \<in> set (ac_ef_grid config)"
  shows "MIN_EF_SEARCH \<le> ef \<and> ef \<le> MAX_EF_SEARCH"
proof -
  note g = valid_config_grid [OF assms(1)]
  have "1 \<le> int (unat (ac_k config))" using g(2) unat_gt_0 [of "ac_k config"] by linarith
  then show ?thesis
    using grid_bounds(2,3) [OF g(1) assms(2)] by (simp add: MIN_EF_SEARCH_def min_def split: if_splits)
qed

subsection \<open>The split\<close>

definition in_train :: "aggregation_config \<Rightarrow> population_sample \<Rightarrow> bool" where
  "in_train config s \<longleftrightarrow>
     is_train_member (ps_vector_hash s) (ac_split_seed config) (ac_train_fraction config) = Inr True"

lemma split_fold:
  assumes "try_fold (split_step config) (a, b) population = Inr (train, test)"
  shows "train = a @ filter (in_train config) population
       \<and> test = b @ filter (\<lambda>s. \<not> in_train config s) population"
  using assms
proof (induction population arbitrary: a b)
  case (Cons s ss)
  obtain c d where step: "split_step config (a, b) s = Inr (c, d)"
    and rest: "try_fold (split_step config) (c, d) ss = Inr (train, test)"
    using Cons.prems by (auto simp: result_simps)
  show ?case using step Cons.IH [OF rest]
    by (auto simp: split_step_def result_simps in_train_def split: if_splits)
qed simp

lemma split_partition:
  assumes "try_fold (split_step config) ([], []) population = Inr (train, test)"
  shows "train = filter (in_train config) population"
    and "test = filter (\<lambda>s. \<not> in_train config s) population"
    and "length train + length test = length population"
  using split_fold [OF assms] sum_length_filter_compl [of "in_train config" population] by simp_all

subsection \<open>The intermediates used\<close>

lemma use_fold:
  assumes "try_fold (use_step config listed) s xs = Inr t"
  shows "us_used t = us_used s @ map snd (filter (\<lambda>(u, p). omap_get listed u \<noteq> None \<and> is_compatible config p) xs)
    \<and> unat (us_incompatible t) = unat (us_incompatible s)
        + length (filter (\<lambda>(u, p). omap_get listed u \<noteq> None \<and> \<not> is_compatible config p) xs)
    \<and> unat (us_measured t) = unat (us_measured s)
        + (\<Sum>p \<leftarrow> map snd (filter (\<lambda>(u, p). omap_get listed u \<noteq> None \<and> is_compatible config p) xs).
             unat (im_measured_count (ip_metadata p)))"
  using assms
proof (induction xs arbitrary: s)
  case (Cons x xs)
  obtain u p where x: "x = (u, p)" by (cases x)
  obtain s' where s': "use_step config listed s (u, p) = Inr s'"
    and rest: "try_fold (use_step config listed) s' xs = Inr t"
    using Cons.prems x by (auto simp: result_simps)
  show ?case using s' Cons.IH [OF rest] x
    by (auto simp: use_step_def result_simps arith_simps split: if_splits)
qed simp

subsection \<open>Timestamps\<close>

lemma iso8601_seconds_total: "\<exists>s. iso8601_seconds t = Inr s"
proof -
  obtain s where s: "format_window_timestamp t = Inr s" using format_window_timestamp_total by blast
  then show ?thesis using length_timestamp [OF s]
    by (simp add: iso8601_seconds_def a_window_def slice_at_def str_slice_def)
qed

subsection \<open>The composition\<close>

lemma Inr_unit: "r = Inr u \<Longrightarrow> r = Inr ()"
  by simp

text \<open>What a finished aggregation has computed.\<close>

lemma aggregate_inversion:
  assumes "aggregate br input = Inr out"
  obtains lower listed intermediates usage train test tc ec selected source where
    "validate_aggregation_config (ai_config input) = Inr ()"
    "checked_sub (ai_round_end input) (ac_window_duration_seconds (ai_config input)) = Some lower"
    "unique_in_scope_parts (ai_listed_parts input) lower (ai_round_end input) = Inr listed"
    "unique_intermediates (ai_intermediates input) = Inr intermediates"
    "try_fold (use_step (ai_config input) listed)
         \<lparr>us_used = [], us_incompatible = ai_phase_a_incompatible_parts input,
          us_measured = 0, us_failed = 0\<rparr> intermediates = Inr usage"
    "validate_population (deduplicate_samples (used_samples (us_used usage)))
       (ac_ef_grid (ai_config input)) = Inr ()"
    "try_fold (split_step (ai_config input)) ([], [])
       (deduplicate_samples (used_samples (us_used usage))) = Inr (train, test)"
    "compliance_confidence br (length train) (length train) (ac_percentile (ai_config input)) = Inr tc"
    "compliance_confidence br (length test) (length test) (ac_percentile (ai_config input)) = Inr ec"
    "(if insufficient input train test tc ec then Inr None
      else res_bind (select_and_validate br (ai_config input) train test) (\<lambda>s. Inr (Some s)))
      = Inr selected"
    "iso8601_seconds (ai_round_end input) = Inr source"
    "rw_end (rd_window out) = source"
    "rd_status out = (case selected of None \<Rightarrow> InsufficientSamples | Some s \<Rightarrow> cs_status s)"
    "rd_recommended_ef out = map_option cs_recommended_ef selected"
    "rd_confidence out = map_option cs_confidence selected"
    "rd_train_confidence out = map_option cs_train_confidence selected"
    "rd_error out = map_option abort_error (ai_phase_a_abort input)"
    "rd_cohort out = ac_cohort (ai_config input)"
    "rd_ef_grid out = ac_ef_grid (ai_config input)"
    "rd_effective out = effective_recommendation (ai_config input) selected
       (Option.bind (case ai_previous_round input of
           Some previous \<Rightarrow>
             if carry_fingerprint_matches (ai_config input) previous then Some previous else None
         | None \<Rightarrow> None) rd_effective) source"
    "sc_unique (rd_samples out) = word_of_nat (length (deduplicate_samples (used_samples (us_used usage))))"
    "sc_train (rd_samples out) = word_of_nat (length train)"
    "sc_test (rd_samples out) = word_of_nat (length test)"
    "sc_measured (rd_samples out) = us_measured usage"
    "rd_parts_used out = word_of_nat (length (us_used usage))"
    "rd_incompatible_parts out = us_incompatible usage"
    "rd_index out = ac_index (ai_config input)"
    "rd_target out = \<lparr>rt_name = ac_target_name (ai_config input), rt_k = ac_k (ai_config input),
       rt_value = ac_value (ai_config input), rt_percentile = ac_percentile (ai_config input),
       rt_selection_confidence = ac_selection_confidence (ai_config input),
       rt_approval_confidence = ac_approval_confidence (ai_config input)\<rparr>"
proof -
  note r = assms [unfolded aggregate_def Let_def]
  show thesis
    using r
    apply (simp only: res_bind_Inr a_math_Inr ok_or_Inr)
    apply (elim exE conjE)
    apply (simp only: split_paired_all prod.case res_bind_Inr a_math_Inr ok_or_Inr)
    apply (elim exE conjE)
    apply (simp only: sum.inject)
    apply (drule sym [of _ out])
    apply (rule that)
    apply (assumption | erule Inr_unit | simp (no_asm_simp))+
    done
qed

lemma selection_status:
  assumes "select_and_validate br config train test = Inr s"
  shows "cs_recommended_ef s \<in> set (ac_ef_grid config)" and "cs_status s \<noteq> InsufficientSamples"
proof -
  obtain pairs sel where p: "res_map (train_score br config train) (ac_ef_grid config) = Inr pairs"
      "select_ef (omap_of_list pairs) (ac_selection_confidence config) = Inr sel"
    and s: "cs_recommended_ef s = es_recommended_ef sel" "cs_status s = es_status sel"
    using assms by (auto simp: select_and_validate_def result_simps a_math_Inr)
  show "cs_recommended_ef s \<in> set (ac_ef_grid config)" using selected_in_grid [OF p] s by simp
  show "cs_status s \<noteq> InsufficientSamples" using select_ef_status [OF p(2)] s by auto
qed

text \<open>The score that selected an ef is the train confidence that is published for it.\<close>

lemma train_score_confidence:
  assumes "train_score br config train ef = Inr (ef, c)" and "evaluate_split br config train ef = Inr e"
  shows "se_confidence e = c"
  using assms
  by (auto simp: train_score_def evaluate_split_def Let_def result_simps a_math_Inr comp_def
      filter_map)

lemma selection_confidence_reached:
  assumes "select_and_validate br config train test = Inr s" and "cs_status s = Status_Ok"
  shows "f64_le (ac_selection_confidence config) (cs_train_confidence s)"
proof -
  obtain pairs sel e where p: "res_map (train_score br config train) (ac_ef_grid config) = Inr pairs"
      "select_ef (omap_of_list pairs) (ac_selection_confidence config) = Inr sel"
      "evaluate_split br config train (es_recommended_ef sel) = Inr e"
    and s: "cs_train_confidence s = se_confidence e" "cs_status s = es_status sel"
    using assms(1) by (auto simp: select_and_validate_def result_simps a_math_Inr)
  obtain c where c: "(es_recommended_ef sel, c) \<in> set (omap_of_list pairs)"
      "f64_le (ac_selection_confidence config) c"
    using p(2) s(2) assms(2)
    by (auto simp: select_ef_def result_simps find_Some_iff split: if_splits option.splits)
      (metis nth_mem)
  then have "(es_recommended_ef sel, c) \<in> set pairs" using omap_of_list_mem by blast
  moreover have "set (map Inr pairs) = train_score br config train ` set (ac_ef_grid config)"
    using p(1) unfolding res_map_Inr_iff by (metis list.set_map)
  ultimately obtain ef where "train_score br config train ef = Inr (es_recommended_ef sel, c)"
    by (metis imageE image_eqI list.set_map)
  moreover from this have "ef = es_recommended_ef sel" by (auto simp: train_score_def Let_def result_simps)
  ultimately show ?thesis using train_score_confidence p(3) c(2) s(1) by auto
qed

lemma effective_cases:
  "effective_recommendation config selected previous source = Some e \<longleftrightarrow>
     (if \<exists>s. selected = Some s \<and> cs_status s = Status_Ok
           \<and> f64_le (ac_approval_confidence config) (cs_confidence s)
      then e = \<lparr>er_recommended_ef = cs_recommended_ef (the selected),
                er_confidence = cs_confidence (the selected),
                er_source_round = source, er_carried = False\<rparr>
      else \<exists>p. previous = Some p \<and> e = p\<lparr>er_carried := True\<rparr>)"
  by (auto simp: effective_recommendation_def Let_def split: option.split)

text \<open>The round is not lost to an index out of range.\<close>

lemma unique_intermediates_no_panic: "unique_intermediates ps \<noteq> Inl (A_Math IndexPanic)"
proof -
  have "try_fold intermediate_step m ps \<noteq> Inl (A_Math IndexPanic)" for m
    by (induction ps arbitrary: m)
      (auto simp: result_simps intermediate_step_def Let_def split: option.splits if_splits)
  then show ?thesis by (simp add: unique_intermediates_def)
qed

lemma try_fold_no_error:
  "(\<And>s x. f s x \<noteq> Inl e) \<Longrightarrow> try_fold f s xs \<noteq> Inl e"
  by (induction xs arbitrary: s) (auto simp: result_simps)

lemma member_no_panic: "is_train_member h seed p \<noteq> Inl IndexPanic"
  by (auto simp: is_train_member_def split_threshold_def Let_def result_simps split: if_splits)

lemma parts_no_panic:
  "unique_in_scope_parts ps lower e \<noteq> Inl (A_Math IndexPanic)"
  "try_fold available_step n ls \<noteq> Inl (A_Math IndexPanic)"
  "try_fold (use_step config listed) u is \<noteq> Inl (A_Math IndexPanic)"
  "try_fold (split_step config) tt population \<noteq> Inl (A_Math IndexPanic)"
  "dropped_frame_fraction hs \<noteq> Inl (A_Math IndexPanic)"
  "in_scope_window_starts r d w \<noteq> Inl (A_Math IndexPanic)"
proof -
  have d: "try_fold drop_step s hs \<noteq> Inl (A_Math IndexPanic)" for s
    by (intro try_fold_no_error) (auto simp: drop_step_def result_simps split: if_splits)
  show "unique_in_scope_parts ps lower e \<noteq> Inl (A_Math IndexPanic)"
    unfolding unique_in_scope_parts_def
    by (intro try_fold_no_error) (auto simp: scope_step_def result_simps split: if_splits option.splits)
  show "try_fold available_step n ls \<noteq> Inl (A_Math IndexPanic)"
    by (intro try_fold_no_error) (auto simp: available_step_def result_simps)
  show "try_fold (use_step config listed) u is \<noteq> Inl (A_Math IndexPanic)"
    by (intro try_fold_no_error) (auto simp: use_step_def result_simps split: if_splits)
  show "try_fold (split_step config) tt population \<noteq> Inl (A_Math IndexPanic)"
    by (intro try_fold_no_error)
      (auto simp: split_step_def result_simps a_math_panic member_no_panic split: if_splits)
  show "dropped_frame_fraction hs \<noteq> Inl (A_Math IndexPanic)"
    using d by (auto simp: dropped_frame_fraction_def result_simps split: if_splits)
  show "in_scope_window_starts r d w \<noteq> Inl (A_Math IndexPanic)"
    by (auto simp: in_scope_window_starts_def Let_def result_simps split: if_splits)
qed

lemma validate_no_panic:
  "validate_aggregation_config config \<noteq> Inl (A_Math IndexPanic)"
  "validate_population population grid \<noteq> Inl (A_Math IndexPanic)"
proof -
  show "validate_aggregation_config config \<noteq> Inl (A_Math IndexPanic)"
    by (auto simp: validate_aggregation_config_def split_threshold_def a_math_def Let_def)
  have "validate_sample grid s \<noteq> Inl (A_Math IndexPanic)" for s
    unfolding validate_sample_def
    by (auto simp: result_simps split: if_splits intro!: try_fold_no_error)
  then show "validate_population population grid \<noteq> Inl (A_Math IndexPanic)"
    unfolding validate_population_def by (intro try_fold_no_error)
qed

lemma used_samples_length:
  "length (used_samples ps) = (\<Sum>p \<leftarrow> ps. length (ip_samples p))"
  by (simp add: used_samples_def length_concat comp_def)

lemma omap_insert_sum:
  "(\<Sum>p \<leftarrow> map snd (omap_insert k v m). (f p :: nat)) \<le> f v + (\<Sum>p \<leftarrow> map snd m. f p)"
  by (induction k v m rule: omap_insert.induct) auto

lemma unique_intermediates_samples:
  assumes "unique_intermediates ps = Inr m"
  shows "length (used_samples (map snd m)) \<le> length (used_samples ps)"
proof -
  have "try_fold intermediate_step n ps = Inr m \<Longrightarrow>
      (\<Sum>p \<leftarrow> map snd m. length (ip_samples p))
      \<le> (\<Sum>p \<leftarrow> map snd n. length (ip_samples p)) + (\<Sum>p \<leftarrow> ps. length (ip_samples p))" for n
  proof (induction ps arbitrary: n)
    case (Cons p ps)
    obtain n' where step: "intermediate_step n p = Inr n'" and rest: "try_fold intermediate_step n' ps = Inr m"
      using Cons.prems by (auto simp: result_simps)
    have "n' = omap_insert (im_part_ulid (ip_metadata p)) p n"
      using step by (auto simp: intermediate_step_def Let_def split: option.splits if_splits)
    then have "(\<Sum>p \<leftarrow> map snd n'. length (ip_samples p))
        \<le> length (ip_samples p) + (\<Sum>p \<leftarrow> map snd n. length (ip_samples p))"
      by (simp only: omap_insert_sum [of "\<lambda>p. length (ip_samples p)"])
    then show ?case using Cons.IH [OF rest] by simp
  qed simp
  from this [of "[]"] assms show ?thesis
    by (simp add: unique_intermediates_def used_samples_length)
qed

lemma sum_filter_le: "(\<Sum>x \<leftarrow> filter P xs. (f x :: nat)) \<le> (\<Sum>x \<leftarrow> xs. f x)"
  by (induction xs) auto

lemma population_bound:
  assumes "unique_intermediates (ai_intermediates input) = Inr m"
    and "try_fold (use_step config listed) \<lparr>us_used = [], us_incompatible = n, us_measured = 0, us_failed = 0\<rparr> m
           = Inr usage"
    and "length (used_samples (ai_intermediates input)) \<le> 2 ^ 53"
  shows "length (deduplicate_samples (used_samples (us_used usage))) \<le> 2 ^ 53"
proof -
  have "length (used_samples (us_used usage)) \<le> length (used_samples (map snd m))"
    using use_fold [OF assms(2)] sum_filter_le [of "\<lambda>(u, p). length (ip_samples p)"]
    by (simp add: used_samples_length comp_def case_prod_beta)
  also have "\<dots> \<le> 2 ^ 53" using unique_intermediates_samples [OF assms(1)] assms(3) by simp
  finally show ?thesis using deduplicate_length order_trans by blast
qed

lemma iso_no_panic: "iso8601_seconds t \<noteq> Inl e"
  using iso8601_seconds_total [of t] by auto

lemma measured_no_panic:
  assumes "length (used_samples (ai_intermediates input)) \<le> 2 ^ 53"
    and "unique_intermediates (ai_intermediates input) = Inr m"
    and "try_fold (use_step config listed) \<lparr>us_used = [], us_incompatible = n, us_measured = 0, us_failed = 0\<rparr> m
           = Inr usage"
    and "validate_population (deduplicate_samples (used_samples (us_used usage))) (ac_ef_grid config) = Inr u"
  shows "per_ef_summaries (deduplicate_samples (used_samples (us_used usage))) config \<noteq> Inl (A_Math IndexPanic)"
  using assms(4) by (intro summaries_no_panic population_bound [OF assms(2,3,1)])
    (simp add: validate_population_ok [symmetric])

lemma split_no_panic:
  assumes "length (used_samples (ai_intermediates input)) \<le> 2 ^ 53"
    and "unique_intermediates (ai_intermediates input) = Inr m"
    and "try_fold (use_step config listed) \<lparr>us_used = [], us_incompatible = n, us_measured = 0, us_failed = 0\<rparr> m
           = Inr usage"
    and "validate_population (deduplicate_samples (used_samples (us_used usage))) (ac_ef_grid config) = Inr u"
    and "try_fold (split_step config) ([], []) (deduplicate_samples (used_samples (us_used usage))) = Inr (train, test)"
  shows "(if b then Inr None else res_bind (select_and_validate br config train test) (\<lambda>s. Inr (Some s)))
     \<noteq> Inl (A_Math IndexPanic)"
proof -
  let ?p = "deduplicate_samples (used_samples (us_used usage))"
  have ok: "\<forall>s \<in> set ?p. sample_ok (ac_ef_grid config) s"
    using assms(4) by (simp add: validate_population_ok [symmetric])
  note parts = split_partition [OF assms(5)]
  have "length train \<le> 2 ^ 53" "length test \<le> 2 ^ 53"
    using parts(3) population_bound [OF assms(2,3,1)] by linarith+
  then have "select_and_validate br config train test \<noteq> Inl (A_Math IndexPanic)"
    using ok parts(1,2) by (intro select_no_panic) auto
  then show ?thesis by (auto simp: result_simps)
qed

lemma effective_of_round:
  assumes "aggregate br input = Inr out"
  shows "rd_effective out = Some e \<longleftrightarrow>
     (if rd_status out = Status_Ok
         \<and> (\<exists>c. rd_confidence out = Some c \<and> f64_le (ac_approval_confidence (ai_config input)) c)
      then e = \<lparr>er_recommended_ef = the (rd_recommended_ef out), er_confidence = the (rd_confidence out),
                er_source_round = rw_end (rd_window out), er_carried = False\<rparr>
      else \<exists>prev p. ai_previous_round input = Some prev \<and> carry_fingerprint_matches (ai_config input) prev
             \<and> rd_effective prev = Some p \<and> e = p\<lparr>er_carried := True\<rparr>)"
  by (rule aggregate_inversion [OF assms])
    (auto simp: effective_cases Option.bind_eq_Some_conv split: option.splits if_splits)

lemma fresh_of_round:
  assumes "aggregate br input = Inr out" and "rd_effective out = Some e" and "\<not> er_carried e"
  shows "ai_phase_a_abort input = None \<and> rd_status out = Status_Ok
     \<and> rd_recommended_ef out = Some (er_recommended_ef e)
     \<and> er_recommended_ef e \<in> set (ac_ef_grid (ai_config input))
     \<and> MIN_EF_SEARCH \<le> er_recommended_ef e \<and> er_recommended_ef e \<le> MAX_EF_SEARCH
     \<and> (\<exists>tc. rd_train_confidence out = Some tc
          \<and> f64_le (ac_selection_confidence (ai_config input)) tc)
     \<and> rd_confidence out = Some (er_confidence e)
     \<and> f64_le (ac_approval_confidence (ai_config input)) (er_confidence e)"
proof (rule aggregate_inversion [OF assms(1)], goal_cases)
  case (1 lower listed intermediates usage train test tc ec selected source)
  note eff = 1(20) [unfolded assms(2), symmetric, unfolded effective_cases]
  then obtain s where s: "selected = Some s" "cs_status s = Status_Ok"
      "f64_le (ac_approval_confidence (ai_config input)) (cs_confidence s)"
      "er_recommended_ef e = cs_recommended_ef s" "er_confidence e = cs_confidence s"
    using assms(3) by (auto split: if_splits)
  then have sv: "select_and_validate br (ai_config input) train test = Inr s"
      and suff: "\<not> insufficient input train test tc ec"
    using 1(10) by (auto simp: result_simps split: if_splits)
  show ?case
    using selection_status(1) [OF sv] selection_confidence_reached [OF sv s(2)] suff s 1(1,13,14,15,16)
      grid_servable [OF 1(1)]
    by (simp add: insufficient_def)
qed

text \<open>
  The rounds of a cohort, the latest first: every round is aggregated with the round before it as its
  previous one.
\<close>

inductive published :: "beta_reg \<Rightarrow> round_output list \<Rightarrow> bool" for br where
  first: "published br []"
| round: "published br rounds \<Longrightarrow> aggregate br input = Inr out
    \<Longrightarrow> ai_previous_round input = (case rounds of [] \<Rightarrow> None | previous # _ \<Rightarrow> Some previous)
    \<Longrightarrow> published br (out # rounds)"

inductive_cases published_ConsE: "published br (out # rounds)"

text \<open>Two targets that differ at most in their names.\<close>

definition same_goal :: "round_target \<Rightarrow> round_target \<Rightarrow> bool" where
  "same_goal a b \<longleftrightarrow> rt_k a = rt_k b \<and> rt_value a = rt_value b \<and> rt_percentile a = rt_percentile b
     \<and> rt_selection_confidence a = rt_selection_confidence b \<and> rt_approval_confidence a = rt_approval_confidence b"

definition origin_of :: "round_output list \<Rightarrow> round_output \<Rightarrow> effective_rec \<Rightarrow> bool" where
  "origin_of rounds out e \<longleftrightarrow>
     (\<exists>origin \<in> set rounds. rd_effective origin = Some (e\<lparr>er_carried := False\<rparr>)
        \<and> rd_status origin = Status_Ok \<and> rd_error origin = None
        \<and> rd_recommended_ef origin = Some (er_recommended_ef e)
        \<and> rd_confidence origin = Some (er_confidence e)
        \<and> er_source_round e = rw_end (rd_window origin)
        \<and> f64_le (rt_approval_confidence (rd_target origin)) (er_confidence e)
        \<and> (\<exists>tc. rd_train_confidence origin = Some tc \<and> f64_le (rt_selection_confidence (rd_target origin)) tc)
        \<and> rd_cohort origin = rd_cohort out \<and> rd_index origin = rd_index out \<and> rd_ef_grid origin = rd_ef_grid out
        \<and> same_goal (rd_target origin) (rd_target out)
        \<and> MIN_EF_SEARCH \<le> er_recommended_ef e \<and> er_recommended_ef e \<le> MAX_EF_SEARCH)"

lemma round_labels:
  assumes "aggregate br input = Inr out"
  shows "rd_cohort out = ac_cohort (ai_config input)" and "rd_ef_grid out = ac_ef_grid (ai_config input)"
    and "rd_index out = ac_index (ai_config input)"
    and "rd_error out = map_option abort_error (ai_phase_a_abort input)"
    and "rd_target out = \<lparr>rt_name = ac_target_name (ai_config input), rt_k = ac_k (ai_config input),
       rt_value = ac_value (ai_config input), rt_percentile = ac_percentile (ai_config input),
       rt_selection_confidence = ac_selection_confidence (ai_config input),
       rt_approval_confidence = ac_approval_confidence (ai_config input)\<rparr>"
  by (rule aggregate_inversion [OF assms], assumption)+

lemma origin_exists:
  assumes "published br rounds" and "out \<in> set rounds" and "rd_effective out = Some e"
  shows "origin_of rounds out e"
  using assms
proof (induction rounds arbitrary: out e rule: published.induct)
  case (round rounds input new)
  show ?case
  proof (cases "out \<in> set rounds")
    case True
    then show ?thesis using round.IH [OF True round.prems(2)] by (auto simp: origin_of_def)
  next
    case False
    then have out: "out = new" using round.prems(1) by simp
    note labels = round_labels [OF round.hyps(2)]
    show ?thesis
    proof (cases "er_carried e")
      case fresh: False
      have eff: "rd_effective new = Some e" using round.prems(2) out by simp
      note a = fresh_of_round [OF round.hyps(2) eff fresh]
      have "er_source_round e = rw_end (rd_window new)"
        using effective_of_round [OF round.hyps(2), of e] eff fresh by (auto split: if_splits)
      moreover have "e\<lparr>er_carried := False\<rparr> = e" using fresh by simp
      ultimately show ?thesis
        using a out eff labels(4) unfolding origin_of_def
        by (intro bexI [of _ new]) (simp_all add: labels(5) same_goal_def)
    next
      case carried: True
      then obtain prev p where prev: "ai_previous_round input = Some prev"
          "carry_fingerprint_matches (ai_config input) prev" "rd_effective prev = Some p"
          "e = p\<lparr>er_carried := True\<rparr>"
        using effective_of_round [OF round.hyps(2), of e] round.prems(2) out by (auto split: if_splits)
      then have "prev \<in> set rounds" using round.hyps(3) by (cases rounds) auto
      from round.IH [OF this prev(3)] have "\<exists>origin \<in> set rounds. origin_of [origin] prev p"
        by (simp add: origin_of_def)
      then obtain origin where in_rounds: "origin \<in> set rounds" and rest: "origin_of [origin] prev p" by blast
      then have origin: "origin \<in> set rounds" "rd_effective origin = Some (p\<lparr>er_carried := False\<rparr>)"
          "same_goal (rd_target origin) (rd_target prev)"
        by (simp_all add: origin_of_def)
      have "same_goal (rd_target prev) (rd_target new)"
        using prev(2) by (simp add: same_goal_def carry_fingerprint_matches_def labels(5) f64_eq_def)
      then have goal: "same_goal (rd_target origin) (rd_target out)"
        using origin(3) by (simp add: same_goal_def out)
      show ?thesis
        unfolding origin_of_def
        using rest origin(1,2) goal prev(2,4) labels
        by (intro bexI [of _ origin]) (simp_all add: origin_of_def carry_fingerprint_matches_def out)
    qed
  qed
qed simp

text \<open>A configuration and a round without parts, which carries the previous recommendation.\<close>

definition tuned_config :: aggregation_config where
  "tuned_config =
     \<lparr>ac_cohort = ''shop/search'', ac_target_name = ''p95'', ac_index = ''items_hnsw'', ac_table = ''items'',
      ac_column = ''embedding'', ac_key = ''id'', ac_k = 10, ac_value = Fin (1 / 2), ac_percentile = Fin (1 / 2),
      ac_selection_confidence = Fin (1 / 2), ac_approval_confidence = Fin (1 / 2),
      ac_window_duration_seconds = 1200, ac_storage_window_seconds = 600, ac_ef_grid = [10, 20],
      ac_train_fraction = Fin (1 / 2), ac_split_seed = 1\<rparr>"

definition example_previous :: round_output where
  "example_previous =
     \<lparr>rd_format_version = 1, rd_cohort = ''shop/search'', rd_computed_at = ''2026-07-08T12:00:00Z'',
      rd_window = \<lparr>rw_start = ''2026-07-08T11:40:00Z'', rw_end = ''2026-07-08T12:00:00Z'', rw_duration_seconds = 1200\<rparr>,
      rd_target = \<lparr>rt_name = ''p95'', rt_k = 10, rt_value = Fin (1 / 2), rt_percentile = Fin (1 / 2),
                   rt_selection_confidence = Fin (1 / 2), rt_approval_confidence = Fin (1 / 2)\<rparr>,
      rd_index = ''items_hnsw'', rd_ef_grid = [10, 20], rd_status = Status_Ok, rd_error = None,
      rd_recommended_ef = Some 20, rd_confidence = Some (Fin (3 / 4)), rd_train_confidence = Some (Fin (3 / 4)),
      rd_train_compliance = None, rd_train_quantile_recall = None, rd_test_compliance = None,
      rd_test_quantile_recall = None,
      rd_effective = Some \<lparr>er_recommended_ef = 20, er_confidence = Fin (3 / 4),
                          er_source_round = ''2026-07-08T12:00:00Z'', er_carried = False\<rparr>,
      rd_samples = \<lparr>sc_available = 0, sc_measured = 0, sc_failed = 0, sc_unique = 0, sc_train = 0, sc_test = 0\<rparr>,
      rd_dropped_frame_fraction = Fin 0,
      rd_coverage = \<lparr>cv_empty_window_fraction = Fin 1, cv_windows_in_scope = 2, cv_windows_with_parts = 0\<rparr>,
      rd_parts_used = 0, rd_incompatible_parts = 0, rd_ground_truth_latency_mean_ms = None, rd_per_ef = []\<rparr>"

definition example_intermediate :: intermediate_part where
  "example_intermediate =
     \<lparr>ip_metadata = \<lparr>im_format_version = 1, im_cohort = ''shop/search'', im_part_ulid = ''01A'',
        im_window_start = 600, im_window_seconds = 600, im_received_frame_count = 4, im_record_count = 2,
        im_index = ''items_hnsw'', im_table = ''items'', im_column = ''embedding'', im_key = ''id'', im_k = 10,
        im_ef_grid = [10, 20], im_failed_count = 0, im_measured_count = 2, im_computed_at_us = 0\<rparr>,
      ip_samples = [example_sample 0 3, example_sample 1 1]\<rparr>"

definition example_input :: aggregation_input where
  "example_input =
     \<lparr>ai_config = tuned_config, ai_round_end = 1200, ai_computed_at = ''2026-07-08T13:00:00Z'',
      ai_phase_a_abort = None, ai_phase_a_incompatible_parts = 0,
      ai_previous_round = Some example_previous,
      ai_listed_parts = [\<lparr>lp_part_ulid = ''01A'', lp_window_start = 600, lp_window_seconds = 600,
                          lp_received_frame_count = 4, lp_record_count = 2\<rparr>],
      ai_intermediates = [example_intermediate]\<rparr>"

lemma example_fl: "f64_of_nat 10000 = Fin 10000" "fl 5000 = Fin 5000" "fl (1 / 2) = Fin (1 / 2)"
    "f64_of_nat 1 = Fin 1" "f64_of_nat 2 = Fin 2" "f64_of_nat 0 = Fin 0" "f64_of_nat (Suc 0) = Fin 1"
  using f64_of_nat_exact [of 10000] fl_dyadic [of 5000 0] fl_dyadic [of 1 1] f64_of_nat_exact [of 1]
    f64_of_nat_exact [of 2] f64_of_nat_exact [of 0]
  by simp_all

lemma example_threshold: "split_threshold (Fin (1 / 2)) = Inr 5000"
proof -
  have "\<lfloor>10001 / 2 :: rat\<rfloor> = 5000" by (simp add: floor_eq_iff)
  then show ?thesis
    by (simp add: split_threshold_def SPLIT_BUCKETS_def example_fl round_half_away_def usize_bound_def)
qed

lemma tuned_config_ok: "validate_aggregation_config tuned_config = Inr ()"
  by (simp add: validate_aggregation_config_def tuned_config_def ef_grid_ok_def MAX_EF_SEARCH_def
      example_threshold a_math_def)

lemma example_windows: "in_scope_window_starts 1200 1200 600 = Inr [0, 600]"
  by (simp add: in_scope_window_starts_def Let_def checked_sub_def scope_loop.simps)

lemma example_members:
  "is_train_member 3 1 (Fin (1 / 2)) = Inr True"
  "is_train_member 1 1 (Fin (1 / 2)) = Inr False"
  by (simp_all add: is_train_member_def example_threshold SPLIT_BUCKETS_def show_nat_def dec_digits.simps
    digit_char_def str_bytes_def fnv1a64_def FNV_PRIME_def FNV_OFFSET_BASIS_def)

definition example_train :: population_sample where
  "example_train = candidate (''01A'', example_sample 0 3)"

definition example_test :: population_sample where
  "example_test = candidate (''01A'', example_sample 1 1)"

lemma example_population: "deduplicate_samples (used_samples [example_intermediate]) = [example_test, example_train]"
  by (simp add: deduplicate_samples_def used_samples_def example_intermediate_def dedup_step_def Let_def
      omap_get_def omap_values_def example_train_def example_test_def)
    (simp add: example_sample_def)

lemma example_split:
  "try_fold (split_step tuned_config) ([], []) [example_test, example_train] = Inr ([example_train], [example_test])"
  by (simp add: split_step_def example_train_def example_test_def example_sample_def tuned_config_def
      example_members a_math_def)

lemma example_valid: "validate_population [example_test, example_train] [10, 20] = Inr ()"
  by (simp add: validate_population_def validate_sample_def example_train_def example_test_def
      example_sample_def candidate_def omap_get_def observation_ok_def)

lemma example_half: "f64_sub (Fin 1) (Fin (1 / 2)) = Fin (1 / 2)" "f64_mul (Fin 1) (Fin (1 / 2)) = Fin (1 / 2)"
  by (simp_all add: f64_sub_def example_fl)

lemma example_summaries: "\<exists>ps. per_ef_summaries [example_test, example_train] tuned_config = Inr ps"
  by (simp add: per_ef_summaries_def tuned_config_def example_train_def example_test_def
      example_sample_def candidate_def sweep_at_def omap_get_def example_half quantile_type7_def
      example_fl a_math_def Let_def index_at_def f64_eq_def)

lemma example_selection:
  "\<exists>s. select_and_validate (\<lambda>_ _ _. Fin 1) tuned_config [example_train] [example_test] = Inr s
     \<and> cs_status s = Status_Ok \<and> cs_confidence s = Fin 1"
  by (simp add: select_and_validate_def tuned_config_def train_score_def evaluate_split_def
      example_train_def example_test_def example_sample_def candidate_def sweep_at_def omap_get_def
      compliance_confidence_def select_ef_def example_half quantile_type7_def omap_of_list_def
      omap_values_def last_key_value_def index_at_def f64_eq_def a_math_def Let_def)

lemma example_intermediates: "unique_intermediates [example_intermediate] = Inr [(''01A'', example_intermediate)]"
  by (simp add: unique_intermediates_def intermediate_step_def omap_get_def Let_def)
    (simp add: example_intermediate_def)

lemma example_usage:
  "try_fold (use_step tuned_config [(''01A'', lp)])
     \<lparr>us_used = [], us_incompatible = 0, us_measured = 0, us_failed = 0\<rparr> [(''01A'', example_intermediate)]
     = Inr \<lparr>us_used = [example_intermediate], us_incompatible = 0, us_measured = 2, us_failed = 0\<rparr>"
  by (simp add: use_step_def omap_get_def is_compatible_def tuned_config_def example_intermediate_def checked_add_def)

lemma example_fields:
  "ac_window_duration_seconds tuned_config = 1200" "ac_storage_window_seconds tuned_config = 600"
  "ac_ef_grid tuned_config = [10, 20]" "ac_percentile tuned_config = Fin (1 / 2)"
  "ac_selection_confidence tuned_config = Fin (1 / 2)" "ac_approval_confidence tuned_config = Fin (1 / 2)"
  by (simp_all add: tuned_config_def)

definition example_listed :: "(string, listed_part) omap" where
  "example_listed =
     [(''01A'', \<lparr>lp_part_ulid = ''01A'', lp_window_start = 600, lp_window_seconds = 600,
                lp_received_frame_count = 4, lp_record_count = 2\<rparr>)]"

lemma example_parts:
  "unique_in_scope_parts (ai_listed_parts example_input) 0 1200 = Inr example_listed"
  "try_fold available_step 0 (omap_values example_listed) = Inr 2"
  "\<exists>f. dropped_frame_fraction (map (\<lambda>part.
         (lp_part_ulid part, lp_received_frame_count part, lp_record_count part))
         (omap_values example_listed)) = Inr f"
  by (simp_all add: example_input_def example_listed_def unique_in_scope_parts_def scope_step_def
      checked_add_def omap_get_def omap_values_def available_step_def dropped_frame_fraction_def drop_step_def)

lemma example_compliance: "compliance_confidence (\<lambda>_ _ _. c) n n (Fin (1 / 2)) = Inr c"
  by (simp add: compliance_confidence_def)

lemma example_runs:
  assumes "insufficient example_input [example_train] [example_test] c c \<and> sel = None
     \<or> \<not> insufficient example_input [example_train] [example_test] c c
       \<and> (\<exists>s. sel = Some s
          \<and> select_and_validate (\<lambda>_ _ _. c) tuned_config [example_train] [example_test] = Inr s)"
  shows "\<exists>out. aggregate (\<lambda>_ _ _. c) (example_input\<lparr>ai_previous_round := previous\<rparr>) = Inr out
     \<and> rd_status out = (case sel of None \<Rightarrow> InsufficientSamples | Some s \<Rightarrow> cs_status s)
     \<and> rd_confidence out = map_option cs_confidence sel"
proof -
  let ?i = "example_input\<lparr>ai_previous_round := previous\<rparr>"
  obtain f where f: "dropped_frame_fraction (map (\<lambda>part.
         (lp_part_ulid part, lp_received_frame_count part, lp_record_count part))
         (omap_values example_listed)) = Inr f" using example_parts(3) by blast
  obtain ps where ps: "per_ef_summaries [example_test, example_train] tuned_config = Inr ps"
    using example_summaries by blast
  obtain w w' where w: "iso8601_seconds 1200 = Inr w" "iso8601_seconds 0 = Inr w'"
    using iso8601_seconds_total by blast
  have i: "ai_config example_input = tuned_config" "ai_round_end example_input = 1200"
    "ai_phase_a_incompatible_parts example_input = 0"
    "ai_intermediates example_input = [example_intermediate]" "ai_phase_a_abort example_input = None"
    by (simp_all add: example_input_def)
  have n: "insufficient ?i tr te a b = insufficient example_input tr te a b" for tr te :: "population_sample list" and a b
    by (simp add: insufficient_def)
  have c: "checked_sub 1200 1200 = Some (0 :: u64)" by (simp add: checked_sub_def)
  have u: "try_fold (use_step tuned_config example_listed)
     \<lparr>us_used = [], us_incompatible = 0, us_measured = 0, us_failed = 0\<rparr> [(''01A'', example_intermediate)]
     = Inr \<lparr>us_used = [example_intermediate], us_incompatible = 0, us_measured = 2, us_failed = 0\<rparr>"
    unfolding example_listed_def by (rule example_usage)
  show ?thesis
    using assms
    by (auto simp: aggregate_def i n Let_def tuned_config_ok example_fields example_windows c example_parts f
        example_intermediates u example_population example_valid ps example_split example_compliance w a_math_def
        simp del: try_fold.simps)
qed

lemma example_fresh_from:
  "\<exists>out e. aggregate (\<lambda>_ _ _. Fin 1) (example_input\<lparr>ai_previous_round := previous\<rparr>) = Inr out
     \<and> rd_status out = Status_Ok \<and> rd_confidence out = Some (Fin 1)
     \<and> rd_effective out = Some e \<and> \<not> er_carried e"
proof -
  obtain s where s: "select_and_validate (\<lambda>_ _ _. Fin 1) tuned_config [example_train] [example_test] = Inr s"
      "cs_status s = Status_Ok" "cs_confidence s = Fin 1"
    using example_selection by blast
  have "\<not> insufficient example_input [example_train] [example_test] (Fin 1) (Fin 1)"
    by (simp add: insufficient_def example_input_def tuned_config_def)
  then obtain out where out: "aggregate (\<lambda>_ _ _. Fin 1) (example_input\<lparr>ai_previous_round := previous\<rparr>) = Inr out"
      "rd_status out = Status_Ok" "rd_confidence out = Some (Fin 1)"
    using example_runs [of "Fin 1" "Some s"] s by auto
  then show ?thesis
    using effective_of_round [OF out(1)] by (auto simp: example_input_def tuned_config_def)
qed

lemma example_previous_same: "example_input\<lparr>ai_previous_round := Some example_previous\<rparr> = example_input"
  by (simp add: example_input_def)

lemmas example_fresh = example_fresh_from [of "Some example_previous", unfolded example_previous_same]
lemmas example_fresh_first = example_fresh_from [of None]

lemma example_carried:
  "\<exists>out. aggregate (\<lambda>_ _ _. Fin 0) example_input = Inr out \<and> rd_status out = InsufficientSamples"
  using example_runs [of "Fin 0" None "Some example_previous"]
  by (auto simp: insufficient_def example_input_def tuned_config_def)

section \<open>Properties\<close>

text \<open>
  C15. The effective recommendation of a round is a fresh one exactly when the round's status is ok
  and its holdout confidence reaches the approval confidence; otherwise it is the one of the previous
  round, marked as carried, and only when the previous round has the same fingerprint; otherwise
  there is none.
\<close>

theorem effective_recommendation_rule:
  assumes "aggregate br input = Inr out"
  shows "rd_effective out = Some e \<longleftrightarrow>
     (if rd_status out = Status_Ok
         \<and> (\<exists>c. rd_confidence out = Some c \<and> f64_le (ac_approval_confidence (ai_config input)) c)
      then e = \<lparr>er_recommended_ef = the (rd_recommended_ef out), er_confidence = the (rd_confidence out),
                er_source_round = rw_end (rd_window out), er_carried = False\<rparr>
      else \<exists>prev p. ai_previous_round input = Some prev \<and> carry_fingerprint_matches (ai_config input) prev
             \<and> rd_effective prev = Some p \<and> e = p\<lparr>er_carried := True\<rparr>)"
  using assms by (rule effective_of_round)

theorem effective_recommendation_rule_witness:
  "\<exists>out. aggregate (\<lambda>_ _ _. Fin 1) example_input = Inr out
     \<and> rd_effective out = Some \<lparr>er_recommended_ef = the (rd_recommended_ef out), er_confidence = Fin 1,
         er_source_round = rw_end (rd_window out), er_carried = False\<rparr>"
proof -
  obtain out where "aggregate (\<lambda>_ _ _. Fin 1) example_input = Inr out" "rd_status out = Status_Ok"
      "rd_confidence out = Some (Fin 1)"
    using example_fresh by blast
  then show ?thesis using effective_recommendation_rule [of "\<lambda>_ _ _. Fin 1" example_input out]
    by (simp add: example_input_def tuned_config_def)
qed

text \<open>
  C2. A fresh recommendation is backed on both splits: the round measured the table (no abort), its
  ef is a member of the configured grid and of the range that the recommendation server accepts, the
  train confidence reaches the selection confidence, and the holdout confidence the approval
  confidence.
\<close>

theorem fresh_recommendation_assured:
  assumes "aggregate br input = Inr out" and "rd_effective out = Some e" and "\<not> er_carried e"
  shows "ai_phase_a_abort input = None \<and> rd_status out = Status_Ok
     \<and> rd_recommended_ef out = Some (er_recommended_ef e)
     \<and> er_recommended_ef e \<in> set (ac_ef_grid (ai_config input))
     \<and> MIN_EF_SEARCH \<le> er_recommended_ef e \<and> er_recommended_ef e \<le> MAX_EF_SEARCH
     \<and> (\<exists>tc. rd_train_confidence out = Some tc
          \<and> f64_le (ac_selection_confidence (ai_config input)) tc)
     \<and> rd_confidence out = Some (er_confidence e)
     \<and> f64_le (ac_approval_confidence (ai_config input)) (er_confidence e)"
  using assms by (rule fresh_of_round)

theorem fresh_recommendation_assured_witness:
  "\<exists>out. aggregate (\<lambda>_ _ _. Fin 1) example_input = Inr out \<and> rd_recommended_ef out \<noteq> None
     \<and> the (rd_recommended_ef out) \<in> {10, 20}"
proof -
  obtain out e where out: "aggregate (\<lambda>_ _ _. Fin 1) example_input = Inr out"
      "rd_effective out = Some e" "\<not> er_carried e"
    using example_fresh by blast
  then show ?thesis using fresh_recommendation_assured [OF out]
    by (simp add: example_input_def tuned_config_def)
qed

text \<open>
  C33. The published status is consistent: a round has the status insufficient-samples exactly when
  it recommends no ef, which is the case whenever Phase A was aborted; the error is published exactly
  for an abort; and the train and test counts add up to the unique count.
\<close>

theorem round_status_consistent:
  assumes "aggregate br input = Inr out"
  shows "(rd_status out = InsufficientSamples \<longleftrightarrow> rd_recommended_ef out = None)
     \<and> (rd_confidence out = None \<longleftrightarrow> rd_recommended_ef out = None)
     \<and> (ai_phase_a_abort input \<noteq> None \<longrightarrow> rd_status out = InsufficientSamples)
     \<and> (rd_error out = None \<longleftrightarrow> ai_phase_a_abort input = None)
     \<and> sc_train (rd_samples out) + sc_test (rd_samples out) = sc_unique (rd_samples out)"
proof (rule aggregate_inversion [OF assms], goal_cases)
  case (1 lower listed intermediates usage train test tc ec selected source)
  have "cs_status s \<noteq> InsufficientSamples" if "selected = Some s" for s
    using that 1(10) selection_status(2) by (auto simp: result_simps split: if_splits)
  moreover have "selected = None" if "ai_phase_a_abort input \<noteq> None"
    using that 1(10) by (simp add: insufficient_def)
  moreover have "sc_train (rd_samples out) + sc_test (rd_samples out) = sc_unique (rd_samples out)"
    using split_partition(3) [OF 1(7)] 1 by (simp flip: of_nat_add)
  ultimately show ?case using 1 by (auto split: option.splits)
qed

theorem round_status_consistent_witness:
  "\<exists>out. aggregate (\<lambda>_ _ _. Fin 0) example_input = Inr out \<and> rd_status out = InsufficientSamples
     \<and> rd_recommended_ef out = None \<and> rd_confidence out = None \<and> rd_error out = None"
proof -
  obtain out where out: "aggregate (\<lambda>_ _ _. Fin 0) example_input = Inr out"
      "rd_status out = InsufficientSamples"
    using example_carried by blast
  then show ?thesis using round_status_consistent [OF out(1)] by (simp add: example_input_def)
qed

text \<open>
  C16. No aggregation ends in a panic: a validated population has every observation that the summary,
  the selection and the holdout check look up, the quantiles are inside of their lists, and the
  timestamps are long enough for their slices.
\<close>

theorem aggregate_never_panics:
  assumes "length (used_samples (ai_intermediates input)) \<le> 2 ^ 53"
  shows "aggregate br input \<noteq> Inl (A_Math IndexPanic)"
proof
  assume "aggregate br input = Inl (A_Math IndexPanic)"
  then show False
    unfolding aggregate_def Let_def res_bind_Inl res_bind_Inr a_math_panic a_math_Inr ok_or_Inl ok_or_Inr
      split_paired_Ex prod.case
    by (elim disjE exE conjE; (simp only: parts_no_panic validate_no_panic iso_no_panic
        unique_intermediates_no_panic confidence_no_panic aggregate_error.distinct sum.distinct; fail)?)
      (erule (3) measured_no_panic [OF assms, THEN notE] split_no_panic [OF assms, THEN notE])+
qed

theorem aggregate_never_panics_witness:
  "aggregate (\<lambda>_ _ _. Fin 1) example_input \<noteq> Inl (A_Math IndexPanic)"
  by (rule aggregate_never_panics) (simp add: example_input_def used_samples_def example_intermediate_def)

text \<open>
  C3. A carried recommendation is never invented: over any sequence of rounds, each aggregated with
  its predecessor, every effective recommendation is the fresh effective recommendation of one of the
  rounds, but for its carried mark. That round measured without an abort, has the status ok, the ef, the
  confidence and the source round that the recommendation names, a train confidence that reaches its
  selection confidence and a holdout confidence that reaches its approval confidence; it is of the
  same cohort, index, grid and goal as the round that serves it, and the ef lies in the range that the
  recommendation server accepts.
\<close>

theorem effective_recommendation_has_origin:
  assumes "published br rounds" and "out \<in> set rounds" and "rd_effective out = Some e"
  shows "\<exists>origin \<in> set rounds. rd_effective origin = Some (e\<lparr>er_carried := False\<rparr>)
        \<and> rd_status origin = Status_Ok \<and> rd_error origin = None
        \<and> rd_recommended_ef origin = Some (er_recommended_ef e)
        \<and> rd_confidence origin = Some (er_confidence e)
        \<and> er_source_round e = rw_end (rd_window origin)
        \<and> f64_le (rt_approval_confidence (rd_target origin)) (er_confidence e)
        \<and> (\<exists>tc. rd_train_confidence origin = Some tc \<and> f64_le (rt_selection_confidence (rd_target origin)) tc)
        \<and> rd_cohort origin = rd_cohort out \<and> rd_index origin = rd_index out \<and> rd_ef_grid origin = rd_ef_grid out
        \<and> same_goal (rd_target origin) (rd_target out)
        \<and> MIN_EF_SEARCH \<le> er_recommended_ef e \<and> er_recommended_ef e \<le> MAX_EF_SEARCH"
  using origin_exists [OF assms] by (simp add: origin_of_def)

theorem effective_recommendation_has_origin_witness:
  "\<exists>out e. published (\<lambda>_ _ _. Fin 1) [out] \<and> rd_effective out = Some (e\<lparr>er_carried := False\<rparr>)
     \<and> rd_recommended_ef out = Some (er_recommended_ef e) \<and> er_source_round e = rw_end (rd_window out)
     \<and> f64_le (rt_approval_confidence (rd_target out)) (er_confidence e)"
proof -
  obtain out e where "aggregate (\<lambda>_ _ _. Fin 1) (example_input\<lparr>ai_previous_round := None\<rparr>) = Inr out"
      "rd_effective out = Some e"
    using example_fresh_first by blast
  then have p: "published (\<lambda>_ _ _. Fin 1) [out]" and e: "rd_effective out = Some e"
    by (auto intro: published.round [OF published.first])
  show ?thesis using effective_recommendation_has_origin [OF p _ e] p by auto
qed

text \<open>
  C34. Every measured intermediate of a listed part is accounted for: the parts used are the
  compatible ones and the measured count is the sum of their counts; the others are counted as
  incompatible, on top of those that Phase A rejected.
\<close>

theorem intermediates_accounted:
  assumes "aggregate br input = Inr out"
  shows "\<exists>lower listed intermediates.
     checked_sub (ai_round_end input) (ac_window_duration_seconds (ai_config input)) = Some lower
     \<and> unique_in_scope_parts (ai_listed_parts input) lower (ai_round_end input) = Inr listed
     \<and> unique_intermediates (ai_intermediates input) = Inr intermediates
     \<and> (let found = filter (\<lambda>(u, p). omap_get listed u \<noteq> None) intermediates;
            used = filter (is_compatible (ai_config input)) (map snd found)
        in rd_parts_used out = word_of_nat (length used)
           \<and> unat (sc_measured (rd_samples out)) = (\<Sum>p \<leftarrow> used. unat (im_measured_count (ip_metadata p)))
           \<and> unat (rd_incompatible_parts out) =
               unat (ai_phase_a_incompatible_parts input) + (length found - length used))"
proof (rule aggregate_inversion [OF assms], goal_cases)
  case (1 lower listed intermediates usage train test tc ec selected source)
  let ?c = "\<lambda>(u :: string, p). is_compatible (ai_config input) p"
  let ?found = "filter (\<lambda>(u, p). omap_get listed u \<noteq> None) intermediates"
  have a: "filter (\<lambda>(u, p). omap_get listed u \<noteq> None \<and> is_compatible (ai_config input) p) intermediates
      = filter ?c ?found"
    and b: "filter (\<lambda>(u, p). omap_get listed u \<noteq> None \<and> \<not> is_compatible (ai_config input) p) intermediates
      = filter (\<lambda>x. \<not> ?c x) ?found"
    by (induction intermediates) auto
  have m: "filter (is_compatible (ai_config input)) (map snd ?found) = map snd (filter ?c ?found)"
    by (simp add: filter_map comp_def case_prod_beta)
  have l: "length (filter (\<lambda>x. \<not> ?c x) ?found) = length ?found - length (filter ?c ?found)"
    using sum_length_filter_compl [of ?c ?found] by linarith
  have "us_used usage = map snd (filter ?c ?found)"
    and "unat (us_incompatible usage) = unat (ai_phase_a_incompatible_parts input)
        + (length ?found - length (filter ?c ?found))"
    and "unat (us_measured usage) = (\<Sum>p \<leftarrow> map snd (filter ?c ?found). unat (im_measured_count (ip_metadata p)))"
    using use_fold [OF 1(5)] unfolding a b l by simp_all
  then show ?case
    using 1(2-4) by (intro exI [of _ lower] exI [of _ listed] exI [of _ intermediates])
      (simp only: Let_def 1(24-26) m length_map simp_thms)
qed

theorem intermediates_accounted_witness:
  "\<exists>out. aggregate (\<lambda>_ _ _. Fin 1) example_input = Inr out
     \<and> rd_parts_used out = 1 \<and> unat (sc_measured (rd_samples out)) = 2 \<and> unat (rd_incompatible_parts out) = 0"
proof -
  obtain out where out: "aggregate (\<lambda>_ _ _. Fin 1) example_input = Inr out" using example_fresh by blast
  have i: "ai_config example_input = tuned_config" "ai_round_end example_input = 1200"
    "ai_phase_a_incompatible_parts example_input = 0" "ai_intermediates example_input = [example_intermediate]"
    by (simp_all add: example_input_def)
  have c: "checked_sub 1200 1200 = Some (0 :: u64)" by (simp add: checked_sub_def)
  have k: "omap_get example_listed ''01A'' \<noteq> None" by (simp add: example_listed_def omap_get_def)
  have m: "is_compatible tuned_config example_intermediate" "im_measured_count (ip_metadata example_intermediate) = 2"
    by (simp_all add: is_compatible_def tuned_config_def example_intermediate_def)
  show ?thesis
    using intermediates_accounted [OF out] out k m by (auto simp: i example_fields c example_parts example_intermediates)
qed

end
