(* ===== verification/Measure.thy ===== *)
theory Measure
  imports Segment TunerModel "HOL-Library.Sublist"
begin

text \<open>
  Phase A of one part (\<open>seam/src/measure.rs\<close>): a segment is parsed, checked against the expected
  cohort and window, and deduplicated by exact vector bytes; then every sample is measured through
  the database seam, and the measured rows are collected with the part's metadata. An \<open>f32\<close> is its
  bit pattern. The measurer and the cancellation token are the environment: \<open>measure_sample\<close> maps a
  state of it to a result and a next state, \<open>cancelled\<close> reads the token. A slice or an index out of
  range is the error \<open>Prep_IndexPanic\<close>, so that its absence is a theorem.
\<close>

section \<open>Definitions\<close>

definition F32_DTYPE :: u32 where
  "F32_DTYPE = 1"

definition F32_BYTES :: usize where
  "F32_BYTES = 4"

type_synonym f32_bits = u32

record sample_sweep_result =
  sw_ef :: int
  sw_returned_keys :: "int list"
  sw_recall :: f64
  sw_latency_ms :: f64

record sample_measurement =
  sp_gt_keys :: "int list"
  sp_gt_distances :: "f64 list"
  sp_ground_truth_latency_ms :: f64
  sp_sweeps :: "sample_sweep_result list"

datatype sample_measure_error =
    ME_Database string
  | ME_Connection string
  | ME_CancelledBeforeTransaction
  | ME_TableSmallerThanK usize u32

type_synonym 'w measurer =
  "f32_bits list \<Rightarrow> aggregation_config \<Rightarrow> 'w \<Rightarrow> (sample_measure_error + sample_measurement) \<times> 'w"

datatype sample_frame_error =
    SF_CohortMismatch
  | SF_UnsupportedDtype u32
  | SF_DimensionMismatch
  | SF_ReceiveTimeOutOfRange

record prepared_sample =
  pr_record_index :: int
  pr_dup_count :: int
  pr_receive_time_us :: "sample_frame_error + int"
  pr_vector_hash :: u64
  pr_vector :: "sample_frame_error + f32_bits list"

record prepared_part =
  pp_cohort :: string
  pp_window_start :: u64
  pp_window_seconds :: u32
  pp_received_frame_count :: u64
  pp_record_count :: u64
  pp_samples :: "prepared_sample list"

datatype prepare_part_error =
    Prep_Segment segment_error
  | Prep_Frame frame_error
  | Prep_Cohort string string
  | Prep_WindowStart u64 u64
  | Prep_WindowSeconds u32 u32
  | Prep_RecordCount u64 usize
  | Prep_ReceivedFrameCount u64 u64
  | Prep_RecordIndex usize
  | Prep_DuplicateCount
  | Prep_ResultCount usize
  | Prep_MeasuredCount usize
  | Prep_IndexPanic

definition i32_from_usize :: "usize \<Rightarrow> int option" where
  "i32_from_usize n = (if n < 2 ^ 31 then Some (int n) else None)"

definition i32_checked_add :: "int \<Rightarrow> int \<Rightarrow> int option" where
  "i32_checked_add a b = (if - (2 ^ 31) \<le> a + b \<and> a + b < 2 ^ 31 then Some (a + b) else None)"

definition usize_mul :: "usize \<Rightarrow> usize \<Rightarrow> usize option" where
  "usize_mul a b = (if a * b < usize_bound then Some (a * b) else None)"

text \<open>\<open>chunks_exact(F32_BYTES)\<close> read as little-endian words; a shorter rest is dropped.\<close>

fun f32_chunks :: "u8 list \<Rightarrow> f32_bits list" where
  "f32_chunks (a # b # c # d # bs) = word_from_le_bytes [a, b, c, d] # f32_chunks bs"
| "f32_chunks _ = []"

text \<open>\<open>&record.frame[vector_start..]\<close>.\<close>

definition vector_bytes_of :: "usize \<Rightarrow> frame_header \<Rightarrow> u8 list \<Rightarrow> prepare_part_error + u8 list" where
  "vector_bytes_of record_index header frame =
     res_bind (ok_or (usize_from_u32 (fh_name_len header)) (Prep_RecordIndex record_index)) (\<lambda>name_len.
     res_bind (ok_or (usize_add FIXED_FRAME_HEADER_LEN name_len) (Prep_RecordIndex record_index))
       (\<lambda>vector_start.
     if vector_start \<le> length frame then Inr (drop vector_start frame) else Inl Prep_IndexPanic))"

definition semantic_error :: "string \<Rightarrow> frame_header \<Rightarrow> u8 list \<Rightarrow> sample_frame_error option" where
  "semantic_error expected_cohort header vector_bytes =
     (if fh_name header \<noteq> expected_cohort then Some SF_CohortMismatch
      else if fh_dtype header \<noteq> F32_DTYPE then Some (SF_UnsupportedDtype (fh_dtype header))
      else if fh_dimension header = 0
              \<or> Option.bind (usize_from_u32 (fh_dimension header)) (\<lambda>dimension. usize_mul dimension F32_BYTES)
                \<noteq> Some (length vector_bytes)
      then Some SF_DimensionMismatch
      else None)"

type_synonym prepare_state = "(u8 list \<Rightarrow> usize option) \<times> prepared_sample list"

definition prepare_step ::
  "string \<Rightarrow> prepare_state \<Rightarrow> usize \<times> segment_record \<Rightarrow> prepare_part_error + prepare_state" where
  "prepare_step expected_cohort = (\<lambda>(first_by_vector, samples) (i, record).
     res_bind (map_err Prep_Frame (parse_frame_header (sr_frame record))) (\<lambda>header.
     res_bind (vector_bytes_of i header (sr_frame record)) (\<lambda>vector_bytes.
     case first_by_vector vector_bytes of
       Some existing \<Rightarrow>
         if length samples \<le> existing then Inl Prep_IndexPanic
         else
         res_bind (ok_or (i32_checked_add (pr_dup_count (samples ! existing)) 1) Prep_DuplicateCount) (\<lambda>n.
         Inr (first_by_vector, samples[existing := (samples ! existing)\<lparr>pr_dup_count := n\<rparr>]))
     | None \<Rightarrow>
         let sample_index = length samples;
             first_by_vector = first_by_vector(vector_bytes \<mapsto> sample_index) in
         res_bind (ok_or (i32_from_usize i) (Prep_RecordIndex i)) (\<lambda>record_index.
         let vector = (case semantic_error expected_cohort header vector_bytes of
                         None \<Rightarrow> Inr (f32_chunks vector_bytes)
                       | Some e \<Rightarrow> Inl e);
             receive_time_us = (if unat (sr_receive_time record) < 2 ^ 63
                                then Inr (int (unat (sr_receive_time record)))
                                else Inl SF_ReceiveTimeOutOfRange)
         in Inr (first_by_vector,
                 samples @ [\<lparr>pr_record_index = record_index, pr_dup_count = 1,
                             pr_receive_time_us = receive_time_us,
                             pr_vector_hash = fnv1a64 vector_bytes, pr_vector = vector\<rparr>])))))"

definition prepare_segment ::
  "u8 list \<Rightarrow> string \<Rightarrow> u64 \<Rightarrow> u32 \<Rightarrow> prepare_part_error + prepared_part" where
  "prepare_segment bytes expected_cohort expected_window_start expected_window_seconds =
     res_bind (map_err Prep_Segment (read_segment bytes)) (\<lambda>segment.
     let h = seg_header segment; observed_cohort = as_str (sh_cohort h) in
     if observed_cohort \<noteq> expected_cohort then Inl (Prep_Cohort expected_cohort observed_cohort)
     else if sh_window_start h \<noteq> expected_window_start
     then Inl (Prep_WindowStart expected_window_start (sh_window_start h))
     else if sh_window_seconds h \<noteq> expected_window_seconds
     then Inl (Prep_WindowSeconds expected_window_seconds (sh_window_seconds h))
     else if length (seg_records segment) \<noteq> unat (sh_record_count h)
     then Inl (Prep_RecordCount (sh_record_count h) (length (seg_records segment)))
     else if sh_received_frame_count h < sh_record_count h
     then Inl (Prep_ReceivedFrameCount (sh_received_frame_count h) (sh_record_count h))
     else
     res_bind (try_fold (prepare_step expected_cohort) (Map.empty, [])
                 (enumerate 0 (seg_records segment))) (\<lambda>(_, samples).
     Inr \<lparr>pp_cohort = observed_cohort, pp_window_start = sh_window_start h,
          pp_window_seconds = sh_window_seconds h,
          pp_received_frame_count = sh_received_frame_count h,
          pp_record_count = sh_record_count h, pp_samples = samples\<rparr>))"

record truth_measurement =
  tm_record_index :: int
  tm_vector_hash :: u64
  tm_dup_count :: int
  tm_receive_time_us :: int
  tm_latency_ms :: f64
  tm_gt_keys :: "int list"
  tm_gt_distances :: "f64 list"

record sweep_measurement_row =
  swr_record_index :: int
  swr_ef :: int
  swr_returned_keys :: "int list"
  swr_recall :: f64
  swr_latency_ms :: f64
  swr_result_count :: int

record measured_part =
  mp_metadata :: intermediate_metadata
  mp_truth_rows :: "truth_measurement list"
  mp_sweep_rows :: "sweep_measurement_row list"

datatype measure_part_outcome =
    MP_Complete measured_part
  | MP_TableSmallerThanK phase_a_abort
  | MP_ConnectionUnavailable string
  | MP_Cancelled

record measure_rows =
  mr_failed :: u64
  mr_truth :: "truth_measurement list"
  mr_sweeps :: "sweep_measurement_row list"

text \<open>The shape a measurement must have to be kept.\<close>

definition measurement_shape_ok :: "aggregation_config \<Rightarrow> sample_measurement \<Rightarrow> bool" where
  "measurement_shape_ok config m \<longleftrightarrow>
     \<not> (length (sp_gt_keys m) \<noteq> unat (ac_k config)
        \<or> length (sp_gt_distances m) \<noteq> length (sp_gt_keys m)
        \<or> length (sp_sweeps m) \<noteq> length (ac_ef_grid config)
        \<or> list_ex (\<lambda>(sweep, ef). sw_ef sweep \<noteq> ef) (zip (sp_sweeps m) (ac_ef_grid config)))"

definition sweep_row :: "int \<Rightarrow> sample_sweep_result \<Rightarrow> prepare_part_error + sweep_measurement_row" where
  "sweep_row record_index sweep =
     res_bind (ok_or (i32_from_usize (length (sw_returned_keys sweep)))
                 (Prep_ResultCount (length (sw_returned_keys sweep)))) (\<lambda>result_count.
     Inr \<lparr>swr_record_index = record_index, swr_ef = sw_ef sweep,
          swr_returned_keys = sw_returned_keys sweep, swr_recall = sw_recall sweep,
          swr_latency_ms = sw_latency_ms sweep, swr_result_count = result_count\<rparr>)"

text \<open>
  The sample loop: \<open>Inr (Inl outcome)\<close> is an early return, \<open>Inr (Inr rows)\<close> the end of the loop. The
  environment is threaded through, also when the loop fails.
\<close>

fun measure_loop ::
  "'w measurer \<Rightarrow> ('w \<Rightarrow> bool) \<Rightarrow> aggregation_config \<Rightarrow> prepared_sample list \<Rightarrow> measure_rows \<Rightarrow> 'w
     \<Rightarrow> (prepare_part_error + (measure_part_outcome + measure_rows)) \<times> 'w" where
  "measure_loop measure_sample cancelled config [] rows w = (Inr (Inr rows), w)"
| "measure_loop measure_sample cancelled config (sample # samples) rows w =
     (if cancelled w then (Inr (Inl MP_Cancelled), w)
      else
      (case (pr_receive_time_us sample, pr_vector sample) of
         (Inr receive_time_us, Inr vector) \<Rightarrow>
           (case measure_sample vector config w of
              (Inr m, w) \<Rightarrow>
                if \<not> measurement_shape_ok config m
                then measure_loop measure_sample cancelled config samples
                       (rows\<lparr>mr_failed := mr_failed rows + 1\<rparr>) w
                else
                (case res_map (sweep_row (pr_record_index sample)) (sp_sweeps m) of
                   Inl e \<Rightarrow> (Inl e, w)
                 | Inr sweeps \<Rightarrow>
                     measure_loop measure_sample cancelled config samples
                       (rows\<lparr>mr_truth := mr_truth rows
                             @ [\<lparr>tm_record_index = pr_record_index sample,
                                 tm_vector_hash = pr_vector_hash sample,
                                 tm_dup_count = pr_dup_count sample,
                                 tm_receive_time_us = receive_time_us,
                                 tm_latency_ms = sp_ground_truth_latency_ms m,
                                 tm_gt_keys = sp_gt_keys m, tm_gt_distances = sp_gt_distances m\<rparr>],
                             mr_sweeps := mr_sweeps rows @ sweeps\<rparr>) w)
            | (Inl (ME_Database error), w) \<Rightarrow>
                measure_loop measure_sample cancelled config samples
                  (rows\<lparr>mr_failed := mr_failed rows + 1\<rparr>) w
            | (Inl (ME_Connection error), w) \<Rightarrow> (Inr (Inl (MP_ConnectionUnavailable error)), w)
            | (Inl ME_CancelledBeforeTransaction, w) \<Rightarrow> (Inr (Inl MP_Cancelled), w)
            | (Inl (ME_TableSmallerThanK returned k), w) \<Rightarrow>
                (Inr (Inl (MP_TableSmallerThanK (TableSmallerThanK (''table returned ''
                   @ show_nat returned @ '' rows, fewer than required k='' @ show_nat (unat k))))), w))
       | _ \<Rightarrow> measure_loop measure_sample cancelled config samples
                (rows\<lparr>mr_failed := mr_failed rows + 1\<rparr>) w))"

definition measured_metadata ::
  "prepared_part \<Rightarrow> string \<Rightarrow> aggregation_config \<Rightarrow> u64 \<Rightarrow> u64 \<Rightarrow> u64 \<Rightarrow> intermediate_metadata" where
  "measured_metadata part part_ulid config computed_at_us failed_count measured_count =
     \<lparr>im_format_version = 1, im_cohort = pp_cohort part, im_part_ulid = part_ulid,
      im_window_start = pp_window_start part, im_window_seconds = pp_window_seconds part,
      im_received_frame_count = pp_received_frame_count part, im_record_count = pp_record_count part,
      im_index = ac_index config, im_table = ac_table config, im_column = ac_column config,
      im_key = ac_key config, im_k = ac_k config, im_ef_grid = ac_ef_grid config,
      im_failed_count = failed_count, im_measured_count = measured_count,
      im_computed_at_us = computed_at_us\<rparr>"

definition measure_prepared_part ::
  "'w measurer \<Rightarrow> ('w \<Rightarrow> bool) \<Rightarrow> prepared_part \<Rightarrow> string \<Rightarrow> aggregation_config \<Rightarrow> u64 \<Rightarrow> 'w
     \<Rightarrow> (prepare_part_error + measure_part_outcome) \<times> 'w" where
  "measure_prepared_part measure_sample cancelled part part_ulid config computed_at_us w =
     (case measure_loop measure_sample cancelled config (pp_samples part)
             \<lparr>mr_failed = 0, mr_truth = [], mr_sweeps = []\<rparr> w of
        (Inl e, w) \<Rightarrow> (Inl e, w)
      | (Inr (Inl outcome), w) \<Rightarrow> (Inr outcome, w)
      | (Inr (Inr rows), w) \<Rightarrow>
          if usize_bound \<le> length (mr_truth rows) then (Inl (Prep_MeasuredCount (length (mr_truth rows))), w)
          else (Inr (MP_Complete
                  \<lparr>mp_metadata = measured_metadata part part_ulid config computed_at_us (mr_failed rows)
                                   (word_of_nat (length (mr_truth rows))),
                   mp_truth_rows = mr_truth rows, mp_sweep_rows = mr_sweeps rows\<rparr>), w))"

section \<open>Facts\<close>

subsection \<open>Deduplication inside a part\<close>

text \<open>The distinct vectors of a part in the order of their first occurrences.\<close>

definition firsts :: "'a list \<Rightarrow> 'a list" where
  "firsts xs = rev (remdups (rev xs))"

lemma firsts_snoc: "firsts (xs @ [x]) = (if x \<in> set xs then firsts xs else firsts xs @ [x])"
  by (simp add: firsts_def)

lemma set_firsts [simp]: "set (firsts xs) = set xs"
  by (simp add: firsts_def)

lemma distinct_firsts [simp]: "distinct (firsts xs)"
  by (simp add: firsts_def)

definition first_pos :: "'a \<Rightarrow> 'a list \<Rightarrow> nat" where
  "first_pos x xs = length (takeWhile (\<lambda>y. y \<noteq> x) xs)"

lemma first_pos_append: "x \<in> set xs \<Longrightarrow> first_pos x (xs @ ys) = first_pos x xs"
  by (auto simp: first_pos_def takeWhile_append)

lemma first_pos_snoc: "x \<notin> set xs \<Longrightarrow> first_pos x (xs @ [x]) = length xs"
  by (simp add: first_pos_def takeWhile_append takeWhile_eq_all_conv)

text \<open>The vector bytes of a parsed frame, and their position.\<close>

definition frame_vector :: "u8 list \<Rightarrow> u8 list" where
  "frame_vector frame =
     (case parse_frame_header frame of
        Inr h \<Rightarrow> drop (28 + unat (fh_name_len h)) frame
      | Inl _ \<Rightarrow> [])"

lemma vector_bytes_in_range:
  assumes "parse_frame_header frame = Inr h"
  shows "vector_bytes_of i h frame = Inr (frame_vector frame)"
proof -
  obtain vec where f: "frame_wf h vec" "frame = encode_frame h vec"
    using parse_frame_header_inv [OF assms] by blast
  have "28 + unat (fh_name_len h) \<le> length frame"
    using encode_frame_parts(1) [OF f(1)] f by (simp add: frame_wf_def)
  moreover have "usize_add 28 (unat (fh_name_len h)) = Some (28 + unat (fh_name_len h))"
    using u32_bound [of "fh_name_len h"] by (simp add: usize_add_def usize_bound_def)
  ultimately show ?thesis
    using assms by (simp add: vector_bytes_of_def frame_vector_def FIXED_FRAME_HEADER_LEN_def)
qed

text \<open>What the loop has built from the vectors seen so far.\<close>

definition sample_ident :: "prepared_sample \<Rightarrow> int \<times> int \<times> u64" where
  "sample_ident s = (pr_record_index s, pr_dup_count s, pr_vector_hash s)"

definition expected_ident :: "u8 list list \<Rightarrow> u8 list \<Rightarrow> int \<times> int \<times> u64" where
  "expected_ident vectors v = (int (first_pos v vectors), int (count_list vectors v), fnv1a64 v)"

definition prepare_inv :: "u8 list list \<Rightarrow> prepare_state \<Rightarrow> bool" where
  "prepare_inv vectors st \<longleftrightarrow>
     (\<forall>v i. fst st v = Some i \<longleftrightarrow> i < length (firsts vectors) \<and> firsts vectors ! i = v)
     \<and> map sample_ident (snd st) = map (expected_ident vectors) (firsts vectors)"

lemma prepare_inv_start: "prepare_inv [] (Map.empty, [])"
  by (simp add: prepare_inv_def firsts_def)

lemma prepare_inv_length: "prepare_inv vectors st \<Longrightarrow> length (snd st) = length (firsts vectors)"
  unfolding prepare_inv_def by (metis length_map)

lemma prepare_inv_none:
  assumes "prepare_inv vectors st"
  shows "fst st v = None \<longleftrightarrow> v \<notin> set vectors"
proof -
  have "v \<in> set vectors \<longleftrightarrow> (\<exists>i < length (firsts vectors). firsts vectors ! i = v)"
    by (metis in_set_conv_nth set_firsts)
  moreover have "(\<exists>i. fst st v = Some i) \<longleftrightarrow> (\<exists>i < length (firsts vectors). firsts vectors ! i = v)"
    using assms by (simp add: prepare_inv_def)
  ultimately show ?thesis by auto
qed

lemma prepare_step_inv:
  assumes inv: "prepare_inv vectors st"
    and step: "prepare_step cohort st (length vectors, r) = Inr st'"
  shows "prepare_inv (vectors @ [frame_vector (sr_frame r)]) st'"
    and "is_ok (parse_frame_header (sr_frame r))"
proof -
  obtain first samples where st: "st = (first, samples)" by (cases st)
  let ?v = "frame_vector (sr_frame r)"
  obtain h where h: "parse_frame_header (sr_frame r) = Inr h"
    using step st by (auto simp: prepare_step_def result_simps)
  then show "is_ok (parse_frame_header (sr_frame r))" by simp
  note vb = vector_bytes_in_range [OF h, of "length vectors"]
  have idx: "\<And>v i. first v = Some i \<longleftrightarrow> i < length (firsts vectors) \<and> firsts vectors ! i = v"
    and ids: "map sample_ident samples = map (expected_ident vectors) (firsts vectors)"
    using inv st by (auto simp: prepare_inv_def)
  have len: "length samples = length (firsts vectors)" using prepare_inv_length [OF inv] st by simp
  show "prepare_inv (vectors @ [?v]) st'"
  proof (cases "first ?v")
    case None
    then have new: "?v \<notin> set vectors" using prepare_inv_none [OF inv, of ?v] st by simp
    have "\<exists>s. sample_ident s = (int (length vectors), 1, fnv1a64 ?v)
        \<and> st' = (first(?v \<mapsto> length samples), samples @ [s])"
      using step st h vb None
      by (auto simp: prepare_step_def result_simps Let_def i32_from_usize_def sample_ident_def split: if_splits)
    then obtain s where s: "sample_ident s = (int (length vectors), 1, fnv1a64 ?v)"
        and st': "st' = (first(?v \<mapsto> length samples), samples @ [s])" by blast
    have "expected_ident (vectors @ [?v]) u = expected_ident vectors u" if "u \<in> set vectors" for u
      using that new by (auto simp: expected_ident_def first_pos_append)
    then have old: "map (expected_ident (vectors @ [?v])) (firsts vectors) = map (expected_ident vectors) (firsts vectors)"
      by simp
    have "expected_ident (vectors @ [?v]) ?v = (int (length vectors), 1, fnv1a64 ?v)"
      using new by (simp add: expected_ident_def first_pos_snoc)
    then have "map sample_ident (samples @ [s]) = map (expected_ident (vectors @ [?v])) (firsts vectors @ [?v])"
      using old s ids by simp
    moreover have "(first(?v \<mapsto> length samples)) u = Some i \<longleftrightarrow>
        i < length (firsts vectors @ [?v]) \<and> (firsts vectors @ [?v]) ! i = u" for u i
    proof (cases "i < length (firsts vectors)")
      case True
      then have "firsts vectors ! i \<in> set vectors" by (metis nth_mem set_firsts)
      then show ?thesis using True idx new len by (auto simp: nth_append)
    next
      case False
      then show ?thesis using idx len by (auto simp: nth_append)
    qed
    ultimately show ?thesis using new st' by (simp add: prepare_inv_def firsts_snoc del: fun_upd_apply)
  next
    case (Some i)
    then have i: "i < length (firsts vectors)" "firsts vectors ! i = ?v" using idx by blast+
    then have old: "?v \<in> set vectors" by (metis nth_mem set_firsts)
    have d: "sample_ident (samples ! i) = expected_ident vectors ?v"
      using arg_cong [OF ids, of "\<lambda>xs. xs ! i"] i len by simp
    obtain n where n: "n = pr_dup_count (samples ! i) + 1"
        and st': "st' = (first, samples[i := (samples ! i)\<lparr>pr_dup_count := n\<rparr>])"
      using step st h vb Some i len
      by (auto simp: prepare_step_def result_simps i32_checked_add_def split: if_splits)
    have "sample_ident ((samples ! i)\<lparr>pr_dup_count := n\<rparr>) = expected_ident (vectors @ [?v]) ?v"
      using d n old by (simp add: sample_ident_def expected_ident_def first_pos_append)
    moreover have "expected_ident (vectors @ [?v]) u = expected_ident vectors u"
      if "u \<in> set vectors" "u \<noteq> ?v" for u
      using that by (simp add: expected_ident_def first_pos_append)
    moreover have "firsts vectors ! j \<noteq> ?v" if "j < length (firsts vectors)" "j \<noteq> i" for j
      using that i nth_eq_iff_index_eq [OF distinct_firsts] by metis
    ultimately have "map sample_ident (samples[i := (samples ! i)\<lparr>pr_dup_count := n\<rparr>])
        = map (expected_ident (vectors @ [?v])) (firsts vectors)"
      using i len ids by (intro nth_equalityI)
        (auto simp: nth_list_update map_update, metis nth_map nth_mem set_firsts)
    then show ?thesis using idx old st' by (simp add: prepare_inv_def firsts_snoc)
  qed
qed

lemma prepare_fold:
  assumes "try_fold (prepare_step cohort) (Map.empty, []) (enumerate 0 rs) = Inr st"
  shows "prepare_inv (map (\<lambda>r. frame_vector (sr_frame r)) rs) st"
  using assms
proof (induction rs arbitrary: st rule: rev_induct)
  case Nil
  then show ?case using prepare_inv_start by simp
next
  case (snoc r rs)
  obtain mid where mid: "try_fold (prepare_step cohort) (Map.empty, []) (enumerate 0 rs) = Inr mid"
    and step: "prepare_step cohort mid (length rs, r) = Inr st"
    using snoc.prems by (auto simp: enumerate_append_eq try_fold_append result_simps)
  from snoc.IH [OF mid] show ?case using prepare_step_inv(1) [of _ mid cohort r st] step by simp
qed

text \<open>No index of the loop is out of range.\<close>

lemma prepare_step_no_panic:
  assumes inv: "prepare_inv vectors st"
  shows "prepare_step cohort st (i, r) \<noteq> Inl Prep_IndexPanic"
proof
  assume p: "prepare_step cohort st (i, r) = Inl Prep_IndexPanic"
  obtain first samples where st: "st = (first, samples)" by (cases st)
  obtain h where h: "parse_frame_header (sr_frame r) = Inr h"
    using p st by (cases "parse_frame_header (sr_frame r)") (auto simp: prepare_step_def)
  have "length samples = length (firsts vectors)" using prepare_inv_length [OF inv] st by simp
  then have "\<not> length samples \<le> j" if "first v = Some j" for v j
    using that inv st by (simp add: prepare_inv_def)
  then show False using p st h vector_bytes_in_range [OF h, of i]
    by (auto simp: prepare_step_def result_simps Let_def split: option.splits if_splits)
qed

lemma prepare_fold_no_panic:
  "try_fold (prepare_step cohort) (Map.empty, []) (enumerate 0 rs) \<noteq> Inl Prep_IndexPanic"
proof (induction rs rule: rev_induct)
  case (snoc r rs)
  have "try_fold (prepare_step cohort) (Map.empty, []) (enumerate 0 (rs @ [r])) \<noteq> Inl Prep_IndexPanic"
  proof (cases "try_fold (prepare_step cohort) (Map.empty, []) (enumerate 0 rs)")
    case (Inl e)
    then show ?thesis using snoc by (simp add: enumerate_append_eq try_fold_append)
  next
    case (Inr st)
    from prepare_step_no_panic [OF prepare_fold [OF Inr]] show ?thesis
      using Inr by (simp add: enumerate_append_eq try_fold_append result_simps)
  qed
  then show ?case .
qed simp

lemma firsts_sum: "sum_list (map (count_list xs) (firsts xs)) = length xs"
  by (simp add: sum_list_distinct_conv_sum_set sum_count_set)

lemma first_pos_less: "x \<in> set xs \<Longrightarrow> first_pos x xs < length xs"
  unfolding first_pos_def by (induction xs) auto

lemma firsts_positions: "sorted_wrt (<) (map (\<lambda>v. first_pos v xs) (firsts xs))"
proof (induction xs rule: rev_induct)
  case Nil
  then show ?case by (simp add: firsts_def)
next
  case (snoc x xs)
  have same: "map (\<lambda>v. first_pos v (xs @ [x])) (firsts xs) = map (\<lambda>v. first_pos v xs) (firsts xs)"
    by (simp add: first_pos_append)
  show ?case
  proof (cases "x \<in> set xs")
    case True
    then have "firsts (xs @ [x]) = firsts xs" by (simp add: firsts_snoc)
    then show ?thesis using snoc same by (simp only:)
  next
    case False
    then have "map (\<lambda>v. first_pos v (xs @ [x])) (firsts (xs @ [x]))
        = map (\<lambda>v. first_pos v xs) (firsts xs) @ [length xs]"
      using same by (simp add: firsts_snoc first_pos_snoc)
    then show ?thesis using snoc by (auto simp: sorted_wrt_append first_pos_less)
  qed
qed

lemma prepare_segment_Inr:
  assumes "prepare_segment bytes cohort start width = Inr part"
  obtains seg st where "read_segment bytes = Inr seg"
    and "prepare_inv (map (\<lambda>r. frame_vector (sr_frame r)) (seg_records seg)) st"
    and "pp_samples part = snd st" and "pp_record_count part = sh_record_count (seg_header seg)"
    and "unat (sh_record_count (seg_header seg)) = length (seg_records seg)"
    and "pp_cohort part = cohort" and "pp_window_start part = start" and "pp_window_seconds part = width"
    and "pp_record_count part \<le> pp_received_frame_count part"
    and "pp_received_frame_count part = sh_received_frame_count (seg_header seg)"
  using assms unfolding prepare_segment_def Let_def
  by (auto simp: result_simps not_less split: if_splits dest!: prepare_fold)

subsection \<open>Measurement\<close>

definition truth_ident :: "truth_measurement \<Rightarrow> int \<times> int \<times> u64" where
  "truth_ident t = (tm_record_index t, tm_dup_count t, tm_vector_hash t)"

definition row_key :: "sweep_measurement_row \<Rightarrow> int \<times> int" where
  "row_key r = (swr_record_index r, swr_ef r)"

definition grid_keys :: "int list \<Rightarrow> truth_measurement list \<Rightarrow> (int \<times> int) list" where
  "grid_keys grid ts = concat (map (\<lambda>t. map (Pair (tm_record_index t)) grid) ts)"

lemma shape_efs:
  assumes "measurement_shape_ok config m"
  shows "map sw_ef (sp_sweeps m) = ac_ef_grid config"
proof (intro nth_equalityI)
  show len: "length (map sw_ef (sp_sweeps m)) = length (ac_ef_grid config)"
    using assms by (simp add: measurement_shape_ok_def)
  fix i
  assume i: "i < length (map sw_ef (sp_sweeps m))"
  then have "(sp_sweeps m ! i, ac_ef_grid config ! i) \<in> set (zip (sp_sweeps m) (ac_ef_grid config))"
    using len by (auto simp: set_zip)
  then show "map sw_ef (sp_sweeps m) ! i = ac_ef_grid config ! i"
    using assms i by (auto simp: measurement_shape_ok_def list_ex_iff)
qed

lemma sweep_rows_keys:
  assumes "res_map (sweep_row i) sweeps = Inr rows"
  shows "map row_key rows = map (Pair i) (map sw_ef sweeps)"
  using assms
proof (induction sweeps arbitrary: rows)
  case (Cons s ss)
  then show ?case by (auto simp: result_simps sweep_row_def row_key_def)
qed simp

text \<open>What a loop that ran to its end has added to the rows.\<close>

definition rows_grow ::
  "aggregation_config \<Rightarrow> prepared_sample list \<Rightarrow> measure_rows \<Rightarrow> measure_rows \<Rightarrow> bool" where
  "rows_grow config samples rows rows' \<longleftrightarrow>
     (\<exists>new. mr_truth rows' = mr_truth rows @ new
        \<and> subseq (map truth_ident new) (map sample_ident samples)
        \<and> map row_key (mr_sweeps rows') = map row_key (mr_sweeps rows) @ grid_keys (ac_ef_grid config) new
        \<and> mr_failed rows' + word_of_nat (length new) = mr_failed rows + word_of_nat (length samples)
        \<and> list_all (\<lambda>t. length (tm_gt_keys t) = unat (ac_k config)) new)"

lemma rows_grow_Nil: "rows_grow config [] rows rows"
  unfolding rows_grow_def by (rule exI [of _ "[]"]) (simp add: grid_keys_def)

lemma rows_grow_skip:
  "rows_grow config samples (rows\<lparr>mr_failed := mr_failed rows + 1\<rparr>) rows'
     \<Longrightarrow> rows_grow config (sample # samples) rows rows'"
  unfolding rows_grow_def by (elim exE conjE, rule exI, intro conjI) (auto simp: algebra_simps)

lemma rows_grow_keep:
  assumes "rows_grow config samples (rows\<lparr>mr_truth := mr_truth rows @ [t], mr_sweeps := mr_sweeps rows @ sweeps\<rparr>) rows'"
    and "truth_ident t = sample_ident sample" and "measurement_shape_ok config m" and "tm_gt_keys t = sp_gt_keys m"
    and "res_map (sweep_row (pr_record_index sample)) (sp_sweeps m) = Inr sweeps"
  shows "rows_grow config (sample # samples) rows rows'"
proof -
  obtain new where new: "mr_truth rows' = (mr_truth rows @ [t]) @ new"
      "subseq (map truth_ident new) (map sample_ident samples)"
      "map row_key (mr_sweeps rows') = map row_key (mr_sweeps rows @ sweeps) @ grid_keys (ac_ef_grid config) new"
      "mr_failed rows' + word_of_nat (length new) = mr_failed rows + word_of_nat (length samples)"
      "list_all (\<lambda>t. length (tm_gt_keys t) = unat (ac_k config)) new"
    using assms(1) by (auto simp: rows_grow_def)
  have "map row_key sweeps = map (Pair (tm_record_index t)) (ac_ef_grid config)"
    using sweep_rows_keys [OF assms(5)] shape_efs [OF assms(3)] assms(2)
    by (simp add: truth_ident_def sample_ident_def)
  moreover have "length (tm_gt_keys t) = unat (ac_k config)"
    using assms(3,4) by (simp add: measurement_shape_ok_def)
  ultimately show ?thesis using new assms(2) unfolding rows_grow_def
    by (intro exI [of _ "t # new"]) (simp add: grid_keys_def algebra_simps)
qed

lemma measure_loop_rows:
  assumes "measure_loop ms cancelled config samples rows w = (Inr (Inr rows'), w')"
  shows "rows_grow config samples rows rows'"
  using assms
proof (induction ms cancelled config samples rows w rule: measure_loop.induct)
  case (1 ms cancelled config rows w)
  then show ?case by (simp add: rows_grow_Nil)
next
  case (2 ms cancelled config sample samples rows w)
  have nc: "\<not> cancelled w" using "2.prems" by (auto split: if_splits)
  show ?case
  proof (cases "pr_receive_time_us sample")
    case (Inl e)
    then show ?thesis using "2.prems" "2.IH"(1) nc by (intro rows_grow_skip) simp
  next
    case time: (Inr time)
    show ?thesis
    proof (cases "pr_vector sample")
      case (Inl e)
      then show ?thesis using "2.prems" "2.IH" nc time by (auto intro: rows_grow_skip)
    next
      case vector: (Inr vector)
      obtain r v where m: "ms vector config w = (r, v)" by (cases "ms vector config w")
      show ?thesis
      proof (cases r)
        case (Inl e)
        then show ?thesis using "2.prems" "2.IH" nc time vector m
          by (cases e) (auto intro: rows_grow_skip)
      next
        case r: (Inr m')
        show ?thesis
        proof (cases "measurement_shape_ok config m'")
          case False
          then show ?thesis using "2.prems" "2.IH" nc time vector m r by (auto intro: rows_grow_skip)
        next
          case True
          then obtain sweeps where sw: "res_map (sweep_row (pr_record_index sample)) (sp_sweeps m') = Inr sweeps"
            using "2.prems" nc time vector m r by (auto split: sum.splits)
          let ?t = "\<lparr>tm_record_index = pr_record_index sample, tm_vector_hash = pr_vector_hash sample,
              tm_dup_count = pr_dup_count sample, tm_receive_time_us = time,
              tm_latency_ms = sp_ground_truth_latency_ms m', tm_gt_keys = sp_gt_keys m',
              tm_gt_distances = sp_gt_distances m'\<rparr>"
          have "rows_grow config samples
              (rows\<lparr>mr_truth := mr_truth rows @ [?t], mr_sweeps := mr_sweeps rows @ sweeps\<rparr>) rows'"
            using "2.prems" "2.IH" nc time vector m r sw True by simp
          then show ?thesis
            by (rule rows_grow_keep [OF _ _ True _ sw]) (simp_all add: truth_ident_def sample_ident_def)
        qed
      qed
    qed
  qed
qed

lemma measure_loop_early:
  "measure_loop ms cancelled config samples rows w \<noteq> (Inr (Inl (MP_Complete mp)), w')"
  by (induction ms cancelled config samples rows w rule: measure_loop.induct)
    (auto split: sum.splits prod.splits sample_measure_error.splits)

lemma measured_part_facts:
  assumes "measure_prepared_part ms cancelled part part_ulid config now w = (Inr (MP_Complete mp), w')"
  shows "subseq (map truth_ident (mp_truth_rows mp)) (map sample_ident (pp_samples part))
     \<and> map row_key (mp_sweep_rows mp)
         = concat (map (\<lambda>t. map (Pair (tm_record_index t)) (ac_ef_grid config)) (mp_truth_rows mp))
     \<and> list_all (\<lambda>t. length (tm_gt_keys t) = unat (ac_k config)) (mp_truth_rows mp)
     \<and> unat (im_measured_count (mp_metadata mp)) = length (mp_truth_rows mp)
     \<and> im_measured_count (mp_metadata mp) + im_failed_count (mp_metadata mp)
         = word_of_nat (length (pp_samples part))
     \<and> im_k (mp_metadata mp) = ac_k config \<and> im_ef_grid (mp_metadata mp) = ac_ef_grid config
     \<and> im_part_ulid (mp_metadata mp) = part_ulid \<and> im_record_count (mp_metadata mp) = pp_record_count part"
proof -
  obtain rows where loop: "measure_loop ms cancelled config (pp_samples part)
        \<lparr>mr_failed = 0, mr_truth = [], mr_sweeps = []\<rparr> w = (Inr (Inr rows), w')"
    and len: "length (mr_truth rows) < usize_bound"
    and mp: "mp = \<lparr>mp_metadata = measured_metadata part part_ulid config now (mr_failed rows)
                     (word_of_nat (length (mr_truth rows))),
                   mp_truth_rows = mr_truth rows, mp_sweep_rows = mr_sweeps rows\<rparr>"
    using assms
    by (auto simp: measure_prepared_part_def measure_loop_early not_le split: prod.splits sum.splits if_splits)
  have "unat (word_of_nat (length (mr_truth rows)) :: u64) = length (mr_truth rows)"
    using len by (simp add: usize_bound_def unsigned_of_nat take_bit_nat_eq_self)
  then show ?thesis using measure_loop_rows [OF loop] mp
    by (auto simp: rows_grow_def measured_metadata_def grid_keys_def add.commute)
qed

lemma prepared_ordinals_increase:
  assumes "prepare_segment bytes cohort start width = Inr part"
  shows "sorted_wrt (<) (map (fst \<circ> sample_ident) (pp_samples part))"
  using assms
proof (rule prepare_segment_Inr, goal_cases)
  case (1 seg st)
  let ?vs = "map (\<lambda>r. frame_vector (sr_frame r)) (seg_records seg)"
  have ids: "map sample_ident (pp_samples part) = map (expected_ident ?vs) (firsts ?vs)"
    using 1 by (simp add: prepare_inv_def)
  have "map (fst \<circ> sample_ident) (pp_samples part) = map int (map (\<lambda>v. first_pos v ?vs) (firsts ?vs))"
    using arg_cong [OF ids, of "map fst"] by (simp add: comp_def expected_ident_def)
  moreover have "sorted_wrt (<) (map int (map (\<lambda>v. first_pos v ?vs) (firsts ?vs)))"
    unfolding sorted_wrt_map of_nat_less_iff
    using firsts_positions [of ?vs] by (simp add: sorted_wrt_map)
  ultimately show ?case by (simp only:)
qed

section \<open>An example part\<close>

definition example_part_config :: aggregation_config where
  "example_part_config =
     \<lparr>ac_cohort = ''prod'', ac_target_name = ''p95'', ac_index = ''items_hnsw'', ac_table = ''items'',
      ac_column = ''embedding'', ac_key = ''id'', ac_k = 1, ac_value = Fin (1 / 2), ac_percentile = Fin (1 / 2),
      ac_selection_confidence = Fin (1 / 2), ac_approval_confidence = Fin (1 / 2),
      ac_window_duration_seconds = 1200, ac_storage_window_seconds = 600, ac_ef_grid = [10, 20],
      ac_train_fraction = Fin (1 / 2), ac_split_seed = 1\<rparr>"

definition example_sample :: prepared_sample where
  "example_sample = \<lparr>pr_record_index = 0, pr_dup_count = 1, pr_receive_time_us = Inr 700000000,
     pr_vector_hash = fnv1a64 [0, 0, 128, 63], pr_vector = Inr [1065353216]\<rparr>"

definition example_prepared_part :: prepared_part where
  "example_prepared_part = \<lparr>pp_cohort = ''prod'', pp_window_start = 600, pp_window_seconds = 600,
     pp_received_frame_count = 2, pp_record_count = 1, pp_samples = [example_sample]\<rparr>"

text \<open>A measurer that finds the key 7 at once, at every ef of the grid.\<close>

definition example_measurer :: "unit measurer" where
  "example_measurer vector config w =
     (Inr \<lparr>sp_gt_keys = [7], sp_gt_distances = [Fin 0], sp_ground_truth_latency_ms = Fin 1,
           sp_sweeps = map (\<lambda>ef. \<lparr>sw_ef = ef, sw_returned_keys = [7], sw_recall = Fin 1,
                                  sw_latency_ms = Fin 1\<rparr>) (ac_ef_grid config)\<rparr>, w)"

lemma example_prepared:
  "prepare_segment example_segment_bytes ''prod'' 600 600 = Inr example_prepared_part"
proof -
  have "parse_frame_header example_seg_frame = Inr \<lparr>fh_frame_len = 32, fh_dtype = 1, fh_name_len = 4,
      fh_dimension = 1, fh_vector_len = 4, fh_name = ''prod''\<rparr>"
    unfolding example_seg_frame_def
    by (subst parse_encode_frame) (simp_all add: frame_wf_def utf8_valid_str_bytes is_ascii_def)
  moreover from vector_bytes_in_range [OF this, of 0]
  have "vector_bytes_of 0 \<lparr>fh_frame_len = 32, fh_dtype = 1, fh_name_len = 4, fh_dimension = 1,
      fh_vector_len = 4, fh_name = ''prod''\<rparr> example_seg_frame = Inr [0, 0, 128, 63]"
    using calculation by (simp add: frame_vector_def) (simp add: example_seg_frame_def encode_frame_def)
  ultimately have "prepare_step ''prod'' (Map.empty, []) (0, \<lparr>sr_receive_time = 700000000, sr_frame = example_seg_frame\<rparr>)
      = Inr ([[0, 0, 128, 63] \<mapsto> 0], [example_sample])"
    by (simp add: prepare_step_def result_simps Let_def i32_from_usize_def semantic_error_def
        F32_DTYPE_def F32_BYTES_def usize_from_u32_def usize_mul_def usize_bound_def example_sample_def
        word_from_le_bytes_def)
  then show ?thesis
    by (simp add: prepare_segment_def result_simps Let_def read_example_segment example_segment_def
        example_prepared_part_def)
qed

section \<open>Properties\<close>

text \<open>
  C19. Preparing a part never indexes out of range, and it accounts for every record: the samples are
  the distinct vector payloads in the order of their first occurrences, each with the ordinal of that
  occurrence, its number of occurrences and the hash of its bytes; the counts add up to the part's
  record count and the ordinals increase.
\<close>

theorem prepared_part_accounts:
  "prepare_segment bytes cohort start width \<noteq> Inl Prep_IndexPanic
   \<and> (prepare_segment bytes cohort start width = Inr part \<longrightarrow>
      (\<exists>seg. read_segment bytes = Inr seg
        \<and> (let vectors = map (\<lambda>r. frame_vector (sr_frame r)) (seg_records seg)
           in map pr_record_index (pp_samples part) = map (\<lambda>v. int (first_pos v vectors)) (firsts vectors)
              \<and> map pr_dup_count (pp_samples part) = map (\<lambda>v. int (count_list vectors v)) (firsts vectors)
              \<and> map pr_vector_hash (pp_samples part) = map fnv1a64 (firsts vectors))
        \<and> sum_list (map pr_dup_count (pp_samples part)) = int (unat (pp_record_count part))
        \<and> sorted_wrt (<) (map pr_record_index (pp_samples part))))"
proof (intro conjI impI)
  show "prepare_segment bytes cohort start width \<noteq> Inl Prep_IndexPanic"
    using prepare_fold_no_panic by (auto simp: prepare_segment_def Let_def result_simps split: if_splits)
next
  assume "prepare_segment bytes cohort start width = Inr part"
  then show "\<exists>seg. read_segment bytes = Inr seg
        \<and> (let vectors = map (\<lambda>r. frame_vector (sr_frame r)) (seg_records seg)
           in map pr_record_index (pp_samples part) = map (\<lambda>v. int (first_pos v vectors)) (firsts vectors)
              \<and> map pr_dup_count (pp_samples part) = map (\<lambda>v. int (count_list vectors v)) (firsts vectors)
              \<and> map pr_vector_hash (pp_samples part) = map fnv1a64 (firsts vectors))
        \<and> sum_list (map pr_dup_count (pp_samples part)) = int (unat (pp_record_count part))
        \<and> sorted_wrt (<) (map pr_record_index (pp_samples part))"
  proof (rule prepare_segment_Inr, goal_cases)
    case (1 seg st)
    let ?vs = "map (\<lambda>r. frame_vector (sr_frame r)) (seg_records seg)"
    have ids: "map sample_ident (pp_samples part) = map (expected_ident ?vs) (firsts ?vs)"
      using 1 by (simp add: prepare_inv_def)
    have i: "map pr_record_index (pp_samples part) = map (\<lambda>v. int (first_pos v ?vs)) (firsts ?vs)"
      and d: "map pr_dup_count (pp_samples part) = map (\<lambda>v. int (count_list ?vs v)) (firsts ?vs)"
      and h: "map pr_vector_hash (pp_samples part) = map fnv1a64 (firsts ?vs)"
      using arg_cong [OF ids, of "map fst"] arg_cong [OF ids, of "map (fst \<circ> snd)"]
        arg_cong [OF ids, of "map (snd \<circ> snd)"]
      by (simp_all add: comp_def sample_ident_def expected_ident_def)
    have "sum_list (map pr_dup_count (pp_samples part)) = int (sum_list (map (count_list ?vs) (firsts ?vs)))"
      unfolding d by (simp add: sum_list_of_nat comp_def flip: sum_list_of_nat)
    then have "sum_list (map pr_dup_count (pp_samples part)) = int (unat (pp_record_count part))"
      using 1 by (simp add: firsts_sum del: map_map)
    moreover have "sorted_wrt (<) (map pr_record_index (pp_samples part))"
      using firsts_positions [of ?vs] unfolding i by (simp add: sorted_wrt_map)
    ultimately show ?case using 1 i d h by (auto simp: Let_def)
  qed
qed

theorem prepared_part_accounts_witness:
  "prepare_segment example_segment_bytes ''prod'' 600 600 = Inr example_prepared_part
   \<and> sum_list (map pr_dup_count (pp_samples example_prepared_part))
      = int (unat (pp_record_count example_prepared_part))"
  using prepared_part_accounts [of example_segment_bytes "''prod''" 600 600 example_prepared_part]
    example_prepared by blast

text \<open>
  C20. A measured part accounts for every prepared sample: each one is measured or counted as failed,
  the truth rows are samples of the part in their order and with k keys each, and there is one sweep
  row for every truth row and every ef of the grid, in that order; the metadata names the
  configuration it was measured under.
\<close>

theorem measured_part_complete:
  assumes "measure_prepared_part ms cancelled part part_ulid config now w = (Inr (MP_Complete mp), w')"
  shows "subseq (map truth_ident (mp_truth_rows mp)) (map sample_ident (pp_samples part))
     \<and> map row_key (mp_sweep_rows mp)
         = concat (map (\<lambda>t. map (Pair (tm_record_index t)) (ac_ef_grid config)) (mp_truth_rows mp))
     \<and> list_all (\<lambda>t. length (tm_gt_keys t) = unat (ac_k config)) (mp_truth_rows mp)
     \<and> unat (im_measured_count (mp_metadata mp)) = length (mp_truth_rows mp)
     \<and> im_measured_count (mp_metadata mp) + im_failed_count (mp_metadata mp)
         = word_of_nat (length (pp_samples part))
     \<and> im_k (mp_metadata mp) = ac_k config \<and> im_ef_grid (mp_metadata mp) = ac_ef_grid config
     \<and> im_part_ulid (mp_metadata mp) = part_ulid \<and> im_record_count (mp_metadata mp) = pp_record_count part"
  using measured_part_facts [OF assms] .

theorem measured_part_complete_witness:
  "\<exists>mp. measure_prepared_part example_measurer (\<lambda>_. False) example_prepared_part ''01A'' example_part_config 5 ()
        = (Inr (MP_Complete mp), ())
      \<and> map row_key (mp_sweep_rows mp)
          = concat (map (\<lambda>t. map (Pair (tm_record_index t)) [10, 20]) (mp_truth_rows mp))
      \<and> unat (im_measured_count (mp_metadata mp)) = 1"
proof -
  obtain mp where mp: "measure_prepared_part example_measurer (\<lambda>_. False) example_prepared_part ''01A''
        example_part_config 5 () = (Inr (MP_Complete mp), ())" "length (mp_truth_rows mp) = 1"
    by (simp add: measure_prepared_part_def example_prepared_part_def example_sample_def
        example_measurer_def example_part_config_def measurement_shape_ok_def sweep_row_def
        i32_from_usize_def result_simps usize_bound_def)
  moreover have "ac_ef_grid example_part_config = [10, 20]" by (simp add: example_part_config_def)
  ultimately show ?thesis using measured_part_complete [OF mp(1)] by metis
qed

end
