(* ===== verification/Schedule.thy ===== *)
theory Schedule
  imports Window Clock
begin

text \<open>
  The round schedule of the tuner (\<open>seam/src/daemon.rs\<close>): the timestamps of a round, the next tick
  after a round, and the single-flight loop. Instants are nanoseconds of the monotonic clock. What a
  turn of the loop observes (clocks, cancellation, the round's report) is an argument. The facts show
  that the next tick is the first one of the grid after the round, and that rounds never overlap.
\<close>

section \<open>Definitions\<close>

datatype daemon_error =
    Daemon_Start string
  | ClockBeforeUnixEpoch
  | TimestampOverflow
  | ZeroInterval
  | Daemon_Window window_error
  | SignalTask string
  | Signal string
  | Daemon_Panic

record round_timestamps =
  rts_round_end :: u64
  rts_computed_at :: string
  rts_computed_at_us :: u64

definition daemon_slice :: "nat \<Rightarrow> nat \<Rightarrow> string \<Rightarrow> daemon_error + string" where
  "daemon_slice a b s = ok_or (str_slice a b s) Daemon_Panic"

definition round_timestamps :: "u64 \<times> u32 \<Rightarrow> u32 \<Rightarrow> daemon_error + round_timestamps" where
  "round_timestamps since_epoch storage_window_seconds =
     (let unix_seconds = fst since_epoch; micros = snd since_epoch div 1000 in
     res_bind (map_err Daemon_Window (format_window_timestamp unix_seconds)) (\<lambda>compact.
     res_bind (daemon_slice 0 4 compact) (\<lambda>year.
     res_bind (daemon_slice 4 6 compact) (\<lambda>month.
     res_bind (daemon_slice 6 8 compact) (\<lambda>day.
     res_bind (daemon_slice 9 11 compact) (\<lambda>hour.
     res_bind (daemon_slice 11 13 compact) (\<lambda>minute.
     let computed_at = year @ ''-'' @ month @ ''-'' @ day @ ''T'' @ hour @ '':'' @ minute @ '':''
                         @ show_padded 2 (unat (unix_seconds mod 60)) @ ''Z'' in
     res_bind (ok_or (Option.bind (checked_mul unix_seconds 1000000)
                        (\<lambda>m. checked_add m (ucast micros))) TimestampOverflow) (\<lambda>computed_at_us.
     res_bind (map_err Daemon_Window (aligned_window_start unix_seconds storage_window_seconds))
       (\<lambda>round_end.
     Inr \<lparr>rts_round_end = round_end, rts_computed_at = computed_at,
          rts_computed_at_us = computed_at_us\<rparr>)))))))))"

definition current_round_timestamps :: "clock \<Rightarrow> u32 \<Rightarrow> daemon_error + round_timestamps" where
  "current_round_timestamps now storage_window_seconds =
     res_bind (ok_or now ClockBeforeUnixEpoch)
       (\<lambda>since_epoch. round_timestamps since_epoch storage_window_seconds)"

type_synonym instant = nat

text \<open>\<open>Instant + Duration\<close> panics past the clock's signed 64-bit seconds.\<close>

definition instant_bound :: nat where
  "instant_bound = 2 ^ 63 * 1000000000"

definition instant_add :: "instant \<Rightarrow> duration \<Rightarrow> instant option" where
  "instant_add t d = (if t + d < instant_bound then Some (t + d) else None)"

definition duration_from_nanos :: "nat \<Rightarrow> duration option" where
  "duration_from_nanos nanos =
     (let seconds = nanos div 1000000000; subsecond_nanos = nanos mod 1000000000
      in if seconds < 2 ^ 64 \<and> subsecond_nanos < 2 ^ 32
         then Some (seconds * 1000000000 + subsecond_nanos) else None)"

text \<open>\<open>None\<close> is a panic.\<close>

definition next_tick_after_round :: "instant \<Rightarrow> instant \<Rightarrow> duration \<Rightarrow> (instant \<times> nat) option" where
  "next_tick_after_round previous_tick now interval =
     Option.bind (instant_add previous_tick interval) (\<lambda>candidate.
     if now < candidate then Some (candidate, 0)
     else if interval = 0 then None
     else
     let overdue = now - candidate;
         skipped_ticks = overdue div interval + 1;
         elapsed_in_interval = overdue mod interval;
         until_next = interval - elapsed_in_interval in
     Option.bind (duration_from_nanos until_next) (\<lambda>d.
     Option.bind (instant_add now d) (\<lambda>tick. Some (tick, skipped_ticks))))"

text \<open>
  What one turn of the loop observes: whether cancellation won the wait, the instant it woke, whether
  the token was set then, the wall clock, whether the token was set or the report cancelled when the
  round had finished, and the instant it finished.
\<close>

record turn =
  tn_cancelled_waiting :: bool
  tn_woken :: instant
  tn_cancelled_woken :: bool
  tn_clock :: clock
  tn_cancelled_after :: bool
  tn_finished :: instant

record started_round =
  rn_tick :: instant
  rn_started :: instant
  rn_finished :: instant
  rn_timestamps :: round_timestamps

text \<open>
  The rounds a loop has run over its turns, and how it ended, if it has: a break is \<open>Inr ()\<close>.
\<close>

fun run_round_loop ::
  "u32 \<Rightarrow> duration \<Rightarrow> instant \<Rightarrow> turn list \<Rightarrow> started_round list \<times> (daemon_error + unit) option" where
  "run_round_loop storage_window interval scheduled_tick [] = ([], None)"
| "run_round_loop storage_window interval scheduled_tick (t # ts) =
     (if tn_cancelled_waiting t \<or> tn_cancelled_woken t then ([], Some (Inr ()))
      else
      (case current_round_timestamps (tn_clock t) storage_window of
         Inl e \<Rightarrow> ([], Some (Inl e))
       | Inr timestamps \<Rightarrow>
           let r = \<lparr>rn_tick = scheduled_tick, rn_started = tn_woken t, rn_finished = tn_finished t,
                    rn_timestamps = timestamps\<rparr> in
           if tn_cancelled_after t then ([r], Some (Inr ()))
           else
           (case next_tick_after_round scheduled_tick (tn_finished t) interval of
              None \<Rightarrow> ([r], Some (Inl Daemon_Panic))
            | Some (next_tick, skipped) \<Rightarrow>
                let (rs, end) = run_round_loop storage_window interval next_tick ts
                in (r # rs, end))))"

text \<open>
  The end of \<open>run\<close>: the signal task is aborted and joined when the loop failed before a signal came, and
  joined otherwise; there a task that cannot be joined is reported at once, before the loop's own failure.
  \<open>aborted\<close> is what joining the aborted task gave, \<open>None\<close> if it was cancelled.
\<close>

definition daemon_run ::
  "duration \<Rightarrow> string + unit \<Rightarrow> daemon_error + unit \<Rightarrow> bool \<Rightarrow> (string + string + unit) option
     \<Rightarrow> string + string + unit \<Rightarrow> daemon_error + unit" where
  "daemon_run interval start run_result signal_finished aborted joined =
     (if interval = 0 then Inl ZeroInterval
      else
      res_bind (map_err Daemon_Start start) (\<lambda>_.
      res_bind
        (if \<not> is_ok run_result \<and> \<not> signal_finished
         then Inr (case aborted of
                     None \<Rightarrow> Inr ()
                   | Some (Inl e) \<Rightarrow> Inl (SignalTask e)
                   | Some (Inr result) \<Rightarrow> map_err Signal result)
         else res_bind (map_err SignalTask joined) (\<lambda>result. Inr (map_err Signal result)))
      (\<lambda>signal_result.
      res_bind run_result (\<lambda>_. signal_result))))"

section \<open>Facts\<close>

lemma instant_add_Some [arith_simps]:
  "instant_add t d = Some u \<longleftrightarrow> t + d < instant_bound \<and> u = t + d"
  by (auto simp: instant_add_def)

lemma duration_from_nanos_total: "n < instant_bound \<Longrightarrow> duration_from_nanos n = Some n"
  using pos_mod_bound [of 1000000000 "int n"]
  by (simp add: duration_from_nanos_def instant_bound_def Let_def div_less_iff_less_mult less_le_trans)

lemma duration_from_nanos_Some: "duration_from_nanos n = Some d \<Longrightarrow> d = n"
  by (auto simp: duration_from_nanos_def Let_def split: if_splits)

text \<open>A tick after the round lies on the grid, and no earlier point of the grid does.\<close>

lemma next_tick_Some:
  assumes "next_tick_after_round previous now interval = Some (tick, skipped)"
  shows "tick = previous + (skipped + 1) * interval" and "now < tick"
    and "skipped = 0 \<or> tick \<le> now + interval" and "0 < skipped \<longrightarrow> previous + interval \<le> now"
proof -
  have all: "tick = previous + (skipped + 1) * interval \<and> now < tick
        \<and> (skipped = 0 \<or> tick \<le> now + interval) \<and> (0 < skipped \<longrightarrow> previous + interval \<le> now)"
  proof (cases "now < previous + interval")
    case True
    then show ?thesis
      using assms by (auto simp: next_tick_after_round_def bind_eq_Some_conv arith_simps)
  next
    case False
    define d where "d = now - (previous + interval)"
    have now: "now = previous + interval + d" using False by (simp add: d_def)
    have pos: "0 < interval"
      using assms False by (auto simp: next_tick_after_round_def bind_eq_Some_conv arith_simps split: if_splits)
    have eqs: "tick = now + (interval - d mod interval)" "skipped = d div interval + 1"
      using assms False pos
      by (auto simp: next_tick_after_round_def bind_eq_Some_conv arith_simps Let_def d_def
          dest!: duration_from_nanos_Some)
    have lt: "d mod interval < interval" using pos by simp
    have "d = d div interval * interval + d mod interval" by simp
    then have "tick = previous + interval + d div interval * interval + interval"
      using eqs(1) now lt by linarith
    then have "tick = previous + (skipped + 1) * interval"
      unfolding eqs(2) by (simp only: distrib_right mult_1)
    then show ?thesis
      using eqs now lt by simp
  qed
  then show "tick = previous + (skipped + 1) * interval" and "now < tick"
    and "skipped = 0 \<or> tick \<le> now + interval" and "0 < skipped \<longrightarrow> previous + interval \<le> now"
    by blast+
qed


text \<open>A round that starts has its tick on the grid and after the end of the round before it.\<close>

definition on_grid :: "duration \<Rightarrow> instant \<Rightarrow> instant \<Rightarrow> bool" where
  "on_grid interval tick t \<longleftrightarrow> tick \<le> t \<and> interval dvd (t - tick)"

lemma on_grid_next:
  assumes "on_grid interval (tick + (n + 1) * interval) t"
  shows "on_grid interval tick t"
proof -
  have "t - tick = (t - (tick + (n + 1) * interval)) + (n + 1) * interval"
    using assms unfolding on_grid_def by linarith
  then show ?thesis using assms unfolding on_grid_def by (metis add_leD1 dvd_add dvd_triv_right)
qed

lemma run_round_loop_grid:
  assumes "run_round_loop window interval tick ts = (rs, e)"
  shows "list_all (\<lambda>r. on_grid interval tick (rn_tick r)) rs
     \<and> sorted_wrt (\<lambda>a b. rn_finished a < rn_tick b) rs"
  using assms
proof (induction ts arbitrary: tick rs e)
  case (Cons t ts)
  show ?case
  proof (cases "tn_cancelled_waiting t \<or> tn_cancelled_woken t
      \<or> (\<exists>e. current_round_timestamps (tn_clock t) window = Inl e)")
    case True
    then show ?thesis using Cons.prems by (auto split: if_splits)
  next
    case False
    then obtain times where times: "current_round_timestamps (tn_clock t) window = Inr times"
      by (cases "current_round_timestamps (tn_clock t) window") auto
    let ?r = "\<lparr>rn_tick = tick, rn_started = tn_woken t, rn_finished = tn_finished t, rn_timestamps = times\<rparr>"
    have here: "on_grid interval tick tick" by (simp add: on_grid_def)
    show ?thesis
    proof (cases "tn_cancelled_after t \<or> next_tick_after_round tick (tn_finished t) interval = None")
      case True
      then have "rs = [?r]"
        using Cons.prems False times by (auto simp: Let_def split: if_splits option.splits)
      then show ?thesis using here by simp
    next
      case next_tick: False
      then obtain tick' skipped where n: "next_tick_after_round tick (tn_finished t) interval = Some (tick', skipped)"
        by auto
      obtain rs' e' where rec: "run_round_loop window interval tick' ts = (rs', e')" by fastforce
      have rs: "rs = ?r # rs'" using Cons.prems False times next_tick n rec by (auto simp: Let_def)
      note tick' = next_tick_Some [OF n]
      have grid: "list_all (\<lambda>r. on_grid interval tick' (rn_tick r)) rs'"
        and sorted: "sorted_wrt (\<lambda>a b. rn_finished a < rn_tick b) rs'"
        using Cons.IH [OF rec] by auto
      have "list_all (\<lambda>r. on_grid interval tick (rn_tick r)) rs'"
        using grid on_grid_next unfolding tick'(1) list_all_iff by blast
      moreover have "list_all (\<lambda>r. tn_finished t < rn_tick r) rs'"
        using grid tick'(2) by (auto simp: list_all_iff on_grid_def)
      ultimately show ?thesis using rs sorted here by (simp add: list_all_iff)
    qed
  qed
qed simp

section \<open>Properties\<close>

text \<open>
  C23. The next tick after a round is the first point after the round's end of the grid that the
  previous tick and the interval span, and the skipped ticks are the points of the grid in between.
\<close>

theorem next_tick_first_on_grid:
  assumes "0 < interval" and "max now (previous + interval) + interval < instant_bound"
  shows "next_tick_after_round previous now interval =
     (let tick = (LEAST t. now < t \<and> (\<exists>n > 0. t = previous + n * interval))
      in Some (tick, (tick - previous) div interval - 1))"
proof -
  have "\<exists>tick skipped. next_tick_after_round previous now interval = Some (tick, skipped)"
  proof (cases "now < previous + interval")
    case True
    then show ?thesis using assms by (simp add: next_tick_after_round_def instant_add_def)
  next
    case False
    let ?d = "interval - (now - (previous + interval)) mod interval"
    have "?d < instant_bound" "now + ?d < instant_bound" using assms(2) False by linarith+
    then show ?thesis using assms False
      by (simp add: next_tick_after_round_def instant_add_def duration_from_nanos_total Let_def)
  qed
  then obtain tick skipped where n: "next_tick_after_round previous now interval = Some (tick, skipped)"
    by blast
  note t = next_tick_Some [OF n]
  have "(LEAST t. now < t \<and> (\<exists>n > 0. t = previous + n * interval)) = tick"
  proof (rule Least_equality)
    show "now < tick \<and> (\<exists>n > 0. tick = previous + n * interval)"
      using t(1,2) by (intro conjI exI [of _ "skipped + 1"]) simp_all
  next
    fix u
    assume "now < u \<and> (\<exists>n > 0. u = previous + n * interval)"
    then obtain m where u: "now < u" "0 < m" "u = previous + m * interval" by blast
    show "tick \<le> u"
    proof (rule ccontr)
      assume "\<not> tick \<le> u"
      then have lt: "m * interval < (skipped + 1) * interval" using t(1) u(3) by simp
      then have "m < skipped + 1" by (simp only: mult_less_cancel2)
      then have "m \<le> skipped" by simp
      then have s: "0 < skipped" using u(2) by simp
      have "u + interval \<le> tick"
        using mult_le_mono1 [OF \<open>m \<le> skipped\<close>, of interval] t(1) u(3) by simp
      moreover have "tick \<le> now + interval" using t(3) s by simp
      ultimately show False using u(1) by simp
    qed
  qed
  moreover have "(tick - previous) div interval - 1 = skipped" using t(1) assms(1) by simp
  ultimately show ?thesis using n by (simp add: Let_def)
qed

theorem next_tick_first_on_grid_witness:
  "next_tick_after_round 0 25 10 = Some (30, 2)
   \<and> (LEAST t. 25 < t \<and> (\<exists>n > 0. t = 0 + n * (10 :: nat))) = 30"
proof -
  have "next_tick_after_round 0 25 10 = Some (30, 2)"
    by (simp add: next_tick_after_round_def instant_add_def instant_bound_def duration_from_nanos_def Let_def)
  moreover have "next_tick_after_round 0 25 10 =
     (let tick = (LEAST t. 25 < t \<and> (\<exists>n > 0. t = 0 + n * (10 :: nat)))
      in Some (tick, (tick - 0) div 10 - 1))"
    by (rule next_tick_first_on_grid) (simp_all add: instant_bound_def)
  ultimately show ?thesis by (simp add: Let_def)
qed

text \<open>
  C24. Rounds never overlap or queue: over any turns of the loop each round's tick lies on the grid of
  the first tick and comes after the end of every earlier round.
\<close>

theorem rounds_never_overlap:
  "let rs = fst (run_round_loop window interval first_tick ts)
   in list_all (\<lambda>r. first_tick \<le> rn_tick r \<and> interval dvd (rn_tick r - first_tick)) rs
      \<and> sorted_wrt (\<lambda>a b. rn_finished a < rn_tick b) rs"
  using run_round_loop_grid [of window interval first_tick ts]
  by (cases "run_round_loop window interval first_tick ts") (simp add: on_grid_def)

end
