(* ===== verification/TunerConfig.thy ===== *)
theory TunerConfig
  imports Aggregate RecConfig
begin

text \<open>
  The tuner's configuration (\<open>seam/src/config.rs\<close>) from the parsed YAML on: the startup validation
  in the order of the source, the resolved configuration, and its projection to one cohort
  (\<open>AggregationConfig::for_cohort\<close> in \<open>seam/src/model.rs\<close>). A validation message is a constructor with
  the values the message prints. Whether an environment variable is present is an argument. The facts
  show that the validation accepts exactly the documented rules, and that what it accepts can be
  aggregated for every cohort.
\<close>

section \<open>Definitions\<close>

definition POSTGRES_IDENTIFIER_MAX_BYTES :: nat where
  "POSTGRES_IDENTIFIER_MAX_BYTES = 63"

record calibration_config =
  cal_interval :: duration
  cal_ef_search :: "int list"
  cal_train_fraction :: f64
  cal_split_seed :: u64

record storage_config =
  sto_root :: string
  sto_window_seconds :: u32

record budget_config =
  bud_db_share :: f64
  bud_statement_timeout :: duration
  bud_client_timeout :: duration

record data_source_config =
  ds_server :: string
  ds_database :: string
  ds_user :: string
  ds_password_env :: "string option"

record index_config =
  ix_data_source :: string
  ix_table :: string
  ix_key :: string
  ix_column :: string

record target_config =
  tg_k :: u32
  tg_value :: f64
  tg_percentile :: f64
  tg_selection_confidence :: f64
  tg_approval_confidence :: f64
  tg_window :: duration

record cohort_config =
  ch_index :: string
  ch_target :: string

record tuner_config =
  tc_calibration :: calibration_config
  tc_storage :: storage_config
  tc_budget :: budget_config
  tc_data_sources :: "(string, data_source_config) omap"
  tc_indexes :: "(string, index_config) omap"
  tc_targets :: "(string, target_config) omap"
  tc_cohorts :: "(cohort_name, cohort_config) omap"

text \<open>A raw data source adds whether the document has an inline password, which is discarded.\<close>

record raw_data_source_config = data_source_config +
  rds_password :: bool

record raw_config =
  raw_calibration :: calibration_config
  raw_storage :: storage_config
  raw_budget :: budget_config
  raw_data_sources :: "(string, raw_data_source_config) omap"
  raw_indexes :: "(string, index_config) omap"
  raw_targets :: "(string, target_config) omap"
  raw_cohorts :: "(string, cohort_config) omap"

datatype config_rule =
    Interval_zero
  | Grid_empty
  | Grid_not_increasing
  | Grid_out_of_range
  | Train_fraction_range
  | Train_fraction_empty_split
  | Window_seconds_zero
  | Window_seconds_not_minutes
  | Db_share_range
  | Statement_timeout_zero
  | Client_timeout_zero
  | Inline_password string
  | Inline_userinfo string string
  | Password_env_absent string string
  | Duplicate_data_source string string string string
  | Unknown_data_source string string
  | Identifier_empty string string
  | Identifier_too_long string string
  | Identifier_nul string string
  | Target_k_zero string
  | Target_value_range string
  | Target_percentile_range string
  | Target_selection_range string
  | Target_approval_range string
  | Target_window_too_short string
  | Target_window_not_multiple string
  | Grid_below_k int string u32
  | Cohort_invalid string cohort_name_error
  | Unknown_index string string
  | Unknown_target string string

datatype config_error = Config_Yaml string | Config_Validation config_rule

definition invalid :: "config_rule \<Rightarrow> config_error + 'a" where
  "invalid rule = Inl (Config_Validation rule)"

text \<open>The defaults of absent fields.\<close>

definition default_budget :: budget_config where
  "default_budget = \<lparr>bud_db_share = fl (1 / 10), bud_statement_timeout = from_secs 5,
     bud_client_timeout = from_secs 10\<rparr>"

definition default_train_fraction :: f64 where
  "default_train_fraction = fl (6 / 10)"

definition default_split_seed :: u64 where
  "default_split_seed = 7"

definition default_selection_confidence :: f64 where
  "default_selection_confidence = fl (98 / 100)"

definition default_approval_confidence :: f64 where
  "default_approval_confidence = fl (90 / 100)"

definition default_window_seconds :: u32 where
  "default_window_seconds = 600"

definition in_open_unit :: "f64 \<Rightarrow> bool" where
  "in_open_unit x \<longleftrightarrow> f64_lt (Fin 0) x \<and> f64_lt x (Fin 1)"

definition in_half_open_unit :: "f64 \<Rightarrow> bool" where
  "in_half_open_unit x \<longleftrightarrow> f64_lt (Fin 0) x \<and> f64_le x (Fin 1)"

definition validate_calibration :: "calibration_config \<Rightarrow> config_error + unit" where
  "validate_calibration config =
     (if cal_interval config = 0 then invalid Interval_zero
      else if cal_ef_search config = [] then invalid Grid_empty
      else if list_ex (\<lambda>(a, b). b \<le> a) (zip (cal_ef_search config) (tl (cal_ef_search config)))
      then invalid Grid_not_increasing
      else if list_ex (\<lambda>ef. \<not> (MIN_EF_SEARCH \<le> ef \<and> ef \<le> MAX_EF_SEARCH)) (cal_ef_search config)
      then invalid Grid_out_of_range
      else if \<not> in_open_unit (cal_train_fraction config) then invalid Train_fraction_range
      else
      let split_threshold = f64_round (f64_mul (cal_train_fraction config) (Fin 10000))
      in if \<not> (f64_le (Fin 1) split_threshold \<and> f64_le split_threshold (Fin 9999))
         then invalid Train_fraction_empty_split
         else Inr ())"

definition validate_storage :: "storage_config \<Rightarrow> config_error + unit" where
  "validate_storage config =
     (if sto_window_seconds config = 0 then invalid Window_seconds_zero
      else if sto_window_seconds config mod 60 \<noteq> 0 then invalid Window_seconds_not_minutes
      else Inr ())"

definition validate_budget :: "budget_config \<Rightarrow> config_error + unit" where
  "validate_budget config =
     (if \<not> in_half_open_unit (bud_db_share config) then invalid Db_share_range
      else if bud_statement_timeout config = 0 then invalid Statement_timeout_zero
      else if bud_client_timeout config = 0 then invalid Client_timeout_zero
      else Inr ())"

definition split_once :: "char \<Rightarrow> string \<Rightarrow> (string \<times> string) option" where
  "split_once d s =
     (if d \<in> set s then Some (takeWhile (\<lambda>c. c \<noteq> d) s, tl (dropWhile (\<lambda>c. c \<noteq> d) s)) else None)"

definition contains_inline_userinfo :: "string \<Rightarrow> bool" where
  "contains_inline_userinfo s =
     (case split_once (CHR ''@'') s of
        Some (userinfo, rest) \<Rightarrow> CHR '':'' \<in> set userinfo
      | None \<Rightarrow> False)"

definition data_source_step ::
  "(string \<Rightarrow> bool) \<Rightarrow> (string \<times> string, string) omap \<Rightarrow> string \<times> raw_data_source_config
     \<Rightarrow> config_error + (string \<times> string, string) omap" where
  "data_source_step password_env_exists pairs = (\<lambda>(name, data_source).
     if rds_password data_source then invalid (Inline_password name)
     else
     res_bind (try_fold (\<lambda>_ (field, text).
         if contains_inline_userinfo text then invalid (Inline_userinfo name field) else Inr ()) ()
       [(''server'', ds_server data_source), (''database'', ds_database data_source),
        (''user'', ds_user data_source)]) (\<lambda>_.
     res_bind (case ds_password_env data_source of
                 Some password_env \<Rightarrow>
                   if \<not> password_env_exists password_env
                   then invalid (Password_env_absent name password_env) else Inr ()
               | None \<Rightarrow> Inr ()) (\<lambda>_.
     let pair = (ds_server data_source, ds_database data_source)
     in case omap_get pairs pair of
          Some existing \<Rightarrow>
            invalid (Duplicate_data_source existing name (ds_server data_source) (ds_database data_source))
        | None \<Rightarrow> Inr (omap_insert pair name pairs))))"

definition validate_data_sources ::
  "(string, raw_data_source_config) omap \<Rightarrow> (string \<Rightarrow> bool) \<Rightarrow> config_error + unit" where
  "validate_data_sources data_sources password_env_exists =
     res_bind (try_fold (data_source_step password_env_exists) [] data_sources) (\<lambda>_. Inr ())"

definition validate_postgres_identifier :: "string \<Rightarrow> string \<Rightarrow> string \<Rightarrow> config_error + unit" where
  "validate_postgres_identifier index_name field identifier =
     (if identifier = [] then invalid (Identifier_empty index_name field)
      else if POSTGRES_IDENTIFIER_MAX_BYTES < length identifier
      then invalid (Identifier_too_long index_name field)
      else if CHR 0x00 \<in> set identifier then invalid (Identifier_nul index_name field)
      else Inr ())"

definition index_step ::
  "(string, raw_data_source_config) omap \<Rightarrow> unit \<Rightarrow> string \<times> index_config \<Rightarrow> config_error + unit" where
  "index_step data_sources _ = (\<lambda>(name, index).
     if omap_get data_sources (ix_data_source index) = None
     then invalid (Unknown_data_source name (ix_data_source index))
     else try_fold (\<lambda>_ (field, identifier). validate_postgres_identifier name field identifier) ()
            [(''table'', ix_table index), (''column'', ix_column index), (''key'', ix_key index)])"

definition validate_indexes ::
  "(string, index_config) omap \<Rightarrow> (string, raw_data_source_config) omap \<Rightarrow> config_error + unit" where
  "validate_indexes indexes data_sources = try_fold (index_step data_sources) () indexes"

text \<open>A target, with the storage width that \<open>validate_storage\<close> has checked not to be zero.\<close>

definition target_step :: "u32 \<Rightarrow> unit \<Rightarrow> string \<times> target_config \<Rightarrow> config_error + unit" where
  "target_step storage_window_seconds _ = (\<lambda>(name, target).
     let window_secs = tg_window target div 1000000000; subsec_nanos = tg_window target mod 1000000000
     in if tg_k target = 0 then invalid (Target_k_zero name)
        else if \<not> in_half_open_unit (tg_value target) then invalid (Target_value_range name)
        else if \<not> in_open_unit (tg_percentile target) then invalid (Target_percentile_range name)
        else if \<not> in_open_unit (tg_selection_confidence target) then invalid (Target_selection_range name)
        else if \<not> in_open_unit (tg_approval_confidence target) then invalid (Target_approval_range name)
        else if window_secs < unat storage_window_seconds then invalid (Target_window_too_short name)
        else if subsec_nanos \<noteq> 0 \<or> window_secs mod unat storage_window_seconds \<noteq> 0
        then invalid (Target_window_not_multiple name)
        else Inr ())"

definition validate_targets :: "(string, target_config) omap \<Rightarrow> u32 \<Rightarrow> config_error + unit" where
  "validate_targets targets storage_window_seconds =
     try_fold (target_step storage_window_seconds) () targets"

definition validate_grid_against_targets ::
  "int list \<Rightarrow> (string, target_config) omap \<Rightarrow> config_error + unit" where
  "validate_grid_against_targets ef_search targets =
     (case ef_search of
        [] \<Rightarrow> invalid Grid_empty
      | minimum # _ \<Rightarrow>
          try_fold (\<lambda>_ (name, target).
            if minimum < int (unat (tg_k target))
            then invalid (Grid_below_k minimum name (tg_k target)) else Inr ()) () targets)"

definition resolve_cohort ::
  "raw_config \<Rightarrow> string \<times> cohort_config \<Rightarrow> config_error + cohort_name \<times> cohort_config" where
  "resolve_cohort raw = (\<lambda>(name, cohort).
     res_bind (map_err (\<lambda>e. Config_Validation (Cohort_invalid name e)) (cohort_new name))
       (\<lambda>validated_name.
     if omap_get (raw_indexes raw) (ch_index cohort) = None
     then invalid (Unknown_index name (ch_index cohort))
     else if omap_get (raw_targets raw) (ch_target cohort) = None
     then invalid (Unknown_target name (ch_target cohort))
     else Inr (validated_name, cohort)))"

definition data_source_of :: "raw_data_source_config \<Rightarrow> data_source_config" where
  "data_source_of r = \<lparr>ds_server = ds_server r, ds_database = ds_database r, ds_user = ds_user r,
     ds_password_env = ds_password_env r\<rparr>"

definition from_raw :: "raw_config \<Rightarrow> (string \<Rightarrow> bool) \<Rightarrow> config_error + tuner_config" where
  "from_raw raw password_env_exists =
     res_bind (validate_calibration (raw_calibration raw)) (\<lambda>_.
     res_bind (validate_storage (raw_storage raw)) (\<lambda>_.
     res_bind (validate_budget (raw_budget raw)) (\<lambda>_.
     res_bind (validate_data_sources (raw_data_sources raw) password_env_exists) (\<lambda>_.
     res_bind (validate_indexes (raw_indexes raw) (raw_data_sources raw)) (\<lambda>_.
     res_bind (validate_targets (raw_targets raw) (sto_window_seconds (raw_storage raw))) (\<lambda>_.
     res_bind (validate_grid_against_targets (cal_ef_search (raw_calibration raw)) (raw_targets raw)) (\<lambda>_.
     res_bind (res_map (resolve_cohort raw) (raw_cohorts raw)) (\<lambda>cohorts.
     Inr \<lparr>tc_calibration = raw_calibration raw, tc_storage = raw_storage raw,
          tc_budget = raw_budget raw,
          tc_data_sources = map (\<lambda>(name, r). (name, data_source_of r)) (raw_data_sources raw),
          tc_indexes = raw_indexes raw, tc_targets = raw_targets raw,
          tc_cohorts = omap_of_list cohorts\<rparr>))))))))"

definition parse_with_password_env ::
  "(string \<Rightarrow> string + raw_config) \<Rightarrow> string \<Rightarrow> (string \<Rightarrow> bool) \<Rightarrow> config_error + tuner_config" where
  "parse_with_password_env from_str yaml password_env_exists =
     res_bind (map_err Config_Yaml (from_str yaml)) (\<lambda>raw. from_raw raw password_env_exists)"

definition for_cohort :: "tuner_config \<Rightarrow> cohort_name \<Rightarrow> aggregation_config option" where
  "for_cohort config cohort =
     Option.bind (omap_get (tc_cohorts config) cohort) (\<lambda>cohort_config.
     Option.bind (omap_get (tc_indexes config) (ch_index cohort_config)) (\<lambda>index.
     Option.bind (omap_get (tc_targets config) (ch_target cohort_config)) (\<lambda>target.
     Some \<lparr>ac_cohort = as_str cohort, ac_target_name = ch_target cohort_config,
           ac_index = ch_index cohort_config, ac_table = ix_table index, ac_column = ix_column index,
           ac_key = ix_key index, ac_k = tg_k target, ac_value = tg_value target,
           ac_percentile = tg_percentile target,
           ac_selection_confidence = tg_selection_confidence target,
           ac_approval_confidence = tg_approval_confidence target,
           ac_window_duration_seconds = word_of_nat (tg_window target div 1000000000),
           ac_storage_window_seconds = sto_window_seconds (tc_storage config),
           ac_ef_grid = cal_ef_search (tc_calibration config),
           ac_train_fraction = cal_train_fraction (tc_calibration config),
           ac_split_seed = cal_split_seed (tc_calibration config)\<rparr>)))"

section \<open>Facts\<close>

lemma is_ok_bind: "is_ok (res_bind r f) \<longleftrightarrow> (\<exists>x. r = Inr x \<and> is_ok (f x))"
  by (cases r) simp_all

lemma invalid_not_ok [simp]:
  "\<not> is_ok (invalid rule)" "invalid rule \<noteq> Inr x" "res_bind (invalid rule) f = invalid rule"
  by (simp_all add: invalid_def)

lemma Inr_unit_ok: "(r :: 'e + unit) = Inr x \<longleftrightarrow> is_ok r"
  by (cases r) simp_all

lemma try_fold_unit: "is_ok (try_fold f (u :: unit) xs) \<longleftrightarrow> list_all (\<lambda>x. is_ok (f () x)) xs"
  by (induction xs) (simp_all add: is_ok_bind Inr_unit_ok)

lemma is_ok_if: "is_ok (if b then invalid rule else r) \<longleftrightarrow> \<not> b \<and> is_ok r"
  by simp

lemma is_ok_res_map: "is_ok (res_map f xs) \<longleftrightarrow> list_all (\<lambda>x. is_ok (f x)) xs"
proof (induction xs)
  case (Cons x xs)
  then show ?case by (cases "f x"; cases "res_map f xs") (auto simp: is_ok_bind)
qed simp

lemma strictly_increasing_iff:
  "list_ex (\<lambda>(a, b). b \<le> a) (zip xs (tl xs)) \<longleftrightarrow> \<not> sorted_wrt (<) (xs :: int list)"
proof (induction xs)
  case (Cons x xs)
  then show ?case
    by (cases xs) (simp_all add: sorted_wrt2 sorted_wrt1 not_less transp_on_less del: sorted_wrt.simps(2))
qed simp

lemma contains_inline_userinfo_iff:
  "contains_inline_userinfo s \<longleftrightarrow>
     (\<exists>u r. s = u @ CHR ''@'' # r \<and> CHR ''@'' \<notin> set u \<and> CHR '':'' \<in> set u)"
proof
  assume c: "contains_inline_userinfo s"
  then have "CHR ''@'' \<in> set s" "CHR '':'' \<in> set (takeWhile (\<lambda>c. c \<noteq> CHR ''@'') s)"
    by (auto simp: contains_inline_userinfo_def split_once_def split: if_splits)
  moreover from this(1) obtain u r where "s = u @ CHR ''@'' # r" "CHR ''@'' \<notin> set u"
    by (metis split_list_first)
  moreover from this have "takeWhile (\<lambda>c. c \<noteq> CHR ''@'') s = u"
    by (auto simp: takeWhile_append takeWhile_eq_all_conv)
  ultimately show "\<exists>u r. s = u @ CHR ''@'' # r \<and> CHR ''@'' \<notin> set u \<and> CHR '':'' \<in> set u"
    by auto
next
  assume "\<exists>u r. s = u @ CHR ''@'' # r \<and> CHR ''@'' \<notin> set u \<and> CHR '':'' \<in> set u"
  then obtain u r where s: "s = u @ CHR ''@'' # r" "CHR ''@'' \<notin> set u" "CHR '':'' \<in> set u" by blast
  then have "takeWhile (\<lambda>c. c \<noteq> CHR ''@'') s = u" by (auto simp: takeWhile_append takeWhile_eq_all_conv)
  then show "contains_inline_userinfo s" using s
    by (simp add: contains_inline_userinfo_def split_once_def)
qed

subsection \<open>Data sources\<close>

definition pair_of :: "string \<times> raw_data_source_config \<Rightarrow> string \<times> string" where
  "pair_of x = (ds_server (snd x), ds_database (snd x))"

definition data_source_ok :: "(string \<Rightarrow> bool) \<Rightarrow> raw_data_source_config \<Rightarrow> bool" where
  "data_source_ok env d \<longleftrightarrow> \<not> rds_password d
     \<and> list_all (\<lambda>s. \<not> contains_inline_userinfo s) [ds_server d, ds_database d, ds_user d]
     \<and> (case ds_password_env d of Some e \<Rightarrow> env e | None \<Rightarrow> True)"

lemma data_source_step_Inr:
  "data_source_step env pairs x = Inr pairs' \<longleftrightarrow>
     data_source_ok env (snd x) \<and> omap_get pairs (pair_of x) = None
     \<and> pairs' = omap_insert (pair_of x) (fst x) pairs"
proof -
  obtain name d where x: "x = (name, d)" by (cases x)
  have u: "res_bind (r :: config_error + unit) (\<lambda>_. q) = Inr pairs' \<longleftrightarrow> is_ok r \<and> q = Inr pairs'" for r q
    by (cases r) simp_all
  have e: "is_ok (case ds_password_env d of
                 Some password_env \<Rightarrow>
                   if \<not> env password_env
                   then invalid (Password_env_absent name password_env) else Inr ()
               | None \<Rightarrow> Inr ()) \<longleftrightarrow> (case ds_password_env d of Some e \<Rightarrow> env e | None \<Rightarrow> True)"
    by (cases "ds_password_env d") simp_all
  show ?thesis
    by (cases "omap_get pairs (ds_server d, ds_database d)")
      (auto simp: x data_source_step_def u e try_fold_unit pair_of_def data_source_ok_def Let_def)
qed

lemma data_sources_fold:
  assumes "omap_inv pairs"
  shows "is_ok (try_fold (data_source_step env) pairs xs) \<longleftrightarrow>
     list_all (\<lambda>x. data_source_ok env (snd x)) xs \<and> distinct (map pair_of xs)
     \<and> list_all (\<lambda>x. omap_get pairs (pair_of x) = None) xs"
  using assms
proof (induction xs arbitrary: pairs)
  case (Cons x xs)
  let ?p = "omap_insert (pair_of x) (fst x) pairs"
  have inv: "omap_inv ?p" by (rule omap_insert_inv [OF Cons.prems])
  have "is_ok (try_fold (data_source_step env) pairs (x # xs)) \<longleftrightarrow>
      data_source_ok env (snd x) \<and> omap_get pairs (pair_of x) = None
      \<and> is_ok (try_fold (data_source_step env) ?p xs)"
    by (auto simp: is_ok_bind data_source_step_Inr)
  also have "is_ok (try_fold (data_source_step env) ?p xs) \<longleftrightarrow>
     list_all (\<lambda>x. data_source_ok env (snd x)) xs \<and> distinct (map pair_of xs)
     \<and> pair_of x \<notin> set (map pair_of xs) \<and> list_all (\<lambda>y. omap_get pairs (pair_of y) = None) xs"
    unfolding Cons.IH [OF inv] by (auto simp: omap_simps Cons.prems list_all_iff image_iff)
  finally show ?case by (simp del: try_fold.simps) blast
qed simp

subsection \<open>The rules\<close>

definition identifier_ok :: "string \<Rightarrow> bool" where
  "identifier_ok s \<longleftrightarrow> 0 < length s \<and> length s \<le> 63 \<and> CHR 0x00 \<notin> set s"

definition grid_rules :: "calibration_config \<Rightarrow> bool" where
  "grid_rules c \<longleftrightarrow> 0 < cal_interval c \<and> cal_ef_search c \<noteq> []
     \<and> sorted_wrt (<) (cal_ef_search c) \<and> list_all (\<lambda>ef. 1 \<le> ef \<and> ef \<le> 1000) (cal_ef_search c)
     \<and> in_open_unit (cal_train_fraction c) \<and> is_ok (split_threshold (cal_train_fraction c))"

definition target_rules :: "u32 \<Rightarrow> int \<Rightarrow> target_config \<Rightarrow> bool" where
  "target_rules width smallest_ef t \<longleftrightarrow>
     1 \<le> tg_k t \<and> int (unat (tg_k t)) \<le> smallest_ef \<and> in_half_open_unit (tg_value t)
     \<and> list_all in_open_unit [tg_percentile t, tg_selection_confidence t, tg_approval_confidence t]
     \<and> (\<exists>n > 0. tg_window t = n * unat width * 1000000000)"

definition config_rules :: "raw_config \<Rightarrow> (string \<Rightarrow> bool) \<Rightarrow> bool" where
  "config_rules raw env \<longleftrightarrow>
     grid_rules (raw_calibration raw)
     \<and> (let width = sto_window_seconds (raw_storage raw) in
        width \<noteq> 0 \<and> 60 dvd unat width
        \<and> list_all (\<lambda>(_, t). target_rules width (hd (cal_ef_search (raw_calibration raw))) t)
            (raw_targets raw))
     \<and> in_half_open_unit (bud_db_share (raw_budget raw))
     \<and> 0 < bud_statement_timeout (raw_budget raw) \<and> 0 < bud_client_timeout (raw_budget raw)
     \<and> list_all (\<lambda>(_, d). data_source_ok env d) (raw_data_sources raw)
     \<and> distinct (map pair_of (raw_data_sources raw))
     \<and> list_all (\<lambda>(_, ix). omap_get (raw_data_sources raw) (ix_data_source ix) \<noteq> None
           \<and> list_all identifier_ok [ix_table ix, ix_column ix, ix_key ix]) (raw_indexes raw)
     \<and> list_all (\<lambda>(name, c). is_valid_cohort_name name
           \<and> omap_get (raw_indexes raw) (ch_index c) \<noteq> None
           \<and> omap_get (raw_targets raw) (ch_target c) \<noteq> None) (raw_cohorts raw)"

lemma f64_buckets: "f64_of_nat (unat SPLIT_BUCKETS) = Fin 10000"
  using f64_of_nat_exact [of 10000] by (simp add: SPLIT_BUCKETS_def)

lemma in_open_unit_finite: "in_open_unit x \<Longrightarrow> f64_is_finite x"
  by (cases x) (auto simp: in_open_unit_def less_f64_def less_eq_f64_def)

lemma validate_calibration_ok: "is_ok (validate_calibration c) \<longleftrightarrow> grid_rules c"
proof (cases "in_open_unit (cal_train_fraction c)")
  case True
  have "list_ex (\<lambda>ef. \<not> (MIN_EF_SEARCH \<le> ef \<and> ef \<le> MAX_EF_SEARCH)) (cal_ef_search c)
      \<longleftrightarrow> \<not> list_all (\<lambda>ef. 1 \<le> ef \<and> ef \<le> 1000) (cal_ef_search c)"
    by (auto simp: list_ex_iff list_all_iff MIN_EF_SEARCH_def MAX_EF_SEARCH_def)
  then show ?thesis using True in_open_unit_finite [OF True]
    by (simp add: validate_calibration_def grid_rules_def split_threshold_def f64_buckets Let_def
        strictly_increasing_iff)
next
  case False
  then show ?thesis by (simp add: validate_calibration_def grid_rules_def)
qed

lemma width_dvd: "(w :: u32) mod 60 = 0 \<longleftrightarrow> 60 dvd unat w"
  by (simp add: word_unat_eq_iff unat_mod_distrib dvd_eq_mod_eq_0)

lemma target_step_ok:
  assumes "width \<noteq> 0"
  shows "is_ok (target_step width u (name, t)) \<and> int (unat (tg_k t)) \<le> smallest \<longleftrightarrow> target_rules width smallest t"
proof -
  have pos: "0 < unat width" using assms by (simp add: unat_gt_0)
  let ?W = "tg_window t"
  have "(\<exists>n > 0. ?W = n * unat width * 1000000000) \<longleftrightarrow>
      unat width \<le> ?W div 1000000000 \<and> ?W mod 1000000000 = 0 \<and> ?W div 1000000000 mod unat width = 0"
    (is "?L \<longleftrightarrow> ?R")
  proof
    assume ?L
    then show ?R by (auto simp: Suc_le_eq)
  next
    assume r: ?R
    then obtain n where n: "?W div 1000000000 = unat width * n" by (metis dvd_def mod_0_imp_dvd)
    then have "?W = n * unat width * 1000000000" using r by (metis mult.commute mult_div_mod_eq add_0_right)
    moreover have "0 < n" using r n pos by (cases n) auto
    ultimately show ?L by blast
  qed
  moreover have "1 \<le> tg_k t \<longleftrightarrow> tg_k t \<noteq> 0" by (simp add: word_le_nat_alt unat_gt_0 Suc_le_eq)
  ultimately show ?thesis
    by (auto simp: target_step_def target_rules_def Let_def not_less)
qed

lemma grid_step_ok:
  "is_ok (validate_grid_against_targets (g # gs) targets) \<longleftrightarrow>
     list_all (\<lambda>(_, t). int (unat (tg_k t)) \<le> g) targets"
  by (auto simp: validate_grid_against_targets_def try_fold_unit list_all_iff not_less split: if_splits)

lemma targets_ok:
  assumes "width \<noteq> 0" and "grid \<noteq> []"
  shows "is_ok (validate_targets targets width) \<and> is_ok (validate_grid_against_targets grid targets)
     \<longleftrightarrow> list_all (\<lambda>(_, t). target_rules width (hd grid) t) targets"
proof -
  obtain g gs where g: "grid = g # gs" using assms(2) by (cases grid) auto
  show ?thesis
    unfolding g grid_step_ok validate_targets_def try_fold_unit list_all_iff
    using target_step_ok [OF assms(1)] by fastforce
qed

lemma identifier_step_ok:
  "is_ok (validate_postgres_identifier name field s) \<longleftrightarrow> identifier_ok s"
  by (auto simp: validate_postgres_identifier_def identifier_ok_def POSTGRES_IDENTIFIER_MAX_BYTES_def)

lemma indexes_ok:
  "is_ok (validate_indexes indexes sources) \<longleftrightarrow>
     list_all (\<lambda>(_, ix). omap_get sources (ix_data_source ix) \<noteq> None
           \<and> list_all identifier_ok [ix_table ix, ix_column ix, ix_key ix]) indexes"
  by (auto simp: validate_indexes_def try_fold_unit index_step_def list_all_iff is_ok_bind
      Inr_unit_ok identifier_step_ok split: if_splits)

lemma resolve_cohort_Inr:
  "resolve_cohort raw (name, c) = Inr x \<longleftrightarrow>
     is_valid_cohort_name name \<and> omap_get (raw_indexes raw) (ch_index c) \<noteq> None
     \<and> omap_get (raw_targets raw) (ch_target c) \<noteq> None \<and> x = (CohortName name, c)"
  by (auto simp: resolve_cohort_def result_simps cohort_new_def is_valid_cohort_name_def is_ok_iff
      split: if_splits)

lemma cohorts_ok:
  "is_ok (res_map (resolve_cohort raw) cohorts) \<longleftrightarrow>
     list_all (\<lambda>(name, c). is_valid_cohort_name name
           \<and> omap_get (raw_indexes raw) (ch_index c) \<noteq> None
           \<and> omap_get (raw_targets raw) (ch_target c) \<noteq> None) cohorts"
proof -
  have "is_ok (resolve_cohort raw x) \<longleftrightarrow>
      (case x of (name, c) \<Rightarrow> is_valid_cohort_name name
           \<and> omap_get (raw_indexes raw) (ch_index c) \<noteq> None
           \<and> omap_get (raw_targets raw) (ch_target c) \<noteq> None)" for x
    by (cases x) (auto simp: is_ok_iff resolve_cohort_Inr)
  then show ?thesis by (simp add: is_ok_res_map)
qed

lemma is_ok_from_raw:
  "is_ok (from_raw raw env) \<longleftrightarrow>
     is_ok (validate_calibration (raw_calibration raw)) \<and> is_ok (validate_storage (raw_storage raw))
     \<and> is_ok (validate_budget (raw_budget raw))
     \<and> is_ok (validate_data_sources (raw_data_sources raw) env)
     \<and> is_ok (validate_indexes (raw_indexes raw) (raw_data_sources raw))
     \<and> is_ok (validate_targets (raw_targets raw) (sto_window_seconds (raw_storage raw)))
     \<and> is_ok (validate_grid_against_targets (cal_ef_search (raw_calibration raw)) (raw_targets raw))
     \<and> is_ok (res_map (resolve_cohort raw) (raw_cohorts raw))"
  unfolding from_raw_def by (simp add: is_ok_bind Inr_unit_ok) (auto simp: is_ok_iff)

lemma from_raw_rules: "is_ok (from_raw raw env) \<longleftrightarrow> config_rules raw env"
proof -
  let ?w = "sto_window_seconds (raw_storage raw)" and ?g = "cal_ef_search (raw_calibration raw)"
  have d: "is_ok (validate_data_sources (raw_data_sources raw) env) \<longleftrightarrow>
      list_all (\<lambda>(_, d). data_source_ok env d) (raw_data_sources raw)
      \<and> distinct (map pair_of (raw_data_sources raw))"
    using data_sources_fold [of "[]" env "raw_data_sources raw"]
    by (simp add: validate_data_sources_def is_ok_bind omap_inv_def omap_get_def list_all_iff split_def)
      (auto simp: is_ok_iff)
  have s: "is_ok (validate_storage (raw_storage raw)) \<longleftrightarrow> ?w \<noteq> 0 \<and> 60 dvd unat ?w"
    by (simp add: validate_storage_def width_dvd)
  have b: "is_ok (validate_budget (raw_budget raw)) \<longleftrightarrow> in_half_open_unit (bud_db_share (raw_budget raw))
      \<and> 0 < bud_statement_timeout (raw_budget raw) \<and> 0 < bud_client_timeout (raw_budget raw)"
    by (auto simp: validate_budget_def)
  have g: "grid_rules (raw_calibration raw) \<Longrightarrow> ?g \<noteq> []" by (simp add: grid_rules_def)
  show ?thesis
    unfolding is_ok_from_raw config_rules_def validate_calibration_ok d s b indexes_ok cohorts_ok Let_def
    using targets_ok [of ?w ?g "raw_targets raw"] g by blast
qed

lemma from_raw_Inr:
  assumes "from_raw raw env = Inr config"
  shows "tc_calibration config = raw_calibration raw" and "tc_storage config = raw_storage raw"
    and "tc_indexes config = raw_indexes raw" and "tc_targets config = raw_targets raw"
    and "tc_data_sources config = map (\<lambda>(name, r). (name, data_source_of r)) (raw_data_sources raw)"
    and "\<exists>cohorts. res_map (resolve_cohort raw) (raw_cohorts raw) = Inr cohorts
          \<and> tc_cohorts config = omap_of_list cohorts"
  using assms by (auto simp: from_raw_def result_simps)

lemma rules_ef_grid_ok:
  assumes "sorted_wrt (<) g" and "g \<noteq> []" and "list_all (\<lambda>ef. 1 \<le> ef \<and> ef \<le> 1000) g"
    and "int (unat k) \<le> hd g"
  shows "ef_grid_ok g k"
proof -
  have "hd g \<le> 1000" using assms(2,3) by (cases g) auto
  then have "unat k \<le> 1000" using assms(4) by linarith
  moreover have "\<not> list_ex (\<lambda>ef. MAX_EF_SEARCH < ef) g"
    using assms(3) by (auto simp: list_ex_iff list_all_iff MAX_EF_SEARCH_def)
  ultimately show ?thesis using assms by (simp add: ef_grid_ok_def strictly_increasing_iff)
qed

text \<open>What validation accepts names a configured index, target and data source for every cohort.\<close>

lemma from_raw_cohort:
  assumes "from_raw raw env = Inr config" and "omap_get (tc_cohorts config) cohort = Some c"
  obtains name ix t where "is_valid_cohort_name name" and "cohort = CohortName name"
    and "omap_get (tc_indexes config) (ch_index c) = Some ix" and "omap_get (tc_targets config) (ch_target c) = Some t"
    and "omap_get (tc_data_sources config) (ix_data_source ix) \<noteq> None"
proof -
  note eqs = from_raw_Inr [OF assms(1)]
  have rules: "config_rules raw env" using assms(1) from_raw_rules [of raw env] by simp
  obtain cohorts where r: "res_map (resolve_cohort raw) (raw_cohorts raw) = Inr cohorts"
    and tc: "tc_cohorts config = omap_of_list cohorts"
    using eqs(6) by blast
  have "(cohort, c) \<in> set cohorts" using omap_of_list_mem [of cohorts] assms(2) tc
    by (auto simp: omap_get_def dest: map_of_SomeD)
  then have "Inr (cohort, c) \<in> set (map (resolve_cohort raw) (raw_cohorts raw))"
    using r by (simp add: res_map_Inr_iff image_iff)
  then obtain x where "resolve_cohort raw x = Inr (cohort, c)" by (auto simp: eq_commute)
  then obtain name where v: "is_valid_cohort_name name" "cohort = CohortName name"
    and "omap_get (raw_indexes raw) (ch_index c) \<noteq> None"
    and "omap_get (raw_targets raw) (ch_target c) \<noteq> None"
    by (cases x) (auto simp: resolve_cohort_Inr)
  then obtain ix t where ix: "omap_get (raw_indexes raw) (ch_index c) = Some ix"
    and t: "omap_get (raw_targets raw) (ch_target c) = Some t" by auto
  have "(ch_index c, ix) \<in> set (raw_indexes raw)" using ix by (auto simp: omap_get_def dest: map_of_SomeD)
  then have "omap_get (raw_data_sources raw) (ix_data_source ix) \<noteq> None"
    using rules by (auto simp: config_rules_def list_all_iff)
  then have "omap_get (tc_data_sources config) (ix_data_source ix) \<noteq> None"
    unfolding eqs(5) omap_get_def by (simp add: map_of_eq_None_iff image_image split_def)
  then show thesis using v ix t by (intro that) (simp_all add: eqs)
qed

section \<open>An example\<close>

definition example_raw_config :: raw_config where
  "example_raw_config =
     \<lparr>raw_calibration = \<lparr>cal_interval = from_secs 600, cal_ef_search = [20, 40], cal_train_fraction = Fin (1 / 2),
                         cal_split_seed = default_split_seed\<rparr>,
      raw_storage = \<lparr>sto_root = ''/var/vectorseam'', sto_window_seconds = default_window_seconds\<rparr>,
      raw_budget = \<lparr>bud_db_share = Fin (1 / 4), bud_statement_timeout = from_secs 5,
                    bud_client_timeout = from_secs 10\<rparr>,
      raw_data_sources = [(''primary'', \<lparr>ds_server = ''localhost:5432'', ds_database = ''postgres'',
                            ds_user = ''postgres'', ds_password_env = None, rds_password = False\<rparr>)],
      raw_indexes = [(''fixture'', \<lparr>ix_data_source = ''primary'', ix_table = ''docs'', ix_key = ''id'',
                       ix_column = ''embedding''\<rparr>)],
      raw_targets = [(''recall'', \<lparr>tg_k = 20, tg_value = Fin (1 / 2), tg_percentile = Fin (1 / 2),
                       tg_selection_confidence = Fin (3 / 4), tg_approval_confidence = Fin (1 / 2),
                       tg_window = from_secs 3600\<rparr>)],
      raw_cohorts = [(''shop'', \<lparr>ch_index = ''fixture'', ch_target = ''recall''\<rparr>)]\<rparr>"

lemma example_cohort_valid: "is_valid_cohort_name ''shop''"
  by (simp add: is_valid_cohort_name_iff is_ascii_def cohort_segment_def is_allowed_segment_byte_def)

lemma example_from_raw:
  "\<exists>config. from_raw example_raw_config (\<lambda>_. False) = Inr config
     \<and> omap_get (tc_cohorts config) (CohortName ''shop'') = Some \<lparr>ch_index = ''fixture'', ch_target = ''recall''\<rparr>"
proof -
  have "cohort_new ''shop'' = Inr (CohortName ''shop'')"
    by (simp add: cohort_new_Inr example_cohort_valid)
  moreover have "fl 5000 = Fin 5000" using fl_dyadic [of 5000 0] by simp
  ultimately show ?thesis
    by (simp add: from_raw_def example_raw_config_def validate_calibration_def validate_storage_def
        validate_budget_def validate_data_sources_def data_source_step_def validate_indexes_def
        index_step_def validate_targets_def target_step_def validate_grid_against_targets_def
        resolve_cohort_def in_open_unit_def in_half_open_unit_def contains_inline_userinfo_def
        split_once_def validate_postgres_identifier_def POSTGRES_IDENTIFIER_MAX_BYTES_def
        default_window_seconds_def from_secs_def MIN_EF_SEARCH_def MAX_EF_SEARCH_def omap_get_def
        omap_of_list_def round_half_away_def result_simps Let_def)
qed

section \<open>Properties\<close>

text \<open>
  C22. The startup validation accepts a configuration exactly when it obeys the documented rules:
  positive intervals and timeouts, a strictly increasing grid within 1 to 1000 and at least every k,
  fractions and confidences in their intervals, windows that are multiples of the storage window,
  which is a multiple of a minute, no inline credentials, unique data sources, quotable identifiers,
  valid cohort names and no dangling reference.
\<close>

theorem config_accepts_rules: "is_ok (from_raw raw env) \<longleftrightarrow> config_rules raw env"
  by (rule from_raw_rules)


text \<open>
  C21. What validation accepts can be aggregated: every configured cohort has a projection, the
  aggregation accepts its configuration, its name is valid, and its index's data source is configured.
\<close>

theorem validated_config_aggregates:
  assumes "from_raw raw env = Inr config" and "omap_get (tc_cohorts config) cohort = Some c"
    and "list_all (\<lambda>(_, t). tg_window t < 2 ^ 64 * 1000000000) (raw_targets raw)"
  shows "\<exists>ac ix. for_cohort config cohort = Some ac
     \<and> validate_aggregation_config ac = Inr ()
     \<and> ac_cohort ac = as_str cohort \<and> is_valid_cohort_name (ac_cohort ac)
     \<and> omap_get (tc_indexes config) (ac_index ac) = Some ix
     \<and> omap_get (tc_data_sources config) (ix_data_source ix) \<noteq> None"
proof -
  note eqs = from_raw_Inr [OF assms(1)]
  have rules: "config_rules raw env" using assms(1) from_raw_rules [of raw env] by simp
  obtain name ix t where v: "is_valid_cohort_name name" "cohort = CohortName name"
    and ix: "omap_get (raw_indexes raw) (ch_index c) = Some ix"
    and t: "omap_get (raw_targets raw) (ch_target c) = Some t"
    and ds: "omap_get (tc_data_sources config) (ix_data_source ix) \<noteq> None"
    by (rule from_raw_cohort [OF assms(1,2)]) (simp add: eqs)
  define w where "w = sto_window_seconds (raw_storage raw)"
  define g where "g = cal_ef_search (raw_calibration raw)"
  have mem: "(ch_target c, t) \<in> set (raw_targets raw)"
    using t by (auto simp: omap_get_def dest: map_of_SomeD)
  have tr: "target_rules w (hd g) t" and ww: "w \<noteq> 0" "60 dvd unat w" and gr: "grid_rules (raw_calibration raw)"
    using rules mem by (auto simp: config_rules_def list_all_iff w_def g_def Let_def)
  obtain n where n: "0 < n" "tg_window t = n * unat w * 1000000000" using tr by (auto simp: target_rules_def)
  define q where "q = n * unat w"
  have secs: "tg_window t div 1000000000 = q" using n(2) by (simp add: q_def)
  have "q < 2 ^ 64" using assms(3) mem n(2) by (auto simp: list_all_iff q_def)
  then have uw: "unat (word_of_nat q :: u64) = q"
    by (simp add: unsigned_of_nat take_bit_nat_eq_self)
  let ?W = "word_of_nat q :: u64"
  have "\<not> ?W < ucast w" using n(1) uw by (simp add: word_less_nat_alt not_less q_def)
  moreover have "?W mod ucast w = 0" using uw by (simp add: word_unat_eq_iff unat_mod_distrib) (simp add: q_def)
  moreover have "w mod 60 = 0" using ww(2) by (simp add: width_dvd)
  moreover have "ef_grid_ok g (tg_k t)"
    using gr tr by (auto simp: grid_rules_def target_rules_def g_def intro!: rules_ef_grid_ok)
  moreover have "is_ok (split_threshold (cal_train_fraction (raw_calibration raw)))"
    using gr by (simp add: grid_rules_def)
  moreover have "tg_k t \<noteq> 0" using tr by (auto simp: target_rules_def)
  moreover note tr ww
  ultimately have "\<exists>ac. for_cohort config cohort = Some ac \<and> validate_aggregation_config ac = Inr ()
      \<and> ac_cohort ac = as_str cohort \<and> ac_index ac = ch_index c"
    using assms(2) ix t secs
    by (auto simp: for_cohort_def eqs(1-4) validate_aggregation_config_def target_rules_def in_open_unit_def
        in_half_open_unit_def is_ok_iff a_math_def g_def w_def)
  then show ?thesis using ix v ds by (auto simp: eqs(3))
qed

theorem validated_config_aggregates_witness:
  "\<exists>config ac. from_raw example_raw_config (\<lambda>_. False) = Inr config
     \<and> for_cohort config (CohortName ''shop'') = Some ac \<and> validate_aggregation_config ac = Inr ()"
proof -
  obtain config where c: "from_raw example_raw_config (\<lambda>_. False) = Inr config"
    "omap_get (tc_cohorts config) (CohortName ''shop'') = Some \<lparr>ch_index = ''fixture'', ch_target = ''recall''\<rparr>"
    using example_from_raw by blast
  have "list_all (\<lambda>(_, t). tg_window t < 2 ^ 64 * 1000000000) (raw_targets example_raw_config)"
    by (simp add: example_raw_config_def from_secs_def)
  from validated_config_aggregates [OF c this] show ?thesis using c(1) by blast
qed

end
