(* ===== verification/Intermediate.thy ===== *)
theory Intermediate
  imports Measure
begin

text \<open>
  The durable intermediate of one measured part (\<open>seam/src/intermediate.rs\<close>): a truth and a sweep
  Parquet file with the part's metadata as key-value pairs, encoded from a measured part, and read
  and joined back. The Parquet library is an argument: it writes a record batch with a schema and
  key-values into bytes, and reads key-values, or the schema and batches, from bytes. Record batches
  are columnar. An access out of range is the error \<open>I_Panic\<close>. The facts show that what phase A
  measured reads back as the measured rows, joined by their record index.
\<close>

section \<open>Definitions\<close>

datatype arrow_type =
    T_Int32
  | T_UInt64
  | T_Int64
  | T_Float64
  | T_List string arrow_type bool

text \<open>A field has a name, a type and whether it is nullable.\<close>

type_synonym arrow_field = "string \<times> arrow_type \<times> bool"

datatype arrow_column =
    Int32Array "int list"
  | UInt64Array "u64 list"
  | Int64Array "int list"
  | Float64Array "f64 list"
  | ListInt64Array "int list list"
  | ListFloat64Array "f64 list list"

record record_batch =
  rb_columns :: "arrow_column list"
  rb_num_rows :: nat

type_synonym key_value = "string \<times> string option"

record parquet =
  pq_write :: "arrow_field list \<Rightarrow> record_batch \<Rightarrow> key_value list \<Rightarrow> string + u8 list"
  pq_key_values :: "u8 list \<Rightarrow> string + key_value list"
  pq_open :: "u8 list \<Rightarrow> string + arrow_field list \<times> (string + record_batch) list"

datatype pair_kind = Truth | Sweep

datatype intermediate_error =
    I_Io string
  | I_Parquet string
  | I_Arrow string
  | I_Schema pair_kind
  | I_MissingMetadata string
  | I_DuplicateMetadata string
  | I_InvalidMetadata string string
  | I_MetadataMismatch
  | I_DuplicateTruthRecord int
  | I_MeasuredCountMismatch u64 usize
  | I_OrphanSweepRecord int
  | I_DuplicateSweep int int
  | I_Panic

definition truth_schema :: "arrow_field list" where
  "truth_schema =
     [(''record_index'', T_Int32, False), (''vector_hash'', T_UInt64, False),
      (''dup_count'', T_Int32, False), (''receive_time_us'', T_Int64, False),
      (''latency_ms'', T_Float64, False), (''gt_keys'', T_List ''item'' T_Int64 True, False),
      (''gt_distances'', T_List ''item'' T_Float64 True, False)]"

definition sweep_schema :: "arrow_field list" where
  "sweep_schema =
     [(''record_index'', T_Int32, False), (''ef'', T_Int32, False),
      (''returned_keys'', T_List ''item'' T_Int64 True, False), (''recall'', T_Float64, False),
      (''latency_ms'', T_Float64, False), (''result_count'', T_Int32, False)]"

fun column_type :: "arrow_column \<Rightarrow> arrow_type" where
  "column_type (Int32Array _) = T_Int32"
| "column_type (UInt64Array _) = T_UInt64"
| "column_type (Int64Array _) = T_Int64"
| "column_type (Float64Array _) = T_Float64"
| "column_type (ListInt64Array _) = T_List ''item'' T_Int64 True"
| "column_type (ListFloat64Array _) = T_List ''item'' T_Float64 True"

fun column_length :: "arrow_column \<Rightarrow> nat" where
  "column_length (Int32Array xs) = length xs"
| "column_length (UInt64Array xs) = length xs"
| "column_length (Int64Array xs) = length xs"
| "column_length (Float64Array xs) = length xs"
| "column_length (ListInt64Array xs) = length xs"
| "column_length (ListFloat64Array xs) = length xs"

text \<open>\<open>RecordBatch::try_new\<close>: the columns have the schema's types and one length.\<close>

definition record_batch_new :: "arrow_field list \<Rightarrow> arrow_column list \<Rightarrow> intermediate_error + record_batch" where
  "record_batch_new schema columns =
     (if columns = [] then Inl (I_Arrow ''must either specify a row count or at least one column'')
      else if map column_type columns \<noteq> map (fst \<circ> snd) schema
      then Inl (I_Arrow ''column types must match schema types'')
      else if list_ex (\<lambda>c. column_length c \<noteq> column_length (hd columns)) columns
      then Inl (I_Arrow ''all columns in a record batch must have the same length'')
      else Inr \<lparr>rb_columns = columns, rb_num_rows = column_length (hd columns)\<rparr>)"

definition truth_record_batch :: "truth_measurement list \<Rightarrow> intermediate_error + record_batch" where
  "truth_record_batch rows =
     record_batch_new truth_schema
       [Int32Array (map tm_record_index rows), UInt64Array (map tm_vector_hash rows),
        Int32Array (map tm_dup_count rows), Int64Array (map tm_receive_time_us rows),
        Float64Array (map tm_latency_ms rows), ListInt64Array (map tm_gt_keys rows),
        ListFloat64Array (map tm_gt_distances rows)]"

definition sweep_record_batch :: "sweep_measurement_row list \<Rightarrow> intermediate_error + record_batch" where
  "sweep_record_batch rows =
     record_batch_new sweep_schema
       [Int32Array (map swr_record_index rows), Int32Array (map swr_ef rows),
        ListInt64Array (map swr_returned_keys rows), Float64Array (map swr_recall rows),
        Float64Array (map swr_latency_ms rows), Int32Array (map swr_result_count rows)]"

text \<open>\<open>str::parse::<i32>\<close>.\<close>

definition parse_i32 :: "string \<Rightarrow> int option" where
  "parse_i32 s =
     (if s \<noteq> [] \<and> hd s = CHR ''-''
      then (if tl s = [] then None
            else (case read_digits 0 (tl s) of
                    Some v \<Rightarrow> if v \<le> 2 ^ 31 then Some (- int v) else None
                  | None \<Rightarrow> None))
      else map_option int (parse_unsigned (2 ^ 31) s))"

definition metadata_key_values :: "intermediate_metadata \<Rightarrow> key_value list" where
  "metadata_key_values m =
     map (\<lambda>(k, v). (k, Some v))
       [(''format_version'', show_nat (unat (im_format_version m))), (''cohort'', im_cohort m),
        (''part_ulid'', im_part_ulid m), (''window_start'', show_nat (unat (im_window_start m))),
        (''window_seconds'', show_nat (unat (im_window_seconds m))),
        (''received_frame_count'', show_nat (unat (im_received_frame_count m))),
        (''record_count'', show_nat (unat (im_record_count m))), (''index'', im_index m),
        (''table'', im_table m), (''column'', im_column m), (''key'', im_key m),
        (''k'', show_nat (unat (im_k m))),
        (''ef_grid'', join_with '','' (map show_int (im_ef_grid m))),
        (''failed_count'', show_nat (unat (im_failed_count m))),
        (''measured_count'', show_nat (unat (im_measured_count m))),
        (''computed_at_us'', show_nat (unat (im_computed_at_us m)))]"

definition encode_parquet ::
  "parquet \<Rightarrow> arrow_field list \<Rightarrow> record_batch \<Rightarrow> key_value list \<Rightarrow> intermediate_error + u8 list" where
  "encode_parquet pq schema batch metadata = map_err I_Parquet (pq_write pq schema batch metadata)"

definition encode_intermediate_pair ::
  "parquet \<Rightarrow> intermediate_metadata \<Rightarrow> truth_measurement list \<Rightarrow> sweep_measurement_row list
     \<Rightarrow> intermediate_error + u8 list \<times> u8 list" where
  "encode_intermediate_pair pq metadata truth_rows sweep_rows =
     res_bind (truth_record_batch truth_rows) (\<lambda>truth_batch.
     res_bind (encode_parquet pq truth_schema truth_batch (metadata_key_values metadata)) (\<lambda>truth.
     res_bind (sweep_record_batch sweep_rows) (\<lambda>sweep_batch.
     res_bind (encode_parquet pq sweep_schema sweep_batch (metadata_key_values metadata)) (\<lambda>sweep.
     Inr (truth, sweep)))))"

definition metadata_entry ::
  "(string, string) omap \<Rightarrow> key_value \<Rightarrow> intermediate_error + (string, string) omap" where
  "metadata_entry entries = (\<lambda>(k, v).
     case v of
       None \<Rightarrow> Inr entries
     | Some x \<Rightarrow>
         if omap_get entries k \<noteq> None then Inl (I_DuplicateMetadata k)
         else Inr (omap_insert k x entries))"

definition metadata_value :: "(string, string) omap \<Rightarrow> string \<Rightarrow> intermediate_error + string" where
  "metadata_value entries key = ok_or (omap_get entries key) (I_MissingMetadata key)"

definition parse_metadata :: "(string, string) omap \<Rightarrow> string \<Rightarrow> intermediate_error + 'a::len word" where
  "parse_metadata entries key =
     res_bind (metadata_value entries key) (\<lambda>text.
     map_err id (ok_or (map_option word_of_nat (parse_unsigned (2 ^ LENGTH('a)) text))
       (I_InvalidMetadata key text)))"

definition parse_ef_grid :: "string \<Rightarrow> intermediate_error + int list" where
  "parse_ef_grid text =
     (if text = [] then Inr []
      else res_map (\<lambda>item. ok_or (parse_i32 item) (I_InvalidMetadata ''ef_grid'' text))
             (split_on (CHR '','') text))"

definition read_metadata :: "parquet \<Rightarrow> u8 list \<Rightarrow> intermediate_error + intermediate_metadata" where
  "read_metadata pq bytes =
     res_bind (map_err I_Parquet (pq_key_values pq bytes)) (\<lambda>kvs.
     res_bind (try_fold metadata_entry [] kvs) (\<lambda>entries.
     res_bind (parse_metadata entries ''format_version'') (\<lambda>format_version.
     res_bind (metadata_value entries ''cohort'') (\<lambda>cohort.
     res_bind (metadata_value entries ''part_ulid'') (\<lambda>part_ulid.
     res_bind (parse_metadata entries ''window_start'') (\<lambda>window_start.
     res_bind (parse_metadata entries ''window_seconds'') (\<lambda>window_seconds.
     res_bind (parse_metadata entries ''received_frame_count'') (\<lambda>received_frame_count.
     res_bind (parse_metadata entries ''record_count'') (\<lambda>record_count.
     res_bind (metadata_value entries ''index'') (\<lambda>index.
     res_bind (metadata_value entries ''table'') (\<lambda>table.
     res_bind (metadata_value entries ''column'') (\<lambda>column.
     res_bind (metadata_value entries ''key'') (\<lambda>key.
     res_bind (parse_metadata entries ''k'') (\<lambda>k.
     res_bind (res_bind (metadata_value entries ''ef_grid'') parse_ef_grid) (\<lambda>ef_grid.
     res_bind (parse_metadata entries ''failed_count'') (\<lambda>failed_count.
     res_bind (parse_metadata entries ''measured_count'') (\<lambda>measured_count.
     res_bind (parse_metadata entries ''computed_at_us'') (\<lambda>computed_at_us.
     Inr \<lparr>im_format_version = format_version, im_cohort = cohort, im_part_ulid = part_ulid,
          im_window_start = window_start, im_window_seconds = window_seconds,
          im_received_frame_count = received_frame_count, im_record_count = record_count,
          im_index = index, im_table = table, im_column = column, im_key = key, im_k = k,
          im_ef_grid = ef_grid, im_failed_count = failed_count, im_measured_count = measured_count,
          im_computed_at_us = computed_at_us\<rparr>))))))))))))))))))"

definition batch_column :: "record_batch \<Rightarrow> nat \<Rightarrow> intermediate_error + arrow_column" where
  "batch_column batch i = (if i < length (rb_columns batch) then Inr (rb_columns batch ! i) else Inl I_Panic)"

definition int32_column :: "record_batch \<Rightarrow> nat \<Rightarrow> pair_kind \<Rightarrow> intermediate_error + int list" where
  "int32_column batch i kind =
     res_bind (batch_column batch i) (\<lambda>c. case c of Int32Array xs \<Rightarrow> Inr xs | _ \<Rightarrow> Inl (I_Schema kind))"

definition uint64_column :: "record_batch \<Rightarrow> nat \<Rightarrow> pair_kind \<Rightarrow> intermediate_error + u64 list" where
  "uint64_column batch i kind =
     res_bind (batch_column batch i) (\<lambda>c. case c of UInt64Array xs \<Rightarrow> Inr xs | _ \<Rightarrow> Inl (I_Schema kind))"

definition float64_column :: "record_batch \<Rightarrow> nat \<Rightarrow> pair_kind \<Rightarrow> intermediate_error + f64 list" where
  "float64_column batch i kind =
     res_bind (batch_column batch i) (\<lambda>c. case c of Float64Array xs \<Rightarrow> Inr xs | _ \<Rightarrow> Inl (I_Schema kind))"

definition row_value :: "'a list \<Rightarrow> nat \<Rightarrow> intermediate_error + 'a" where
  "row_value xs row = (if row < length xs then Inr (xs ! row) else Inl I_Panic)"

type_synonym sample_map = "(int, measured_sample) omap"

definition truth_row ::
  "int list \<Rightarrow> u64 list \<Rightarrow> int list \<Rightarrow> f64 list \<Rightarrow> sample_map \<Rightarrow> nat \<Rightarrow> intermediate_error + sample_map" where
  "truth_row record_indexes vector_hashes dup_counts latencies samples row =
     res_bind (row_value record_indexes row) (\<lambda>record_index.
     res_bind (row_value vector_hashes row) (\<lambda>vector_hash.
     res_bind (row_value dup_counts row) (\<lambda>dup_count.
     res_bind (row_value latencies row) (\<lambda>latency.
     if omap_get samples record_index \<noteq> None then Inl (I_DuplicateTruthRecord record_index)
     else Inr (omap_insert record_index
            \<lparr>ms_record_index = record_index, ms_vector_hash = vector_hash, ms_dup_count = dup_count,
             ms_ground_truth_latency_ms = latency, ms_sweeps = []\<rparr> samples)))))"

definition truth_batch :: "sample_map \<Rightarrow> string + record_batch \<Rightarrow> intermediate_error + sample_map" where
  "truth_batch samples item =
     res_bind (map_err I_Arrow item) (\<lambda>batch.
     res_bind (int32_column batch 0 Truth) (\<lambda>record_indexes.
     res_bind (uint64_column batch 1 Truth) (\<lambda>vector_hashes.
     res_bind (int32_column batch 2 Truth) (\<lambda>dup_counts.
     res_bind (float64_column batch 4 Truth) (\<lambda>latencies.
     try_fold (truth_row record_indexes vector_hashes dup_counts latencies) samples
       [0..<rb_num_rows batch])))))"

definition read_truth_rows :: "parquet \<Rightarrow> u8 list \<Rightarrow> intermediate_error + sample_map" where
  "read_truth_rows pq bytes =
     res_bind (map_err I_Parquet (pq_open pq bytes)) (\<lambda>(schema, batches).
     if schema \<noteq> truth_schema then Inl (I_Schema Truth)
     else try_fold truth_batch [] batches)"

definition sweep_row_step ::
  "int list \<Rightarrow> int list \<Rightarrow> f64 list \<Rightarrow> f64 list \<Rightarrow> sample_map \<Rightarrow> nat \<Rightarrow> intermediate_error + sample_map" where
  "sweep_row_step record_indexes ef_values recalls latencies samples row =
     res_bind (row_value record_indexes row) (\<lambda>record_index.
     res_bind (row_value ef_values row) (\<lambda>ef.
     res_bind (ok_or (omap_get samples record_index) (I_OrphanSweepRecord record_index)) (\<lambda>sample.
     res_bind (row_value recalls row) (\<lambda>recall.
     res_bind (row_value latencies row) (\<lambda>latency.
     if omap_get (ms_sweeps sample) ef \<noteq> None then Inl (I_DuplicateSweep record_index ef)
     else Inr (omap_insert record_index
            (sample\<lparr>ms_sweeps := omap_insert ef \<lparr>sm_recall = recall, sm_latency_ms = latency\<rparr>
               (ms_sweeps sample)\<rparr>) samples))))))"

definition sweep_batch :: "sample_map \<Rightarrow> string + record_batch \<Rightarrow> intermediate_error + sample_map" where
  "sweep_batch samples item =
     res_bind (map_err I_Arrow item) (\<lambda>batch.
     res_bind (int32_column batch 0 Sweep) (\<lambda>record_indexes.
     res_bind (int32_column batch 1 Sweep) (\<lambda>ef_values.
     res_bind (float64_column batch 3 Sweep) (\<lambda>recalls.
     res_bind (float64_column batch 4 Sweep) (\<lambda>latencies.
     try_fold (sweep_row_step record_indexes ef_values recalls latencies) samples
       [0..<rb_num_rows batch])))))"

definition read_sweep_rows :: "parquet \<Rightarrow> u8 list \<Rightarrow> sample_map \<Rightarrow> intermediate_error + sample_map" where
  "read_sweep_rows pq bytes samples =
     res_bind (map_err I_Parquet (pq_open pq bytes)) (\<lambda>(schema, batches).
     if schema \<noteq> sweep_schema then Inl (I_Schema Sweep)
     else try_fold sweep_batch samples batches)"

definition read_intermediate_pair_bytes ::
  "parquet \<Rightarrow> u8 list \<Rightarrow> u8 list \<Rightarrow> intermediate_error + intermediate_part" where
  "read_intermediate_pair_bytes pq truth sweep =
     res_bind (read_metadata pq truth) (\<lambda>truth_metadata.
     res_bind (read_metadata pq sweep) (\<lambda>sweep_metadata.
     if truth_metadata \<noteq> sweep_metadata then Inl I_MetadataMismatch
     else
     res_bind (read_truth_rows pq truth) (\<lambda>samples.
     if unat (im_measured_count truth_metadata) \<noteq> length samples
     then Inl (I_MeasuredCountMismatch (im_measured_count truth_metadata) (length samples))
     else
     res_bind (read_sweep_rows pq sweep samples) (\<lambda>samples.
     Inr \<lparr>ip_metadata = truth_metadata, ip_samples = omap_values samples\<rparr>))))"

section \<open>The library's law\<close>

text \<open>
  What the code relies on of the Parquet library: a written file has the written key-values, with
  further keys of the library's own beside them, and reads back with the same schema as the written
  rows, cut into batches.
\<close>

fun slice_column :: "nat \<Rightarrow> nat \<Rightarrow> arrow_column \<Rightarrow> arrow_column" where
  "slice_column off n (Int32Array xs) = Int32Array (take n (drop off xs))"
| "slice_column off n (UInt64Array xs) = UInt64Array (take n (drop off xs))"
| "slice_column off n (Int64Array xs) = Int64Array (take n (drop off xs))"
| "slice_column off n (Float64Array xs) = Float64Array (take n (drop off xs))"
| "slice_column off n (ListInt64Array xs) = ListInt64Array (take n (drop off xs))"
| "slice_column off n (ListFloat64Array xs) = ListFloat64Array (take n (drop off xs))"

definition slice_batch :: "nat \<Rightarrow> nat \<Rightarrow> record_batch \<Rightarrow> record_batch" where
  "slice_batch off n b = \<lparr>rb_columns = map (slice_column off n) (rb_columns b), rb_num_rows = n\<rparr>"

fun slices :: "nat \<Rightarrow> nat list \<Rightarrow> record_batch \<Rightarrow> record_batch list" where
  "slices off [] b = []"
| "slices off (n # ns) b = slice_batch off n b # slices (off + n) ns b"

definition parquet_law :: "parquet \<Rightarrow> bool" where
  "parquet_law pq \<longleftrightarrow>
     (\<forall>schema batch kvs bytes. pq_write pq schema batch kvs = Inr bytes \<longrightarrow>
        (\<exists>extra. pq_key_values pq bytes = Inr (kvs @ extra) \<and> distinct (map fst extra)
           \<and> set (map fst extra) \<inter> set (map fst kvs) = {})
        \<and> (\<exists>ns. sum_list ns = rb_num_rows batch
           \<and> pq_open pq bytes = Inr (schema, map Inr (slices 0 ns batch))))"

section \<open>Facts\<close>

subsection \<open>Metadata\<close>

lemma parse_show_int: "- (2 ^ 31) \<le> i \<Longrightarrow> i < 2 ^ 31 \<Longrightarrow> parse_i32 (show_int i) = Some i"
proof (cases "i < 0")
  case True
  assume "- (2 ^ 31) \<le> i" "i < 2 ^ 31"
  then show ?thesis using True read_digits_dec [of "nat (- i)"] show_nat_not_Nil [of "nat (- i)"]
    by (simp add: show_int_def parse_i32_def show_nat_def [symmetric])
next
  case False
  assume b: "- (2 ^ 31) \<le> i" "i < 2 ^ 31"
  obtain c cs where eq: "show_nat (nat i) = c # cs" by (cases "show_nat (nat i)") auto
  then have "of_char c \<in> {48..<58 :: nat}" using show_nat_chars [of c "nat i"] by simp
  then have "c \<noteq> CHR ''-''" by auto
  moreover have "nat i < 2 ^ 31" using b False by (simp add: nat_less_iff)
  ultimately show ?thesis using False eq parse_show_nat [of "nat i" "2 ^ 31"]
    by (simp add: show_int_def parse_i32_def)
qed

lemma show_int_no_comma: "CHR '','' \<notin> set (show_int i)"
  using show_nat_chars [of "CHR '',''" "nat i"] show_nat_chars [of "CHR '',''" "nat (- i)"]
  by (auto simp: show_int_def)

lemma show_int_not_Nil: "show_int i \<noteq> []"
  by (simp add: show_int_def)

definition i32_list :: "int list \<Rightarrow> bool" where
  "i32_list xs \<longleftrightarrow> list_all (\<lambda>i. - (2 ^ 31) \<le> i \<and> i < 2 ^ 31) xs"

lemma parse_ef_grid_join:
  assumes "i32_list grid"
  shows "parse_ef_grid (join_with '','' (map show_int grid)) = Inr grid"
proof (cases "grid = []")
  case True
  then show ?thesis by (simp add: parse_ef_grid_def)
next
  case False
  let ?text = "join_with '','' (map show_int grid)"
  have split: "split_on (CHR '','') ?text = map show_int grid"
    using False by (intro split_on_join_with) (auto simp: show_int_no_comma)
  have "?text \<noteq> []" using False show_int_not_Nil by (cases grid; cases "tl grid") auto
  moreover have "res_map (\<lambda>item. ok_or (parse_i32 item) (I_InvalidMetadata ''ef_grid'' ?text))
      (map show_int grid) = Inr grid"
    using assms by (simp add: res_map_Inr_iff i32_list_def list_all_iff parse_show_int)
  ultimately show ?thesis by (simp add: parse_ef_grid_def split)
qed

lemma metadata_entries:
  assumes "omap_inv es" and "distinct (map fst kvs)" and "\<forall>k \<in> fst ` set kvs. omap_get es k = None"
  shows "\<exists>es'. try_fold metadata_entry es kvs = Inr es' \<and> omap_inv es'
     \<and> (\<forall>k. omap_get es' k = (case map_of kvs k of Some v \<Rightarrow> v | None \<Rightarrow> omap_get es k))"
  using assms
proof (induction kvs arbitrary: es)
  case (Cons x kvs)
  obtain k v where x: "x = (k, v)" by (cases x)
  show ?case
  proof (cases v)
    case None
    then have "try_fold metadata_entry es (x # kvs) = try_fold metadata_entry es kvs"
      by (simp add: x metadata_entry_def)
    moreover have "\<exists>es'. try_fold metadata_entry es kvs = Inr es' \<and> omap_inv es'
        \<and> (\<forall>k. omap_get es' k = (case map_of kvs k of Some v \<Rightarrow> v | None \<Rightarrow> omap_get es k))"
      using Cons.prems by (intro Cons.IH) auto
    moreover have "map_of kvs k = None" "omap_get es k = None"
      using Cons.prems x by (auto simp: map_of_eq_None_iff)
    ultimately show ?thesis using x None by (metis fun_upd_apply map_of.simps(2) option.simps(4,5) fst_conv snd_conv)
  next
    case (Some body)
    let ?e = "omap_insert k body es"
    have inv: "omap_inv ?e" by (rule omap_insert_inv [OF Cons.prems(1)])
    have get: "omap_get ?e j = (if j = k then Some body else omap_get es j)" for j
      using Cons.prems(1) by (simp add: omap_simps)
    have "try_fold metadata_entry es (x # kvs) = try_fold metadata_entry ?e kvs"
      using Cons.prems x Some by (simp add: metadata_entry_def)
    moreover have "\<exists>es'. try_fold metadata_entry ?e kvs = Inr es' \<and> omap_inv es'
        \<and> (\<forall>k. omap_get es' k = (case map_of kvs k of Some v \<Rightarrow> v | None \<Rightarrow> omap_get ?e k))"
      using Cons.prems x by (intro Cons.IH inv) (auto simp: get)
    moreover have "map_of kvs k = None" using Cons.prems x by (auto simp: map_of_eq_None_iff)
    ultimately show ?thesis using x Some get by (auto simp: option.case_eq_if)
  qed
qed simp

lemma parse_metadata_word:
  "omap_get es key = Some (show_nat (unat (w :: 'a::len word))) \<Longrightarrow> parse_metadata es key = Inr w"
  using parse_show_nat [OF unat_bound [of w]]
  by (simp add: parse_metadata_def metadata_value_def)

lemma read_metadata_written:
  assumes kvs: "pq_key_values pq bytes = Inr (metadata_key_values m @ extra)"
    and extra: "distinct (map fst extra)" "set (map fst extra) \<inter> set (map fst (metadata_key_values m)) = {}"
    and grid: "i32_list (im_ef_grid m)"
  shows "read_metadata pq bytes = Inr m"
proof -
  let ?kvs = "metadata_key_values m @ extra"
  have "distinct (map fst (metadata_key_values m))" by (simp add: metadata_key_values_def)
  then have "distinct (map fst ?kvs)" using extra by auto
  then obtain es where es: "try_fold metadata_entry [] ?kvs = Inr es"
      and "\<forall>k. omap_get es k = (case map_of ?kvs k of Some v \<Rightarrow> v | None \<Rightarrow> omap_get [] k)"
    using metadata_entries [of "[]" ?kvs] by (auto simp: omap_inv_def omap_get_def)
  moreover have "omap_get [] k = (None :: string option)" for k :: string by (simp add: omap_get_def)
  ultimately have get: "omap_get es k = (case map_of ?kvs k of Some v \<Rightarrow> v | None \<Rightarrow> None)" for k
    by (cases "map_of ?kvs k") (simp_all del: map_of_append)
  have "omap_get es k = v" if "(k, v) \<in> set (metadata_key_values m)" for k v
  proof -
    have "map_of ?kvs k = Some v"
      using that \<open>distinct (map fst ?kvs)\<close> by (intro map_of_is_SomeI) auto
    then show ?thesis by (simp add: get)
  qed
  then have lookup: "list_all (\<lambda>(k, v). omap_get es k = v) (metadata_key_values m)"
    by (auto simp: list_all_iff)
  show ?thesis
    using lookup unfolding metadata_key_values_def
    by (simp add: read_metadata_def kvs es parse_metadata_word metadata_value_def
        parse_ef_grid_join [OF grid] metadata_key_values_def [symmetric])
qed

subsection \<open>Rows\<close>

lemma try_fold_map: "try_fold f s (map g xs) = try_fold (\<lambda>s x. f s (g x)) s xs"
  by (induction xs arbitrary: s) (simp_all add: res_bind_def split: sum.splits)

lemma try_fold_cong: "(\<And>s x. x \<in> set xs \<Longrightarrow> f s x = g s x) \<Longrightarrow> try_fold f s xs = try_fold g s xs"
  by (induction xs arbitrary: s) (simp_all add: res_bind_def split: sum.splits)

lemma row_value_slice: "i < n \<Longrightarrow> off + n \<le> length xs \<Longrightarrow> row_value (take n (drop off xs)) i = row_value xs (off + i)"
  by (simp add: row_value_def)

lemma upt_shift: "map (\<lambda>i. off + i) [0..<n] = [off..<off + n]"
  by (simp add: map_add_upt add.commute)


text \<open>Reading the slices of a batch is reading its rows in order.\<close>

lemma slices_fold:
  assumes cut: "\<And>s off n. off + n \<le> N \<Longrightarrow>
      g s (Inr (slice_batch off n b)) = try_fold (\<lambda>s i. f s (off + i)) s [0..<n]"
    and "off + sum_list ns \<le> N"
  shows "try_fold g s (map Inr (slices off ns b)) = try_fold f s [off..<off + sum_list ns]"
  using assms(2)
proof (induction ns arbitrary: off s)
  case (Cons n ns)
  have "g s (Inr (slice_batch off n b)) = try_fold f s [off..<off + n]" for s
    using cut [of off n s] Cons.prems by (simp add: try_fold_map [symmetric] upt_shift)
  moreover have "[off..<off + sum_list (n # ns)] = [off..<off + n] @ [off + n..<off + n + sum_list ns]"
    using upt_add_eq_append [of off "off + n" "sum_list ns"] by (simp add: add.assoc)
  ultimately show ?case using Cons.IH [of "off + n"] Cons.prems
    by (simp add: try_fold_append add.assoc)
qed simp

lemma fold_nth: "try_fold (\<lambda>s i. f s (xs ! i)) s [0..<length xs] = try_fold f s xs"
  by (subst try_fold_map [symmetric]) (simp add: map_nth)

definition add_truth :: "sample_map \<Rightarrow> truth_measurement \<Rightarrow> intermediate_error + sample_map" where
  "add_truth samples t =
     (if omap_get samples (tm_record_index t) \<noteq> None then Inl (I_DuplicateTruthRecord (tm_record_index t))
      else Inr (omap_insert (tm_record_index t)
             \<lparr>ms_record_index = tm_record_index t, ms_vector_hash = tm_vector_hash t,
              ms_dup_count = tm_dup_count t, ms_ground_truth_latency_ms = tm_latency_ms t, ms_sweeps = []\<rparr>
             samples))"

definition add_sweep :: "sample_map \<Rightarrow> sweep_measurement_row \<Rightarrow> intermediate_error + sample_map" where
  "add_sweep samples r =
     res_bind (ok_or (omap_get samples (swr_record_index r)) (I_OrphanSweepRecord (swr_record_index r)))
       (\<lambda>sample.
     if omap_get (ms_sweeps sample) (swr_ef r) \<noteq> None then Inl (I_DuplicateSweep (swr_record_index r) (swr_ef r))
     else Inr (omap_insert (swr_record_index r)
            (sample\<lparr>ms_sweeps := omap_insert (swr_ef r)
               \<lparr>sm_recall = swr_recall r, sm_latency_ms = swr_latency_ms r\<rparr> (ms_sweeps sample)\<rparr>) samples))"

lemmas column_simps = int32_column_def uint64_column_def float64_column_def batch_column_def slice_batch_def

lemma truth_record_batch_total:
  "truth_record_batch rows = Inr
     \<lparr>rb_columns = [Int32Array (map tm_record_index rows), UInt64Array (map tm_vector_hash rows),
        Int32Array (map tm_dup_count rows), Int64Array (map tm_receive_time_us rows),
        Float64Array (map tm_latency_ms rows), ListInt64Array (map tm_gt_keys rows),
        ListFloat64Array (map tm_gt_distances rows)], rb_num_rows = length rows\<rparr>"
  by (simp add: truth_record_batch_def record_batch_new_def truth_schema_def)

lemma sweep_record_batch_total:
  "sweep_record_batch rows = Inr
     \<lparr>rb_columns = [Int32Array (map swr_record_index rows), Int32Array (map swr_ef rows),
        ListInt64Array (map swr_returned_keys rows), Float64Array (map swr_recall rows),
        Float64Array (map swr_latency_ms rows), Int32Array (map swr_result_count rows)],
      rb_num_rows = length rows\<rparr>"
  by (simp add: sweep_record_batch_def record_batch_new_def sweep_schema_def)

lemma row_value_map: "i < length rows \<Longrightarrow> row_value (map f rows) i = Inr (f (rows ! i))"
  by (simp add: row_value_def)

lemma truth_row_nth:
  "i < length rows \<Longrightarrow>
     truth_row (map tm_record_index rows) (map tm_vector_hash rows) (map tm_dup_count rows)
       (map tm_latency_ms rows) s i = add_truth s (rows ! i)"
  by (simp add: truth_row_def add_truth_def row_value_map)

lemma sweep_row_nth:
  "i < length rows \<Longrightarrow>
     sweep_row_step (map swr_record_index rows) (map swr_ef rows) (map swr_recall rows)
       (map swr_latency_ms rows) s i = add_sweep s (rows ! i)"
  by (cases "omap_get s (swr_record_index (rows ! i))")
    (simp_all add: sweep_row_step_def add_sweep_def row_value_map)

lemma read_truth_written:
  assumes "truth_record_batch rows = Inr b" and "sum_list ns = rb_num_rows b"
    and "pq_open pq bytes = Inr (truth_schema, map Inr (slices 0 ns b))"
  shows "read_truth_rows pq bytes = try_fold add_truth [] rows"
proof -
  let ?step = "truth_row (map tm_record_index rows) (map tm_vector_hash rows) (map tm_dup_count rows)
       (map tm_latency_ms rows)"
  have b: "sum_list ns = length rows" using assms(1,2) by (auto simp: truth_record_batch_total)
  have "try_fold truth_batch [] (map Inr (slices 0 ns b)) = try_fold ?step [] [0..<0 + sum_list ns]"
  proof (rule slices_fold [of "length rows"])
    fix s off n
    assume le: "off + n \<le> length rows"
    have "try_fold (truth_row (take n (drop off (map tm_record_index rows)))
        (take n (drop off (map tm_vector_hash rows))) (take n (drop off (map tm_dup_count rows)))
        (take n (drop off (map tm_latency_ms rows)))) s [0..<n] = try_fold (\<lambda>s i. ?step s (off + i)) s [0..<n]"
      using le by (intro try_fold_cong) (simp only: truth_row_def row_value_slice length_map set_upt atLeastLessThan_iff)
    then show "truth_batch s (Inr (slice_batch off n b)) = try_fold (\<lambda>s i. ?step s (off + i)) s [0..<n]"
      using assms(1) by (auto simp: truth_record_batch_total truth_batch_def column_simps)
  qed (simp add: b)
  also have "\<dots> = try_fold (\<lambda>s i. add_truth s (rows ! i)) [] [0..<length rows]"
    unfolding b add_0 by (rule try_fold_cong) (simp add: truth_row_nth)
  finally show ?thesis using assms(3) by (simp add: read_truth_rows_def fold_nth)
qed

lemma read_sweep_written:
  assumes "sweep_record_batch rows = Inr b" and "sum_list ns = rb_num_rows b"
    and "pq_open pq bytes = Inr (sweep_schema, map Inr (slices 0 ns b))"
  shows "read_sweep_rows pq bytes samples = try_fold add_sweep samples rows"
proof -
  let ?step = "sweep_row_step (map swr_record_index rows) (map swr_ef rows) (map swr_recall rows)
       (map swr_latency_ms rows)"
  have b: "sum_list ns = length rows" using assms(1,2) by (auto simp: sweep_record_batch_total)
  have "try_fold sweep_batch samples (map Inr (slices 0 ns b)) = try_fold ?step samples [0..<0 + sum_list ns]"
  proof (rule slices_fold [of "length rows"])
    fix s off n
    assume le: "off + n \<le> length rows"
    have "try_fold (sweep_row_step (take n (drop off (map swr_record_index rows)))
        (take n (drop off (map swr_ef rows))) (take n (drop off (map swr_recall rows)))
        (take n (drop off (map swr_latency_ms rows)))) s [0..<n] = try_fold (\<lambda>s i. ?step s (off + i)) s [0..<n]"
      using le by (intro try_fold_cong) (simp only: sweep_row_step_def row_value_slice length_map set_upt atLeastLessThan_iff)
    then show "sweep_batch s (Inr (slice_batch off n b)) = try_fold (\<lambda>s i. ?step s (off + i)) s [0..<n]"
      using assms(1) by (auto simp: sweep_record_batch_total sweep_batch_def column_simps)
  qed (simp add: b)
  also have "\<dots> = try_fold (\<lambda>s i. add_sweep s (rows ! i)) samples [0..<length rows]"
    unfolding b add_0 by (rule try_fold_cong) (simp add: sweep_row_nth)
  finally show ?thesis using assms(3) by (simp add: read_sweep_rows_def fold_nth)
qed


subsection \<open>Joining\<close>

definition bare_sample :: "truth_measurement \<Rightarrow> measured_sample" where
  "bare_sample t =
     \<lparr>ms_record_index = tm_record_index t, ms_vector_hash = tm_vector_hash t, ms_dup_count = tm_dup_count t,
      ms_ground_truth_latency_ms = tm_latency_ms t, ms_sweeps = []\<rparr>"

definition sweep_entry :: "sweep_measurement_row \<Rightarrow> int \<times> sweep_measurement" where
  "sweep_entry r = (swr_ef r, \<lparr>sm_recall = swr_recall r, sm_latency_ms = swr_latency_ms r\<rparr>)"

text \<open>A truth row with the sweep rows of its record.\<close>

definition joined_sample :: "sweep_measurement_row list \<Rightarrow> truth_measurement \<Rightarrow> measured_sample" where
  "joined_sample sweeps t =
     (bare_sample t)\<lparr>ms_sweeps := map sweep_entry (filter (\<lambda>r. swr_record_index r = tm_record_index t) sweeps)\<rparr>"

definition keyed :: "(truth_measurement \<Rightarrow> measured_sample) \<Rightarrow> truth_measurement list \<Rightarrow> sample_map" where
  "keyed f ts = map (\<lambda>t. (tm_record_index t, f t)) ts"

lemma omap_get_notin: "k \<notin> fst ` set m \<Longrightarrow> omap_get m k = None"
  by (simp add: omap_get_def map_of_eq_None_iff)

lemma add_truth_rows:
  assumes "sorted_wrt (<) (map fst m @ map tm_record_index ts)"
  shows "try_fold add_truth m ts = Inr (m @ keyed bare_sample ts)"
  using assms
proof (induction ts arbitrary: m)
  case (Cons t ts)
  have less: "\<forall>j \<in> fst ` set m. j < tm_record_index t"
    using Cons.prems by (auto simp: sorted_wrt_append)
  then have "add_truth m t = Inr (m @ [(tm_record_index t, bare_sample t)])"
    by (auto simp: add_truth_def bare_sample_def omap_insert_last intro!: omap_get_notin)
  then show ?case using Cons.IH [of "m @ [(tm_record_index t, bare_sample t)]"] Cons.prems
    by (simp add: keyed_def)
qed (simp add: keyed_def)

lemma omap_middle:
  assumes "\<forall>j \<in> fst ` set pre. j < i"
  shows "omap_get (pre @ (i, s) # post) i = Some s" and "omap_insert i s' (pre @ (i, s) # post) = pre @ (i, s') # post"
proof -
  have "i \<notin> fst ` set pre" using assms by auto
  then show "omap_get (pre @ (i, s) # post) i = Some s"
    by (simp add: omap_get_def map_add_Some_iff map_of_eq_None_iff)
  show "omap_insert i s' (pre @ (i, s) # post) = pre @ (i, s') # post"
    using assms
  proof (induction pre)
    case (Cons x pre)
    obtain j w where "x = (j, w)" by (cases x)
    then show ?case using Cons by auto
  qed simp
qed

lemma add_sweep_block:
  assumes "\<forall>j \<in> fst ` set pre. j < i" and "map swr_record_index rs = replicate (length rs) i"
    and "sorted_wrt (<) (map fst (ms_sweeps s) @ map swr_ef rs)"
  shows "try_fold add_sweep (pre @ (i, s) # post) rs
    = Inr (pre @ (i, s\<lparr>ms_sweeps := ms_sweeps s @ map sweep_entry rs\<rparr>) # post)"
  using assms(2,3)
proof (induction rs arbitrary: s)
  case (Cons r rs)
  let ?s = "s\<lparr>ms_sweeps := ms_sweeps s @ [sweep_entry r]\<rparr>"
  have r: "swr_record_index r = i" using Cons.prems by simp
  have less: "\<forall>j \<in> fst ` set (ms_sweeps s). j < swr_ef r"
    using Cons.prems by (auto simp: sorted_wrt_append)
  then have "omap_get (ms_sweeps s) (swr_ef r) = None" by (intro omap_get_notin) auto
  then have "add_sweep (pre @ (i, s) # post) r = Inr (pre @ (i, ?s) # post)"
    using less by (simp add: add_sweep_def r omap_middle [OF assms(1)] omap_insert_last sweep_entry_def)
  moreover have "try_fold add_sweep (pre @ (i, ?s) # post) rs
      = Inr (pre @ (i, ?s\<lparr>ms_sweeps := ms_sweeps ?s @ map sweep_entry rs\<rparr>) # post)"
    using Cons.prems by (intro Cons.IH) (simp_all add: sweep_entry_def)
  ultimately show ?case by simp
qed simp

lemma grid_keys_fst: "fst ` set (grid_keys grid ts) \<subseteq> tm_record_index ` set ts"
  by (auto simp: grid_keys_def)

lemma add_sweep_rows:
  assumes "sorted_wrt (<) (map fst pre @ map tm_record_index ts)"
    and "map row_key rows = grid_keys grid ts" and "sorted_wrt (<) grid"
  shows "try_fold add_sweep (pre @ keyed bare_sample ts) rows = Inr (pre @ keyed (joined_sample rows) ts)"
  using assms(1,2)
proof (induction ts arbitrary: pre rows)
  case Nil
  then show ?case by (simp add: grid_keys_def keyed_def)
next
  case (Cons t ts)
  let ?i = "tm_record_index t"
  define block where "block = take (length grid) rows"
  define rest where "rest = drop (length grid) rows"
  have rows: "rows = block @ rest" by (simp add: block_def rest_def)
  have keys: "map row_key rows = map (Pair ?i) grid @ grid_keys grid ts"
    using Cons.prems by (simp add: grid_keys_def)
  have kb: "map row_key block = map (Pair ?i) grid" and kr: "map row_key rest = grid_keys grid ts"
    using arg_cong [OF keys, of "take (length grid)"] arg_cong [OF keys, of "drop (length grid)"]
    by (simp_all add: block_def rest_def take_map drop_map)
  have "map (fst \<circ> row_key) block = map (fst \<circ> Pair ?i) grid" "map (snd \<circ> row_key) block = grid"
    using arg_cong [OF kb, of "map fst"] arg_cong [OF kb, of "map snd"] by (simp_all add: comp_def)
  then have bi: "map swr_record_index block = replicate (length block) ?i" and be: "map swr_ef block = grid"
    using arg_cong [OF kb, of length] by (simp_all add: comp_def row_key_def map_replicate_const)
  have less: "\<forall>j \<in> fst ` set pre. j < ?i" using Cons.prems(1) by (auto simp: sorted_wrt_append)
  have later: "\<forall>u \<in> set ts. ?i < tm_record_index u" using Cons.prems(1) by (auto simp: sorted_wrt_append)
  have "swr_record_index ` set rest \<subseteq> tm_record_index ` set ts"
    using grid_keys_fst [of grid ts] unfolding kr [symmetric] by (simp add: row_key_def image_image)
  then have fr: "filter (\<lambda>r. swr_record_index r = ?i) rest = []" using later
    by (fastforce simp: filter_empty_conv)
  have "\<forall>r \<in> set block. swr_record_index r = ?i"
    using bi by (metis in_set_replicate list.set_map rev_image_eqI)
  then have fb: "filter (\<lambda>r. swr_record_index r = ?i) block = block"
    and fo: "tm_record_index u \<noteq> ?i \<Longrightarrow> filter (\<lambda>r. swr_record_index r = tm_record_index u) block = []" for u
    by (auto simp: filter_empty_conv filter_id_conv)
  have this_sample: "(bare_sample t)\<lparr>ms_sweeps := map sweep_entry block\<rparr> = joined_sample rows t"
    by (simp add: joined_sample_def rows fb fr)
  have others: "keyed (joined_sample rest) ts = keyed (joined_sample rows) ts"
  proof -
    have "joined_sample rest u = joined_sample rows u" if "u \<in> set ts" for u
    proof -
      have "tm_record_index u \<noteq> ?i" using later that by auto
      from fo [OF this] show ?thesis by (simp add: joined_sample_def rows)
    qed
    then show ?thesis by (simp add: keyed_def)
  qed
  have "try_fold add_sweep (pre @ (?i, bare_sample t) # keyed bare_sample ts) block
      = Inr (pre @ (?i, (bare_sample t)\<lparr>ms_sweeps := ms_sweeps (bare_sample t) @ map sweep_entry block\<rparr>)
          # keyed bare_sample ts)"
    using assms(3) be by (intro add_sweep_block [OF less bi]) (simp add: bare_sample_def)
  also have "\<dots> = Inr ((pre @ [(?i, joined_sample rows t)]) @ keyed bare_sample ts)"
    using this_sample by (simp add: bare_sample_def)
  finally have "try_fold add_sweep (pre @ keyed bare_sample (t # ts)) block
      = Inr ((pre @ [(?i, joined_sample rows t)]) @ keyed bare_sample ts)"
    by (simp add: keyed_def)
  moreover have "try_fold add_sweep ((pre @ [(?i, joined_sample rows t)]) @ keyed bare_sample ts) rest
      = Inr ((pre @ [(?i, joined_sample rows t)]) @ keyed (joined_sample rest) ts)"
    using Cons.prems(1) kr by (intro Cons.IH) simp_all
  ultimately have "try_fold add_sweep (pre @ keyed bare_sample (t # ts)) (block @ rest)
      = Inr ((pre @ [(?i, joined_sample rows t)]) @ keyed (joined_sample rows) ts)"
    unfolding others by (simp only: try_fold_append res_bind_simps)
  then show ?case by (simp add: rows [symmetric] keyed_def)
qed

lemma parquet_lawD:
  assumes "parquet_law pq" and "pq_write pq schema batch kvs = Inr bytes"
  shows "\<exists>extra ns. pq_key_values pq bytes = Inr (kvs @ extra) \<and> distinct (map fst extra)
     \<and> set (map fst extra) \<inter> set (map fst kvs) = {} \<and> sum_list ns = rb_num_rows batch
     \<and> pq_open pq bytes = Inr (schema, map Inr (slices 0 ns batch))"
  using assms unfolding parquet_law_def by blast

lemma encode_pair_parts:
  assumes "encode_intermediate_pair pq md ts rows = Inr (truth, sweep)" and "parquet_law pq"
  obtains tb sb ns ms extra extra' where "truth_record_batch ts = Inr tb" and "sweep_record_batch rows = Inr sb"
    and "pq_key_values pq truth = Inr (metadata_key_values md @ extra)" and "distinct (map fst extra)"
    and "set (map fst extra) \<inter> set (map fst (metadata_key_values md)) = {}"
    and "pq_key_values pq sweep = Inr (metadata_key_values md @ extra')" and "distinct (map fst extra')"
    and "set (map fst extra') \<inter> set (map fst (metadata_key_values md)) = {}"
    and "sum_list ns = rb_num_rows tb" and "pq_open pq truth = Inr (truth_schema, map Inr (slices 0 ns tb))"
    and "sum_list ms = rb_num_rows sb" and "pq_open pq sweep = Inr (sweep_schema, map Inr (slices 0 ms sb))"
proof -
  obtain tb sb where "truth_record_batch ts = Inr tb" "sweep_record_batch rows = Inr sb"
      "pq_write pq truth_schema tb (metadata_key_values md) = Inr truth"
      "pq_write pq sweep_schema sb (metadata_key_values md) = Inr sweep"
    using assms(1) by (auto simp: encode_intermediate_pair_def encode_parquet_def result_simps)
  moreover from this(3) parquet_lawD [OF assms(2)] obtain extra ns where
      "pq_key_values pq truth = Inr (metadata_key_values md @ extra)" "distinct (map fst extra)"
      "set (map fst extra) \<inter> set (map fst (metadata_key_values md)) = {}"
      "sum_list ns = rb_num_rows tb" "pq_open pq truth = Inr (truth_schema, map Inr (slices 0 ns tb))"
    by blast
  moreover from calculation(4) parquet_lawD [OF assms(2)] obtain extra' ms where
      "pq_key_values pq sweep = Inr (metadata_key_values md @ extra')" "distinct (map fst extra')"
      "set (map fst extra') \<inter> set (map fst (metadata_key_values md)) = {}"
      "sum_list ms = rb_num_rows sb" "pq_open pq sweep = Inr (sweep_schema, map Inr (slices 0 ms sb))"
    by blast
  ultimately show ?thesis using that by blast
qed

lemma pair_reads_back:
  assumes "parquet_law pq" and "encode_intermediate_pair pq md ts rows = Inr (truth, sweep)"
    and "i32_list (im_ef_grid md)" and "unat (im_measured_count md) = length ts"
    and "sorted_wrt (<) (map tm_record_index ts)" and "sorted_wrt (<) grid"
    and "map row_key rows = grid_keys grid ts"
  shows "read_intermediate_pair_bytes pq truth sweep
     = Inr \<lparr>ip_metadata = md, ip_samples = map (joined_sample rows) ts\<rparr>"
proof (rule encode_pair_parts [OF assms(2,1)], goal_cases)
  case (1 tb sb ns ms extra extra')
  have "read_metadata pq truth = Inr md" by (rule read_metadata_written [OF 1(3-5) assms(3)])
  moreover have "read_metadata pq sweep = Inr md" by (rule read_metadata_written [OF 1(6-8) assms(3)])
  moreover have "read_truth_rows pq truth = Inr (keyed bare_sample ts)"
    using read_truth_written [OF 1(1,9,10)] add_truth_rows [of "[]" ts] assms(5) by simp
  moreover have "read_sweep_rows pq sweep (keyed bare_sample ts) = Inr (keyed (joined_sample rows) ts)"
    using read_sweep_written [OF 1(2,11,12)] add_sweep_rows [of "[]" ts rows grid] assms(5-7) by simp
  ultimately show ?case
    using assms(4) by (simp add: read_intermediate_pair_bytes_def keyed_def omap_values_def)
qed

lemma joined_sweep_keys:
  assumes "map row_key rows = grid_keys grid ts" and "distinct (map tm_record_index ts)" and "t \<in> set ts"
  shows "map fst (ms_sweeps (joined_sample rows t)) = grid"
proof -
  have "map fst (ms_sweeps (joined_sample rows t)) =
      map snd (filter (\<lambda>k. fst k = tm_record_index t) (map row_key rows))"
    by (simp add: joined_sample_def sweep_entry_def row_key_def filter_map comp_def)
  also have "\<dots> = grid"
    unfolding assms(1) using assms(2,3)
  proof (induction ts)
    case (Cons u ts)
    have eq: "grid_keys grid (u # ts) = map (Pair (tm_record_index u)) grid @ grid_keys grid ts"
      by (simp add: grid_keys_def)
    show ?case
    proof (cases "tm_record_index u = tm_record_index t")
      case True
      then have "tm_record_index t \<notin> tm_record_index ` set ts" using Cons.prems(1) by simp
      then have "filter (\<lambda>k. fst k = tm_record_index t) (grid_keys grid ts) = []"
        using grid_keys_fst [of grid ts] by (fastforce simp: filter_empty_conv)
      then show ?thesis using True by (simp add: eq filter_map comp_def)
    next
      case False
      then show ?thesis using Cons by (auto simp: eq filter_map comp_def)
    qed
  qed simp
  finally show ?thesis .
qed

lemma subseq_sorted_wrt: "subseq xs ys \<Longrightarrow> sorted_wrt P ys \<Longrightarrow> sorted_wrt P xs"
proof (induction rule: list_emb.induct)
  case (list_emb_Cons2 x y xs ys)
  then show ?case by (auto dest: list_emb_set)
qed simp_all

section \<open>An example library\<close>

text \<open>A library that can hold two files, each read back as one batch.\<close>

type_synonym pq_file = "arrow_field list \<times> record_batch \<times> key_value list"

definition example_parquet :: "pq_file \<Rightarrow> pq_file \<Rightarrow> parquet" where
  "example_parquet a b =
     \<lparr>pq_write = (\<lambda>schema batch kvs.
        if (schema, batch, kvs) = a then Inr [1]
        else if (schema, batch, kvs) = b then Inr [2] else Inl ''unsupported''),
      pq_key_values = (\<lambda>bytes. let (schema, batch, kvs) = (if bytes = [1] then a else b) in Inr kvs),
      pq_open = (\<lambda>bytes. let (schema, batch, kvs) = (if bytes = [1] then a else b)
                         in Inr (schema, [Inr (slice_batch 0 (rb_num_rows batch) batch)]))\<rparr>"

lemma example_parquet_law: "parquet_law (example_parquet a b)"
proof -
  have "\<exists>ns. sum_list ns = rb_num_rows batch
      \<and> [Inr (slice_batch 0 (rb_num_rows batch) batch)] = map Inr (slices 0 ns batch)" for batch
    by (rule exI [of _ "[rb_num_rows batch]"]) simp
  then show ?thesis
    by (auto simp: parquet_law_def example_parquet_def split: if_splits)
qed

section \<open>Properties\<close>

lemma encoded_part_reads:
  assumes "parquet_law pq" and "prepare_segment bytes cohort start width = Inr part"
    and "measure_prepared_part ms cancelled part part_ulid config now w = (Inr (MP_Complete mp), w')"
    and "sorted_wrt (<) (ac_ef_grid config)" and "i32_list (ac_ef_grid config)"
    and "encode_intermediate_pair pq (mp_metadata mp) (mp_truth_rows mp) (mp_sweep_rows mp) = Inr (truth, sweep)"
  shows "read_intermediate_pair_bytes pq truth sweep
       = Inr \<lparr>ip_metadata = mp_metadata mp,
              ip_samples = map (joined_sample (mp_sweep_rows mp)) (mp_truth_rows mp)\<rparr>
     \<and> list_all (\<lambda>t. map fst (ms_sweeps (joined_sample (mp_sweep_rows mp) t)) = ac_ef_grid config)
         (mp_truth_rows mp)"
proof -
  have facts: "subseq (map truth_ident (mp_truth_rows mp)) (map sample_ident (pp_samples part))"
      "map row_key (mp_sweep_rows mp) = grid_keys (ac_ef_grid config) (mp_truth_rows mp)"
      "unat (im_measured_count (mp_metadata mp)) = length (mp_truth_rows mp)"
      "im_ef_grid (mp_metadata mp) = ac_ef_grid config"
    using measured_part_facts [OF assms(3)] by (simp_all add: grid_keys_def)
  have "subseq (map fst (map truth_ident (mp_truth_rows mp))) (map fst (map sample_ident (pp_samples part)))"
    by (rule subseq_map [OF facts(1)])
  then have "subseq (map tm_record_index (mp_truth_rows mp)) (map (fst \<circ> sample_ident) (pp_samples part))"
    by (simp add: truth_ident_def comp_def)
  then have sorted: "sorted_wrt (<) (map tm_record_index (mp_truth_rows mp))"
    using prepared_ordinals_increase [OF assms(2)] by (rule subseq_sorted_wrt)
  then show ?thesis
    using pair_reads_back [OF assms(1,6) _ facts(3) sorted assms(4) facts(2)] assms(5) facts(4)
      joined_sweep_keys [OF facts(2)] by (simp add: list_all_iff strict_sorted_iff)
qed

text \<open>
  C25. What phase A measured is what phase B reads: for any Parquet library that keeps its law, the
  pair of files encoded from a measured part reads back with the part's metadata and one sample for
  each truth row, in order, joined with its own sweep rows, one for each ef of the grid.
\<close>

theorem measured_part_reads_back:
  assumes "parquet_law pq" and "prepare_segment bytes cohort start width = Inr part"
    and "measure_prepared_part ms cancelled part part_ulid config now w = (Inr (MP_Complete mp), w')"
    and "sorted_wrt (<) (ac_ef_grid config)" and "i32_list (ac_ef_grid config)"
    and "encode_intermediate_pair pq (mp_metadata mp) (mp_truth_rows mp) (mp_sweep_rows mp) = Inr (truth, sweep)"
  shows "read_intermediate_pair_bytes pq truth sweep
       = Inr \<lparr>ip_metadata = mp_metadata mp,
              ip_samples = map (joined_sample (mp_sweep_rows mp)) (mp_truth_rows mp)\<rparr>
     \<and> list_all (\<lambda>t. map fst (ms_sweeps (joined_sample (mp_sweep_rows mp) t)) = ac_ef_grid config)
         (mp_truth_rows mp)"
  using encoded_part_reads [OF assms] .

theorem measured_part_reads_back_witness:
  "\<exists>(mp :: measured_part) truth sweep pq. parquet_law pq
     \<and> encode_intermediate_pair pq (mp_metadata mp) (mp_truth_rows mp) (mp_sweep_rows mp) = Inr (truth, sweep)
     \<and> length (mp_truth_rows mp) = 1
     \<and> read_intermediate_pair_bytes pq truth sweep
        = Inr \<lparr>ip_metadata = mp_metadata mp,
               ip_samples = map (joined_sample (mp_sweep_rows mp)) (mp_truth_rows mp)\<rparr>"
proof -
  obtain mp where mp: "measure_prepared_part example_measurer (\<lambda>_. False) example_prepared_part ''01A''
        example_part_config 5 () = (Inr (MP_Complete mp), ())" "length (mp_truth_rows mp) = 1"
    by (simp add: measure_prepared_part_def example_prepared_part_def example_sample_def
        example_measurer_def example_part_config_def measurement_shape_ok_def sweep_row_def
        i32_from_usize_def result_simps usize_bound_def)
  obtain tb sb where b: "truth_record_batch (mp_truth_rows mp) = Inr tb" "sweep_record_batch (mp_sweep_rows mp) = Inr sb"
    by (simp add: truth_record_batch_total sweep_record_batch_total)
  let ?kvs = "metadata_key_values (mp_metadata mp)"
  let ?pq = "example_parquet (truth_schema, tb, ?kvs) (sweep_schema, sb, ?kvs)"
  have "truth_schema \<noteq> sweep_schema" by (simp add: truth_schema_def sweep_schema_def)
  then have enc: "encode_intermediate_pair ?pq (mp_metadata mp) (mp_truth_rows mp) (mp_sweep_rows mp) = Inr ([1], [2])"
    by (simp add: encode_intermediate_pair_def encode_parquet_def b example_parquet_def)
  have "sorted_wrt (<) (ac_ef_grid example_part_config)" "i32_list (ac_ef_grid example_part_config)"
    by (simp_all add: example_part_config_def i32_list_def)
  from measured_part_reads_back [OF example_parquet_law example_prepared mp(1) this enc]
  have reads: "read_intermediate_pair_bytes ?pq [1] [2] = Inr \<lparr>ip_metadata = mp_metadata mp,
      ip_samples = map (joined_sample (mp_sweep_rows mp)) (mp_truth_rows mp)\<rparr>" by simp
  show ?thesis
    by (intro exI [of _ mp] exI [of _ "[1 :: u8]"] exI [of _ "[2 :: u8]"] exI [of _ ?pq] conjI)
      (rule example_parquet_law, rule enc, rule mp(2), rule reads)
qed

end
