(* ===== verification/Pacer.thy ===== *)
theory Pacer
  imports Schedule Float64
begin

text \<open>
  The duty-cycle pacer of one data source (\<open>seam/src/pacer.rs\<close>): a unit of database work waits for
  the cooldown of the one before it, and its whole wall time is charged. The clock, the wait and the
  work are functions of a state of the environment; a panic (a duration out of range) is \<open>None\<close>. The
  facts bound the cooldown from below through every rounding of the source's binary64 arithmetic.
\<close>

section \<open>Definitions\<close>

datatype pacer_error = InvalidShare

record pacer =
  pc_db_share :: f64
  pc_next_allowed :: instant
  pc_work_count :: u64
  pc_total_busy :: duration

definition pacer_new :: "f64 \<Rightarrow> instant \<Rightarrow> pacer_error + pacer" where
  "pacer_new db_share now =
     (if \<not> (f64_is_finite db_share \<and> f64_lt (Fin 0) db_share \<and> f64_le db_share (Fin 1))
      then Inl InvalidShare
      else Inr \<lparr>pc_db_share = db_share, pc_next_allowed = now, pc_work_count = 0, pc_total_busy = 0\<rparr>)"

text \<open>\<open>Duration::as_secs_f64\<close>, \<open>from_secs_f64\<close> (to the nearest nanosecond), \<open>mul_f64\<close> and \<open>MAX\<close>.\<close>

definition duration_bound :: nat where
  "duration_bound = 2 ^ 64 * 1000000000"

definition as_secs_f64 :: "duration \<Rightarrow> f64" where
  "as_secs_f64 d =
     f64_add (f64_of_nat (d div 1000000000)) (f64_div (f64_of_nat (d mod 1000000000)) (Fin 1000000000))"

definition from_secs_f64 :: "f64 \<Rightarrow> duration option" where
  "from_secs_f64 x =
     (case x of
        Fin q \<Rightarrow>
          if q < 0 then None
          else let nanos = nat (round_half_even (q * 1000000000))
               in if nanos < duration_bound then Some nanos else None
      | _ \<Rightarrow> None)"

definition mul_f64 :: "duration \<Rightarrow> f64 \<Rightarrow> duration option" where
  "mul_f64 d x = from_secs_f64 (f64_mul x (as_secs_f64 d))"

definition duration_saturating_add :: "duration \<Rightarrow> duration \<Rightarrow> duration" where
  "duration_saturating_add a b = min (a + b) (duration_bound - 1)"

text \<open>\<open>now\<close> is \<open>Instant::now\<close>: time may pass with every reading.\<close>

definition run_ready ::
  "('w \<Rightarrow> instant \<times> 'w) \<Rightarrow> pacer \<Rightarrow> ('w \<Rightarrow> 'r \<times> 'w) \<Rightarrow> 'w \<Rightarrow> ('r \<times> pacer \<times> 'w) option" where
  "run_ready now p work w =
     (let (started, w) = now w;
          (result, w) = work w;
          (ended, w) = now w;
          elapsed = ended - started;
          p = p\<lparr>pc_work_count := saturating_add (pc_work_count p) 1,
                pc_total_busy := duration_saturating_add (pc_total_busy p) elapsed\<rparr> in
      Option.bind (mul_f64 elapsed (f64_div (f64_sub (Fin 1) (pc_db_share p)) (pc_db_share p)))
        (\<lambda>cooldown.
      let (later, w) = now w in
      Option.bind (instant_add later cooldown) (\<lambda>next_allowed.
      Some (result, p\<lparr>pc_next_allowed := next_allowed\<rparr>, w))))"

datatype 'r cancelable_run = Completed 'r | CancelledBeforeStart

text \<open>\<open>wait\<close> sleeps until the instant, or returns true when cancellation won.\<close>

definition run_cancelable_before_start ::
  "('w \<Rightarrow> instant \<times> 'w) \<Rightarrow> (instant \<Rightarrow> 'w \<Rightarrow> bool \<times> 'w) \<Rightarrow> pacer \<Rightarrow> ('w \<Rightarrow> ('e + 'r) \<times> 'w) \<Rightarrow> 'w
     \<Rightarrow> (('e + 'r cancelable_run) \<times> pacer \<times> 'w) option" where
  "run_cancelable_before_start now wait p work w =
     (case wait (pc_next_allowed p) w of
        (True, w) \<Rightarrow> Some (Inr CancelledBeforeStart, p, w)
      | (False, w) \<Rightarrow>
          map_option (\<lambda>(result, p, w). (res_bind result (\<lambda>x. Inr (Completed x)), p, w))
            (run_ready now p work w))"

section \<open>Facts\<close>

text \<open>Rounding loses at most one part in \<open>2 ^ 53\<close> of a normal value.\<close>

definition normal :: "rat \<Rightarrow> bool" where
  "normal q \<longleftrightarrow> q = 0 \<or> 2 powi (- 1022) \<le> q"

lemma round_half_even_near: "x - 1 / 2 \<le> of_int (round_half_even x)"
  by (simp add: round_half_even_def Let_def) linarith

lemma round_pos_lower:
  assumes "normal q"
  shows "q * (1 - 1 / 2 ^ 53) \<le> round_pos q"
proof (cases "q = 0")
  case False
  then have q: "2 powi (- 1022) \<le> q" using assms by (simp add: normal_def)
  have pos: "0 < q" using q by (rule less_le_trans [rotated]) simp
  have "(2 :: rat) powi (- 1022) < 2 powi (rat_exponent q + 1)"
    using q rat_exponent_bounds(2) [OF pos] by linarith
  then have "- 1022 < rat_exponent q + 1" by (simp only: powi2_less_iff)
  then have e: "- 1022 \<le> rat_exponent q" by simp
  have "f64_ulp q = 2 powi (rat_exponent q + - 52)" using e by (simp add: f64_ulp_def)
  also have "\<dots> = 2 powi (rat_exponent q) * 2 powi (- 52)" by (rule power_int_add) simp
  also have "\<dots> \<le> q * 2 powi (- 52)"
    using rat_exponent_bounds(1) [OF pos] by (intro mult_right_mono) simp_all
  finally have ulp: "f64_ulp q \<le> q * (2 / 2 ^ 53)" by (simp add: power_int_minus)
  have "q - f64_ulp q / 2 = (q / f64_ulp q - 1 / 2) * f64_ulp q"
    using f64_ulp_pos [of q] by (simp add: left_diff_distrib less_imp_neq [symmetric])
  also have "\<dots> \<le> of_int (round_half_even (q / f64_ulp q)) * f64_ulp q"
    by (intro mult_right_mono round_half_even_near) (simp add: less_imp_le)
  finally have "q - f64_ulp q / 2 \<le> round_pos q" using False by (simp add: round_pos_def)
  then show ?thesis using ulp by (simp add: algebra_simps)
qed (simp add: normal_def)


definition coarse :: "rat \<Rightarrow> bool" where
  "coarse q \<longleftrightarrow> q = 0 \<or> 2 powi (- 60) \<le> q"

lemma coarse_nonneg: "coarse q \<Longrightarrow> 0 \<le> q"
  unfolding coarse_def by (auto intro: order_trans [of 0 "2 powi (- 60)"])

lemma coarse_normal: "coarse q \<Longrightarrow> normal q"
proof -
  have "(2 :: rat) powi (- 1022) \<le> 2 powi (- 60)" by (simp only: powi2_le_iff)
  then show "coarse q \<Longrightarrow> normal q" unfolding coarse_def normal_def by linarith
qed

lemma coarse_round: "coarse q \<Longrightarrow> coarse (round_pos q)"
proof (cases "q = 0")
  case False
  assume "coarse q"
  then have "2 powi (- 60) \<le> q" using False by (simp add: coarse_def)
  then have "round_pos (2 powi (- 60)) \<le> round_pos q" by (intro round_pos_mono) simp_all
  then show ?thesis unfolding coarse_def by (subst (asm) round_pos_powi) simp_all
qed (simp add: coarse_def)

lemma coarse_add: "coarse p \<Longrightarrow> coarse q \<Longrightarrow> coarse (p + q)"
  using coarse_nonneg [of p] coarse_nonneg [of q] unfolding coarse_def by linarith

lemma coarse_mult_normal: "coarse p \<Longrightarrow> coarse q \<Longrightarrow> normal (p * q)"
proof -
  assume pq: "coarse p" "coarse q"
  have "2 powi (- 1022) \<le> p * q" if "p \<noteq> 0" "q \<noteq> 0"
  proof -
    have "(2 :: rat) powi (- 1022) \<le> 2 powi (- 120)" by (simp only: powi2_le_iff)
    also have "(2 :: rat) powi (- 120) = 2 powi (- 60 + - 60)" by simp
    also have "\<dots> = 2 powi (- 60) * 2 powi (- 60)" by (rule power_int_add) simp
    finally have "(2 :: rat) powi (- 1022) \<le> 2 powi (- 60) * 2 powi (- 60)" .
    also have "\<dots> \<le> p * q" using that pq by (intro mult_mono) (simp_all add: coarse_def)
    finally show ?thesis .
  qed
  then show ?thesis unfolding normal_def by fastforce
qed

lemma fl_Fin: "0 \<le> q \<Longrightarrow> fl q = Fin r \<Longrightarrow> r = round_pos q"
  by (auto simp: fl_def Let_def split: if_splits)

lemma fl_finite_or_inf: "0 \<le> q \<Longrightarrow> fl q = Fin (round_pos q) \<or> fl q = PosInf"
  by (simp add: fl_def Let_def)

text \<open>Every step of the cooldown, from the elapsed time to the rounded product.\<close>

definition unit_loss :: rat where
  "unit_loss = 1 - 1 / 2 ^ 53"

lemma unit_loss_bounds: "0 < unit_loss" "unit_loss \<le> 1" "1 - 5 / 2 ^ 53 \<le> unit_loss ^ 5"
  by (simp_all add: unit_loss_def power_numeral_reduce)

lemma round_pos_loss: "normal q \<Longrightarrow> q * unit_loss \<le> round_pos q"
  unfolding unit_loss_def by (rule round_pos_lower)

lemma as_secs_lower:
  assumes "d < duration_bound"
  shows "\<exists>x. as_secs_f64 d = Fin x \<and> coarse x \<and> of_nat d / 1000000000 * unit_loss ^ 2 \<le> x"
proof -
  let ?S = "d div 1000000000" and ?N = "d mod 1000000000"
  define b where "b = round_pos (of_nat ?N / 1000000000)"
  define a where "a = round_pos (of_nat ?S)"
  have S: "?S < 2 ^ 64" using assms by (simp add: duration_bound_def div_less_iff_less_mult)
  have fa: "f64_of_nat ?S = Fin a" using f64_of_nat_u64 [OF S] by (simp add: a_def)
  have N: "?N < 1000000000" by simp
  have fN: "f64_of_nat ?N = Fin (of_nat ?N)" using N by (intro f64_of_nat_exact) simp
  have "(of_nat ?N :: rat) < of_nat 1000000000" using N by (simp only: of_nat_less_iff)
  then have n1: "(of_nat ?N / 1000000000 :: rat) \<le> 1" by simp
  have cS: "coarse (of_nat ?S)"
  proof (cases "?S = 0")
    case False
    have "(2 :: rat) powi (- 60) \<le> 1" by (simp add: power_int_minus)
    moreover have "(1 :: rat) \<le> of_nat ?S" using False by (metis One_nat_def Suc_leI neq0_conv of_nat_1 of_nat_le_iff)
    ultimately show ?thesis unfolding coarse_def by linarith
  qed (simp add: coarse_def)
  have cN: "coarse (of_nat ?N / 1000000000)"
  proof (cases "?N = 0")
    case False
    have "(2 :: rat) powi (- 60) \<le> 1 / 1000000000" by (simp add: power_int_minus)
    moreover have "(1 :: rat) \<le> of_nat ?N" using False by (metis One_nat_def Suc_leI neq0_conv of_nat_1 of_nat_le_iff)
    ultimately show ?thesis unfolding coarse_def by (simp add: field_simps)
  qed (simp add: coarse_def)
  have "round_pos (of_nat ?N / 1000000000) \<le> round_pos 1" using n1 by (intro round_pos_mono) simp_all
  then have b1: "b \<le> 1" by (simp add: b_def)
  have fb: "f64_div (f64_of_nat ?N) (Fin 1000000000) = Fin b"
    using fl_unit [of "of_nat ?N / 1000000000"] n1 fl_Fin [of "of_nat ?N / 1000000000"] by (auto simp: fN b_def)
  have la: "of_nat ?S * unit_loss \<le> a" and lb: "of_nat ?N / 1000000000 * unit_loss \<le> b"
    using round_pos_loss [OF coarse_normal [OF cS]] round_pos_loss [OF coarse_normal [OF cN]]
    by (simp_all add: a_def b_def)
  have ca: "coarse a" and cb: "coarse b" using coarse_round [OF cS] coarse_round [OF cN] by (simp_all add: a_def b_def)
  have cab: "coarse (a + b)" by (rule coarse_add [OF ca cb])
  have "(of_nat ?S :: rat) \<le> 2 powi 64" using S by (metis less_imp_le numeral_le_iff of_nat_le_iff of_nat_numeral of_nat_power power_int_numeral)
  then have "a \<le> 2 powi 64"
    using round_pos_mono [of "of_nat ?S" "2 powi 64"] round_pos_powi [of 64] by (simp add: a_def)
  then have "a + b \<le> 2 powi 65" using b1 by simp
  then have "round_pos (a + b) \<le> round_pos (2 powi 65)"
    using coarse_nonneg [OF cab] by (intro round_pos_mono)
  also have "\<dots> = 2 ^ 65" using round_pos_powi [of 65] by simp
  also have "\<dots> < (2 :: rat) ^ 1024" by (rule power_strict_increasing) simp_all
  finally have "fl (a + b) = Fin (round_pos (a + b))" using coarse_nonneg [OF cab] by (intro fl_nonneg)
  then have fs: "as_secs_f64 d = Fin (round_pos (a + b))" by (simp add: as_secs_f64_def fa fb)
  have "(of_nat d :: rat) = of_nat ?S * 1000000000 + of_nat ?N"
    by (metis div_mult_mod_eq of_nat_add of_nat_mult of_nat_numeral)
  then have "of_nat d / 1000000000 * unit_loss \<le> a + b" using la lb by (simp add: field_simps)
  then have "of_nat d / 1000000000 * unit_loss * unit_loss \<le> (a + b) * unit_loss"
    using unit_loss_bounds(1) by (intro mult_right_mono) simp_all
  also have "\<dots> \<le> round_pos (a + b)" by (rule round_pos_loss [OF coarse_normal [OF cab]])
  finally show ?thesis using fs coarse_round [OF cab] by (simp add: power2_eq_square mult.assoc)
qed

text \<open>A representable share below one leaves at least \<open>2 ^ -53\<close> to one.\<close>

definition f64_share :: "f64 \<Rightarrow> bool" where
  "f64_share x \<longleftrightarrow> (\<exists>s. x = Fin s \<and> 0 < s \<and> s \<le> 1 \<and> round_pos s = s)"

lemma representable_below_one:
  assumes "round_pos s = s" and "s < 1"
  shows "s \<le> 1 - 1 / 2 ^ 53"
proof (rule ccontr)
  assume "\<not> s \<le> 1 - 1 / 2 ^ 53"
  then have s: "1 - 1 / 2 ^ 53 < s" by simp
  then have pos: "1 / 2 \<le> s" "0 < s" by simp_all
  have "rat_exponent (2 powi (- 1)) \<le> rat_exponent s"
    using pos(1) by (intro rat_exponent_mono) (simp_all add: power_int_minus)
  moreover have "(2 :: rat) powi (rat_exponent s) < 2 powi 0"
    using rat_exponent_bounds(1) [OF pos(2)] assms(2) by simp
  ultimately have "rat_exponent s = - 1" by (simp only: powi2_less_iff rat_exponent_powi)
  then have ulp: "f64_ulp s = 1 / 2 ^ 53" by (simp add: f64_ulp_def power_int_minus)
  define i where "i = round_half_even (s / f64_ulp s)"
  have "s = of_int i * f64_ulp s" using assms(1) pos(2) by (simp add: round_pos_def i_def)
  then have "s = of_int i / 2 ^ 53" by (simp add: ulp)
  then have "of_int (2 ^ 53 - 1) < (of_int i :: rat)" and "(of_int i :: rat) < of_int (2 ^ 53)"
    using s assms(2) by simp_all
  then show False by (simp only: of_int_less_iff)
qed

lemma coarse_one_minus:
  assumes "round_pos s = s" and "s \<le> 1"
  shows "coarse (1 - s)"
proof (cases "s = 1")
  case False
  then have "1 / 2 ^ 53 \<le> 1 - s" using representable_below_one [OF assms(1)] assms(2) by simp
  moreover have "(2 :: rat) powi (- 60) \<le> 1 / 2 ^ 53" by (simp add: power_int_minus)
  ultimately show ?thesis unfolding coarse_def by linarith
qed (simp add: coarse_def)

lemma from_secs_lower:
  assumes "from_secs_f64 (Fin z) = Some n"
  shows "z * 1000000000 - 1 / 2 \<le> of_nat n"
proof -
  have "0 \<le> round_half_even (z * 1000000000)"
    using assms by (intro round_half_even_ge) (simp add: from_secs_f64_def split: if_splits)
  then show ?thesis
    using assms round_half_even_near [of "z * 1000000000"]
    by (auto simp: from_secs_f64_def Let_def split: if_splits)
qed

lemma from_secs_finite: "from_secs_f64 x = Some n \<Longrightarrow> \<exists>z. x = Fin z"
  by (cases x) (simp_all add: from_secs_f64_def)

lemma signed_inf_not_finite: "signed_inf q \<noteq> Fin z"
  by (simp add: signed_inf_def)

lemma fl_lower: "normal q \<Longrightarrow> 0 \<le> q \<Longrightarrow> fl q = Fin z \<Longrightarrow> q * unit_loss \<le> z"
  using fl_Fin [of q z] round_pos_loss [of q] by simp

lemma cooldown_lower:
  assumes share: "f64_share (Fin s)" and d: "d < duration_bound"
    and cool: "mul_f64 d (f64_div (f64_sub (Fin 1) (Fin s)) (Fin s)) = Some n"
  shows "of_nat d * ((1 - s) / s) * (1 - 5 / 2 ^ 53) - 1 / 2 \<le> of_nat n"
proof -
  have s: "0 < s" "s \<le> 1" "round_pos s = s" using share by (simp_all add: f64_share_def)
  have c1: "coarse (1 - s)" by (rule coarse_one_minus [OF s(3,2)])
  define x where "x = round_pos (1 - s)"
  have x: "fl (1 - s) = Fin x" "coarse x" "(1 - s) * unit_loss \<le> x"
    using fl_unit [of "1 - s"] s fl_Fin [of "1 - s"] coarse_round [OF c1] round_pos_loss [OF coarse_normal [OF c1]]
    by (auto simp: x_def)
  have x0: "0 \<le> x" by (rule coarse_nonneg [OF x(2)])
  have le: "x \<le> x / s" using s x0 by (simp add: le_divide_eq mult_left_le)
  then have cr: "coarse (x / s)" using x(2) unfolding coarse_def by (metis div_0 order_trans)
  obtain y where y: "as_secs_f64 d = Fin y" "coarse y" "of_nat d / 1000000000 * unit_loss ^ 2 \<le> y"
    using as_secs_lower [OF d] by blast
  have cool': "from_secs_f64 (f64_mul (fl (x / s)) (Fin y)) = Some n"
    using cool x(1) s(1) y(1) by (simp add: mul_f64_def f64_sub_def)
  obtain z where z: "f64_mul (fl (x / s)) (Fin y) = Fin z" using from_secs_finite [OF cool'] by blast
  obtain r where r: "fl (x / s) = Fin r"
    using z fl_finite_or_inf [of "x / s"] x0 s(1) by (auto simp: signed_inf_not_finite)
  have rl: "x / s * unit_loss \<le> r" using fl_lower [OF coarse_normal [OF cr] _ r] coarse_nonneg [OF cr] by blast
  have r0: "coarse r" using fl_Fin [OF coarse_nonneg [OF cr] r] coarse_round [OF cr] by simp
  have ry: "0 \<le> r * y" using coarse_nonneg r0 y(2) by (simp add: coarse_nonneg)
  have zl: "r * y * unit_loss \<le> z"
    using fl_lower [OF coarse_mult_normal [OF r0 y(2)] ry, of z] z r by simp
  have u: "0 \<le> unit_loss" using unit_loss_bounds(1) by simp
  define c where "c = (1 - s) / s * (of_nat d / 1000000000)"
  have c0: "0 \<le> c" using s by (simp add: c_def)
  have "c * unit_loss ^ 5 = ((1 - s) * unit_loss / s * unit_loss) * (of_nat d / 1000000000 * unit_loss ^ 2) * unit_loss"
    by (simp add: c_def power_numeral_reduce)
  also have "\<dots> \<le> (x / s * unit_loss) * y * unit_loss"
    using s u x(3) y(3) x0
    by (intro mult_right_mono mult_mono divide_right_mono) (simp_all add: mult_nonneg_nonneg divide_nonneg_nonneg)
  also have "\<dots> \<le> r * y * unit_loss"
    using rl u coarse_nonneg [OF y(2)] by (intro mult_right_mono) simp_all
  also note zl
  finally have "c * unit_loss ^ 5 \<le> z" .
  moreover have "c * (1 - 5 / 2 ^ 53) \<le> c * unit_loss ^ 5"
    using c0 unit_loss_bounds(3) by (rule mult_left_mono [rotated])
  ultimately have "c * (1 - 5 / 2 ^ 53) * 1000000000 - 1 / 2 \<le> z * 1000000000 - 1 / 2" by simp
  also have "\<dots> \<le> of_nat n" using cool' z by (intro from_secs_lower) simp
  finally show ?thesis by (simp add: c_def mult.commute mult.left_commute)
qed

section \<open>Sequences of units\<close>

fun paced_units ::
  "('w \<Rightarrow> instant \<times> 'w) \<Rightarrow> (instant \<Rightarrow> 'w \<Rightarrow> bool \<times> 'w) \<Rightarrow> pacer \<Rightarrow> ('w \<Rightarrow> ('e + 'r) \<times> 'w) list \<Rightarrow> 'w
     \<Rightarrow> (nat \<times> pacer \<times> 'w) option" where
  "paced_units now wait p [] w = Some (0, p, w)"
| "paced_units now wait p (u # us) w =
     (case run_cancelable_before_start now wait p u w of
        None \<Rightarrow> None
      | Some (Inr CancelledBeforeStart, p, w) \<Rightarrow> Some (0, p, w)
      | Some (_, p, w) \<Rightarrow> map_option (apfst Suc) (paced_units now wait p us w))"

text \<open>
  A stopwatch beside the pacer: \<open>timed\<close> adds the wall time of a unit that runs to a total that the
  pacer, its clock readings and its waits do not see.
\<close>

definition timed :: "('w \<Rightarrow> instant) \<Rightarrow> ('w \<Rightarrow> 'r \<times> 'w) \<Rightarrow> 'w \<times> duration \<Rightarrow> 'r \<times> 'w \<times> duration" where
  "timed clock u s =
     (let (r, w) = u (fst s) in (r, w, snd s + (clock w - clock (fst s))))"

definition untimed :: "('w \<Rightarrow> 'r \<times> 'w) \<Rightarrow> 'w \<times> duration \<Rightarrow> 'r \<times> 'w \<times> duration" where
  "untimed f s = (let (r, w) = f (fst s) in (r, w, snd s))"

text \<open>A reading lies between the times before and after it, and a wait does not end early.\<close>

definition clock_read_by :: "('w \<Rightarrow> instant) \<Rightarrow> ('w \<Rightarrow> instant \<times> 'w) \<Rightarrow> bool" where
  "clock_read_by clock now \<longleftrightarrow> (\<forall>w. clock w \<le> fst (now w) \<and> fst (now w) \<le> clock (snd (now w)))"

lemma run_ready_timed:
  "map_option (\<lambda>(r, p, s). (r, p, fst s)) (run_ready (untimed now) p (timed clock u) (w, b))
     = run_ready now p u w"
proof -
  obtain t1 w1 where 1: "now w = (t1, w1)" by fastforce
  obtain r w2 where 2: "u w1 = (r, w2)" by fastforce
  obtain t3 w3 where 3: "now w2 = (t3, w3)" by fastforce
  obtain t4 w4 where 4: "now w3 = (t4, w4)" by fastforce
  show ?thesis
    by (simp add: run_ready_def untimed_def timed_def Let_def 1 2 3 4 option.map_comp bind_map_option
        map_option_bind comp_def cong: bind_option_cong)
qed

lemma charges_add:
  fixes a b c k s x y z :: rat
  assumes "(b - a) * k \<le> s * (y - x + 1 / 2)" and "(c - b) * k \<le> s * (z - y + of_nat m / 2)"
  shows "(c - a) * k \<le> s * (z - x + of_nat (Suc m) / 2)"
  using assms by (simp add: algebra_simps add_divide_distrib)

lemma run_ready_charges:
  assumes "run_ready (untimed now) p (timed clock u) (w, b) = Some (r, p', w', b')"
    and "f64_share (pc_db_share p)" and "pc_db_share p = Fin s"
    and "clock_read_by clock now" and "\<And>w. clock w \<le> clock (snd (u w))"
  shows "pc_db_share p' = pc_db_share p \<and>
    (of_nat b' - of_nat b) * (1 - 5 / 2 ^ 53) / s - 1 / 2
      \<le> of_nat (pc_next_allowed p') - (of_nat (clock w) :: rat)"
proof -
  obtain t1 w1 where 1: "now w = (t1, w1)" by fastforce
  obtain x w2 where 2: "u w1 = (x, w2)" by fastforce
  obtain t3 w3 where 3: "now w2 = (t3, w3)" by fastforce
  obtain t4 w4 where 4: "now w3 = (t4, w4)" by fastforce
  have read: "clock w \<le> t1" "t1 \<le> clock w1" "clock w2 \<le> t3" "t3 \<le> clock w3" "clock w3 \<le> t4"
    using assms(4) [unfolded clock_read_by_def, rule_format, of w]
      assms(4) [unfolded clock_read_by_def, rule_format, of w2]
      assms(4) [unfolded clock_read_by_def, rule_format, of w3] by (simp_all add: 1 3 4)
  have unit: "clock w1 \<le> clock w2" using assms(5) [of w1] by (simp add: 2)
  define d where "d = t3 - t1"
  obtain n where n: "mul_f64 d (f64_div (f64_sub (Fin 1) (Fin s)) (Fin s)) = Some n"
    and next_at: "instant_add t4 n = Some (pc_next_allowed p')"
    and share: "pc_db_share p' = pc_db_share p" and total: "b' = b + (clock w2 - clock w1)"
    using assms(1,3)
    by (auto simp: run_ready_def Let_def untimed_def timed_def 1 2 3 4 d_def split: bind_splits)
  have after: "pc_next_allowed p' = t4 + n" and "t4 < instant_bound"
    using next_at by (auto simp: instant_add_def split: if_splits)
  then have "d < duration_bound"
    using read by (simp add: d_def instant_bound_def duration_bound_def)
  then have low: "of_nat d * ((1 - s) / s) * (1 - 5 / 2 ^ 53) - 1 / 2 \<le> (of_nat n :: rat)"
    using cooldown_lower [OF _ _ n] assms(2,3) by simp
  have s: "0 < s" "s \<le> 1" using assms(2,3) by (auto simp: f64_share_def)
  have "b' \<le> b + d" using total read unit by (simp add: d_def)
  then have "(of_nat b' :: rat) \<le> of_nat (b + d)" by (simp only: of_nat_le_iff)
  then have "(of_nat b' - of_nat b) * (1 - 5 / 2 ^ 53) / s \<le> (of_nat d :: rat) * (1 - 5 / 2 ^ 53) / s"
    using s by (intro divide_right_mono mult_right_mono) simp_all
  also have "\<dots> = of_nat d * ((1 - s) / s) * (1 - 5 / 2 ^ 53) + of_nat d * (1 - 5 / 2 ^ 53)"
    using s by (simp add: field_simps)
  also have "\<dots> \<le> of_nat n + 1 / 2 + of_nat d" using low by simp
  finally have "(of_nat b' - of_nat b) * (1 - 5 / 2 ^ 53) / s - 1 / 2 \<le> (of_nat (n + d) :: rat)" by simp
  moreover have "n + d \<le> pc_next_allowed p' - clock w" "clock w \<le> pc_next_allowed p'"
    using read unit by (simp_all add: after d_def)
  then have "(of_nat (n + d) :: rat) \<le> of_nat (pc_next_allowed p') - of_nat (clock w)"
    by (metis of_nat_diff of_nat_le_iff)
  ultimately show ?thesis using share by linarith
qed

text \<open>A unit that ran, its timed run and the units after it.\<close>

lemma paced_units_unit:
  assumes "paced_units now wait p (u # us) w = Some (n, p', w')" and "wait (pc_next_allowed p) w = (False, w1)"
  obtains r p1 w2 m where "run_ready now p u w1 = Some (r, p1, w2)"
    and "paced_units now wait p1 us w2 = Some (m, p', w')" and "n = Suc m"
proof -
  obtain r p1 w2 where ready: "run_ready now p u w1 = Some (r, p1, w2)"
    using assms by (cases "run_ready now p u w1") (auto simp: run_cancelable_before_start_def)
  then obtain m where "paced_units now wait p1 us w2 = Some (m, p', w')" "n = Suc m"
    using assms by (cases r) (auto simp: run_cancelable_before_start_def)
  then show thesis using ready that by blast
qed

text \<open>The run beside the stopwatch is the run.\<close>

lemma paced_units_timed:
  "paced_units (untimed now) (\<lambda>t. untimed (wait t)) p (map (timed clock) us) (w, b) = Some (n, p', w', b') \<Longrightarrow>
     paced_units now wait p us w = Some (n, p', w')"
proof (induction us arbitrary: p w b n)
  case (Cons u us)
  obtain cancelled w1 where waited: "wait (pc_next_allowed p) w = (cancelled, w1)" by fastforce
  show ?case
  proof (cases cancelled)
    case True
    then show ?thesis using Cons.prems waited by (auto simp: untimed_def run_cancelable_before_start_def)
  next
    case False
    then have "untimed (wait (pc_next_allowed p)) (w, b) = (False, w1, b)" using waited by (simp add: untimed_def)
    from paced_units_unit [OF Cons.prems [unfolded list.map] this]
    obtain r p1 w2 b1 m where ready: "run_ready (untimed now) p (timed clock u) (w1, b) = Some (r, p1, w2, b1)"
      and rest: "paced_units (untimed now) (\<lambda>t. untimed (wait t)) p1 (map (timed clock) us) (w2, b1) = Some (m, p', w', b')"
      and n: "n = Suc m" by (metis surj_pair)
    have "run_ready now p u w1 = Some (r, p1, w2)" using run_ready_timed [of now p clock u w1 b] ready by simp
    then show ?thesis
      using Cons.IH [OF rest] waited False n by (cases r) (simp_all add: run_cancelable_before_start_def)
  qed
qed simp

lemma paced_units_charges:
  assumes "paced_units (untimed now) (\<lambda>t. untimed (wait t)) p (map (timed clock) us) (w, b) = Some (n, p', w', b')"
    and "pc_db_share p = Fin s" and share: "f64_share (Fin s)" and read: "clock_read_by clock now"
    and wait: "\<And>t w w'. wait t w = (False, w') \<Longrightarrow> t \<le> clock w'"
    and "\<And>u w. u \<in> set us \<Longrightarrow> clock w \<le> clock (snd (u w))"
  shows "(of_nat b' - of_nat b) * (1 - 5 / 2 ^ 53)
    \<le> s * (of_nat (pc_next_allowed p') - of_nat (pc_next_allowed p) + of_nat n / 2)"
  using assms(1,2,6)
proof (induction us arbitrary: p w n b)
  case (Cons u us)
  have s: "0 < s" using share by (simp add: f64_share_def)
  obtain cancelled w1 where waited: "wait (pc_next_allowed p) w = (cancelled, w1)" by fastforce
  show ?case
  proof (cases cancelled)
    case True
    then show ?thesis using Cons.prems(1) waited by (auto simp: untimed_def run_cancelable_before_start_def)
  next
    case False
    then have "untimed (wait (pc_next_allowed p)) (w, b) = (False, w1, b)" using waited by (simp add: untimed_def)
    from paced_units_unit [OF Cons.prems(1) [unfolded list.map] this]
    obtain r p1 w2 b1 m where ready: "run_ready (untimed now) p (timed clock u) (w1, b) = Some (r, p1, w2, b1)"
      and rest: "paced_units (untimed now) (\<lambda>t. untimed (wait t)) p1 (map (timed clock) us) (w2, b1) = Some (m, p', w', b')"
      and n: "n = Suc m" by (metis surj_pair)
    have unit: "pc_db_share p1 = pc_db_share p" "(of_nat b1 - of_nat b) * (1 - 5 / 2 ^ 53) / s - 1 / 2
        \<le> of_nat (pc_next_allowed p1) - (of_nat (clock w1) :: rat)"
      using run_ready_charges [OF ready] share read Cons.prems(2,3) by simp_all
    have later: "(of_nat b' - of_nat b1) * (1 - 5 / 2 ^ 53)
        \<le> s * (of_nat (pc_next_allowed p') - of_nat (pc_next_allowed p1) + of_nat m / 2)"
      using Cons.prems(2,3) unit(1) by (intro Cons.IH [OF rest]) simp_all
    have "(of_nat (pc_next_allowed p) :: rat) \<le> of_nat (clock w1)" using wait waited False by simp
    then have "(of_nat b1 - of_nat b) * (1 - 5 / 2 ^ 53) / s
        \<le> of_nat (pc_next_allowed p1) - of_nat (pc_next_allowed p) + 1 / 2"
      using unit(2) by simp
    then have "(of_nat b1 - of_nat b) * (1 - 5 / 2 ^ 53)
        \<le> s * (of_nat (pc_next_allowed p1) - of_nat (pc_next_allowed p) + 1 / 2)"
      by (simp only: pos_divide_le_eq [OF s] mult.commute [of s])
    then show ?thesis unfolding n by (rule charges_add [OF _ later])
  qed
qed simp

text \<open>
  C26. Under a share \<open>s\<close>, the wall time of the units that run, failed ones included, is at most the
  fraction \<open>s\<close> of the time up to the instant at which the next unit may start, every rounding of
  the cooldowns included: the loss is five roundings of one part in \<open>2 ^ 53\<close> and half a nanosecond
  per unit. The wall time is taken by a stopwatch that the run does not see. The wait must not end
  early, a clock reading must be between the times before and after it, and time must not run
  backwards during a unit.
\<close>
theorem paced_units_respect_share:
  assumes "paced_units (untimed now) (\<lambda>t. untimed (wait t)) p (map (timed clock) us) (w, 0)
      = Some (n, p', w', busy)"
    and "pc_db_share p = Fin s" and "f64_share (Fin s)"
    and "clock_read_by clock now"
    and "\<And>t w w'. wait t w = (False, w') \<Longrightarrow> t \<le> clock w'"
    and "\<And>u w. u \<in> set us \<Longrightarrow> clock w \<le> clock (snd (u w))"
  shows "paced_units now wait p us w = Some (n, p', w')
    \<and> of_nat busy * (1 - 5 / 2 ^ 53)
        \<le> s * (of_nat (pc_next_allowed p') - of_nat (pc_next_allowed p) + of_nat n / 2)"
proof
  show "paced_units now wait p us w = Some (n, p', w')" by (rule paced_units_timed [OF assms(1)])
  have "(of_nat busy - of_nat 0) * (1 - 5 / 2 ^ 53)
      \<le> s * (of_nat (pc_next_allowed p') - of_nat (pc_next_allowed p) + of_nat n / 2)"
    by (rule paced_units_charges [OF assms(1-4)]) (use assms(5,6) in blast)+
  then show "of_nat busy * (1 - 5 / 2 ^ 53)
      \<le> s * (of_nat (pc_next_allowed p') - of_nat (pc_next_allowed p) + of_nat n / 2)"
    by simp
qed

definition sample_units :: "(nat \<Rightarrow> (string + nat) \<times> nat) list" where
  "sample_units = [\<lambda>w. (Inr w, w + 1000000000), \<lambda>w. (Inl ''failed'', w + 2000000000)]"

lemma quarter_share_cooldown:
  assumes "k < 10"
  shows "mul_f64 (k * 1000000000) (f64_div (f64_sub (Fin 1) (Fin (1 / 4))) (Fin (1 / 4)))
    = Some (3 * k * 1000000000)"
proof -
  have q: "fl (3 / 4) = Fin (3 / 4)" "fl 3 = Fin 3" using fl_dyadic [of 3 2] fl_dyadic [of 3 0] by simp_all
  have "f64_of_nat k = Fin (of_nat k)" using assms by (intro f64_of_nat_exact) simp
  moreover have "fl (of_nat k) = Fin (of_nat k)" "fl (3 * of_nat k) = Fin (3 * of_nat k)"
    using fl_dyadic [of k 0] fl_dyadic [of "3 * k" 0] assms by simp_all
  ultimately have "f64_mul (Fin 3) (as_secs_f64 (k * 1000000000)) = Fin (3 * of_nat k)"
    using f64_of_nat_exact [of 0] by (simp add: as_secs_f64_def)
  moreover have "round_half_even (3 * of_nat k * 1000000000) = 3 * int k * 1000000000"
    using round_half_even_of_int [of "3 * int k * 1000000000"] by simp
  ultimately show ?thesis
    using assms by (simp add: mul_f64_def f64_sub_def q from_secs_f64_def duration_bound_def nat_mult_distrib)
qed

theorem paced_units_respect_share_witness:
  "\<exists>p' w'. paced_units (untimed (\<lambda>w. (w, w))) (\<lambda>t. untimed (\<lambda>w. (False, max t w)))
      \<lparr>pc_db_share = Fin (1 / 4), pc_next_allowed = 7, pc_work_count = 0, pc_total_busy = 0\<rparr>
      (map (timed id) sample_units) (7, 0) = Some (2, p', w', 3000000000) \<and>
    pc_next_allowed p' = 12000000007 \<and>
    of_nat 3000000000 * (1 - 5 / 2 ^ 53) \<le> (1 / 4 :: rat) * (of_nat (pc_next_allowed p') - 7 + 1)"
proof -
  let ?p = "\<lparr>pc_db_share = Fin (1 / 4), pc_next_allowed = 7, pc_work_count = 0, pc_total_busy = 0\<rparr>"
  let ?wait = "\<lambda>t w. (False, max t w)"
  have run: "paced_units (untimed (\<lambda>w. (w, w))) (\<lambda>t. untimed (?wait t)) ?p (map (timed id) sample_units) (7, 0)
      = Some (2, \<lparr>pc_db_share = Fin (1 / 4), pc_next_allowed = 12000000007, pc_work_count = 2,
                  pc_total_busy = 3000000000\<rparr>, 6000000007, 3000000000)"
    using quarter_share_cooldown [of 1] quarter_share_cooldown [of 2]
    by (simp add: sample_units_def run_cancelable_before_start_def run_ready_def Let_def instant_add_def
        instant_bound_def duration_saturating_add_def duration_bound_def saturating_add_def untimed_def timed_def)
  have share: "f64_share (Fin (1 / 4))"
    unfolding f64_share_def using round_pos_dyadic [of 1 2] by (intro exI [of _ "1 / 4"]) simp
  have "of_nat 3000000000 * (1 - 5 / 2 ^ 53) \<le> (1 / 4 :: rat) * (of_nat 12000000007 - 7 + 1)"
    using paced_units_respect_share [OF run _ share]
    by (simp add: sample_units_def all_conj_distrib clock_read_by_def)
  then show ?thesis unfolding run by simp
qed

end
