(* ===== verification/Database.thy ===== *)
theory Database
  imports Effects Pacer Measure TunerConfig "HOL-Library.Multiset"
begin

unbundle bit_operations_syntax

text \<open>
  The measurement of one sample in a PostgreSQL session (\<open>seam/src/database.rs\<close>): the SQL text, the
  sweep order, the transaction from \<open>BEGIN\<close> to \<open>COMMIT\<close> or \<open>ROLLBACK\<close>, and the session with its pacer.
  The client library is the environment: a service that answers each request with rows, an error, or
  the client timeout, and a clock. The facts show which statements are sent in which order, that no
  transaction is left open in a session that stays in use, and that a sample that was measured has the
  shape the measurement of a part requires.
\<close>

section \<open>The client library\<close>

datatype pg_request =
    Pg_BeginRepeatableRead
  | Pg_Execute string
  | Pg_Query string "f32_bits list"
  | Pg_Commit
  | Pg_Rollback

text \<open>A driver error: whether the connection is closed, and its message.\<close>

record pg_error =
  pe_is_closed :: bool
  pe_text :: string

datatype pg_type = Pg_Int2 | Pg_Int4 | Pg_Int8 | Pg_OtherType string

text \<open>A row: the type of its first column, and what \<open>try_get\<close> returns at each type asked for.\<close>

record pg_row =
  row_key_type :: pg_type
  row_key_i16 :: "pg_error + 16 word"
  row_key_i32 :: "pg_error + 32 word"
  row_key_i64 :: "pg_error + 64 word"
  row_distance :: "pg_error + f64"

datatype pg_answer = Pg_Elapsed | Pg_Failed pg_error | Pg_Done "pg_row list"

definition pg_ok :: "pg_answer \<Rightarrow> bool" where
  "pg_ok a = (case a of Pg_Done _ \<Rightarrow> True | _ \<Rightarrow> False)"

record 'w pg_client =
  pg_clock :: "'w \<Rightarrow> instant"
  pg_serve :: "('w, pg_request, pg_answer) service"

type_synonym ('w, 'a) sample_io = "('w, sample_measure_error, 'a) io"

section \<open>Text\<close>

text \<open>\<open>Duration\<close> printed with \<open>{:?}\<close>: the decimal without trailing zeros, and a unit.\<close>

definition show_decimal :: "nat \<Rightarrow> nat \<Rightarrow> nat \<Rightarrow> string" where
  "show_decimal whole width fraction =
     (let digits = rev (dropWhile (\<lambda>c. c = CHR ''0'') (rev (if width = 0 then [] else show_padded width fraction)))
      in show_nat whole @ (if digits = [] then [] else ''.'' @ digits))"

definition show_duration :: "duration \<Rightarrow> string" where
  "show_duration d =
     (if 1000000000 \<le> d then show_decimal (d div 1000000000) 9 (d mod 1000000000) @ ''s''
      else if 1000000 \<le> d then show_decimal (d div 1000000) 6 (d mod 1000000) @ ''ms''
      else if 1000 \<le> d then show_decimal (d div 1000) 3 (d mod 1000) @ [CHR 0xC2, CHR 0xB5] @ ''s''
      else show_nat d @ ''ns'')"

fun sample_error_text :: "sample_measure_error \<Rightarrow> string" where
  "sample_error_text (ME_Database e) = ''database sample measurement failed: '' @ e"
| "sample_error_text (ME_Connection e) = ''database connection unavailable: '' @ e"
| "sample_error_text ME_CancelledBeforeTransaction = ''sample measurement cancelled before transaction start''"
| "sample_error_text (ME_TableSmallerThanK returned k) =
     ''table returned '' @ show_nat returned @ '' rows, fewer than k='' @ show_nat (unat k)"

definition quote_identifier :: "string \<Rightarrow> string" where
  "quote_identifier identifier =
     [CHR 0x22] @ concat (map (\<lambda>c. if c = CHR 0x22 then [CHR 0x22, CHR 0x22] else [c]) identifier) @ [CHR 0x22]"

definition ground_truth_sql :: "aggregation_config \<Rightarrow> string" where
  "ground_truth_sql config =
     (let key = quote_identifier (ac_key config); column = quote_identifier (ac_column config);
          table = quote_identifier (ac_table config) in
      ''SELECT '' @ key @ '', '' @ column @ '' <=> $1::vector AS distance FROM '' @ table
      @ '' ORDER BY '' @ column @ '' <=> $1::vector ASC, '' @ key @ '' ASC LIMIT ''
      @ show_nat (unat (ac_k config)))"

definition ann_sql :: "aggregation_config \<Rightarrow> string" where
  "ann_sql config =
     (let key = quote_identifier (ac_key config); column = quote_identifier (ac_column config);
          table = quote_identifier (ac_table config) in
      ''SELECT '' @ key @ '' FROM '' @ table @ '' ORDER BY '' @ column @ '' <=> $1::vector ASC LIMIT ''
      @ show_nat (unat (ac_k config)))"

definition statement_timeout_sql :: "duration \<Rightarrow> string" where
  "statement_timeout_sql timeout =
     ''SET LOCAL statement_timeout = '' @ [CHR 0x27] @ show_nat ((timeout + 999999) div 1000000)
     @ ''ms'' @ [CHR 0x27]"

section \<open>The sweep order\<close>

definition xorshift :: "u64 \<Rightarrow> u64" where
  "xorshift state =
     (let state = state XOR drop_bit 12 state; state = state XOR push_bit 25 state
      in state XOR drop_bit 27 state)"

definition list_swap :: "'a list \<Rightarrow> nat \<Rightarrow> nat \<Rightarrow> 'a list" where
  "list_swap xs i j = xs[i := xs ! j, j := xs ! i]"

text \<open>The loop from \<open>index\<close> down to 1; both positions of a swap are in range (\<open>sweep_shuffle_in_range\<close>).\<close>

definition sweep_draw :: "u64 \<Rightarrow> nat \<Rightarrow> nat" where
  "sweep_draw state index =
     (let draw = drop_bit 33 (state * 0x2545F4914F6CDD1D) in unat (draw mod (word_of_nat index + 1)))"

fun sweep_shuffle :: "nat \<Rightarrow> u64 \<Rightarrow> int list \<Rightarrow> int list" where
  "sweep_shuffle 0 state order = order"
| "sweep_shuffle (Suc i) state order =
     (let state = xorshift state
      in sweep_shuffle i state (list_swap order (Suc i) (sweep_draw state (Suc i))))"

definition sweep_order :: "f32_bits list \<Rightarrow> int list \<Rightarrow> int list" where
  "sweep_order vector grid =
     sweep_shuffle (length grid - 1) (fnv1a64 (concat (map u32_to_le_bytes vector)) OR 1) grid"

section \<open>One statement\<close>

definition database_sample_error :: "pg_error \<Rightarrow> sample_measure_error" where
  "database_sample_error e = (if pe_is_closed e then ME_Connection (pe_text e) else ME_Database (pe_text e))"

definition client_operation ::
  "'w pg_client \<Rightarrow> duration \<Rightarrow> string \<Rightarrow> pg_request \<Rightarrow> ('w, pg_row list) sample_io" where
  "client_operation pg client_timeout operation request w =
     (case pg_serve pg request w of
        (Pg_Done rows, w) \<Rightarrow> (Inr rows, w)
      | (Pg_Failed e, w) \<Rightarrow> (Inl (database_sample_error e), w)
      | (Pg_Elapsed, w) \<Rightarrow>
          (Inl (ME_Connection (operation @ '' exceeded client timeout '' @ show_duration client_timeout)), w))"

definition begin_sample_transaction :: "'w pg_client \<Rightarrow> duration \<Rightarrow> ('w, pg_row list) sample_io" where
  "begin_sample_transaction pg client_timeout =
     client_operation pg client_timeout ''begin transaction'' Pg_BeginRepeatableRead"

definition execute_counted :: "'w pg_client \<Rightarrow> duration \<Rightarrow> string \<Rightarrow> ('w, pg_row list) sample_io" where
  "execute_counted pg client_timeout sql =
     client_operation pg client_timeout ''execute transaction setting'' (Pg_Execute sql)"

text \<open>A transaction dropped without an answer to its end is rolled back by the library, if ever.\<close>

definition finish_transaction ::
  "'w pg_client \<Rightarrow> duration \<Rightarrow> sample_measure_error + 'a \<Rightarrow> ('w, 'a) sample_io" where
  "finish_transaction pg client_timeout result w =
     (case result of
        Inl (ME_Connection _) \<Rightarrow> (result, w)
      | Inr value \<Rightarrow>
          (case client_operation pg client_timeout ''commit transaction'' Pg_Commit w of
             (Inr _, w) \<Rightarrow> (Inr value, w)
           | (Inl e, w) \<Rightarrow> (Inl (ME_Connection (''transaction commit failed: '' @ sample_error_text e)), w))
      | Inl primary \<Rightarrow>
          (case client_operation pg client_timeout ''rollback transaction'' Pg_Rollback w of
             (Inr _, w) \<Rightarrow> (Inl primary, w)
           | (Inl rollback, w) \<Rightarrow>
               (Inl (ME_Connection (sample_error_text primary @ ''; transaction rollback also failed: ''
                                    @ sample_error_text rollback)), w)))"

fun pg_type_text :: "pg_type \<Rightarrow> string" where
  "pg_type_text Pg_Int2 = ''int2''"
| "pg_type_text Pg_Int4 = ''int4''"
| "pg_type_text Pg_Int8 = ''int8''"
| "pg_type_text (Pg_OtherType t) = t"

definition decode_key :: "pg_row \<Rightarrow> sample_measure_error + int" where
  "decode_key row =
     (case row_key_type row of
        Pg_Int2 \<Rightarrow> map_err database_sample_error (map_sum id sint (row_key_i16 row))
      | Pg_Int4 \<Rightarrow> map_err database_sample_error (map_sum id sint (row_key_i32 row))
      | Pg_Int8 \<Rightarrow> map_err database_sample_error (map_sum id sint (row_key_i64 row))
      | observed \<Rightarrow> Inl (ME_Database (''key column must be int2, int4, or int8; PostgreSQL returned ''
                                     @ pg_type_text observed)))"

definition decode_keys :: "pg_row list \<Rightarrow> sample_measure_error + int list" where
  "decode_keys rows = res_map decode_key rows"

definition decode_ground_truth :: "pg_row list \<Rightarrow> sample_measure_error + (int list \<times> f64 list)" where
  "decode_ground_truth rows =
     res_bind (decode_keys rows) (\<lambda>keys.
     res_bind (res_map (\<lambda>row. map_err database_sample_error (row_distance row)) rows) (\<lambda>distances.
     Inr (keys, distances)))"

section \<open>One transaction\<close>

definition latency_ms :: "instant \<Rightarrow> instant \<Rightarrow> f64" where
  "latency_ms started ended = f64_mul (as_secs_f64 (ended - started)) (Fin 1000)"

fun math_error_text :: "math_error \<Rightarrow> string" where
  "math_error_text ZeroK = ''recall k must be at least 1''"
| "math_error_text EmptyQuantile = ''type-7 quantile requires at least one value''"
| "math_error_text InvalidQuantileProbability = ''quantile probability must be finite and in [0, 1]''"
| "math_error_text NonFiniteQuantileValue = ''quantile values must all be finite''"
| "math_error_text EmptyEfGrid = ''ef selection requires a non-empty grid''"
| "math_error_text InvalidSelectionInput =
     ''ef selection requires finite scores in [0, 1] and threshold in (0, 1]''"
| "math_error_text InvalidConfidenceInput =
     ''confidence requires m <= n and finite percentile in (0, 1)''"
| "math_error_text InvalidTrainFraction =
     ''train fraction must round to a split threshold in 1..=9999''"
| "math_error_text IndexPanic = ''index out of bounds''"

definition measure_sweep ::
  "'w pg_client \<Rightarrow> duration \<Rightarrow> f32_bits list \<Rightarrow> aggregation_config \<Rightarrow> int list \<Rightarrow> int
     \<Rightarrow> ('w, sample_sweep_result) sample_io" where
  "measure_sweep pg client_timeout vector config gt_keys ef =
     io_bind (execute_counted pg client_timeout (''SET LOCAL hnsw.ef_search = '' @ show_int ef)) (\<lambda>_.
     io_bind (io_read (pg_clock pg)) (\<lambda>started.
     io_bind (client_operation pg client_timeout ''ANN query'' (Pg_Query (ann_sql config) vector)) (\<lambda>rows.
     io_bind (io_read (pg_clock pg)) (\<lambda>ended.
     io_bind (io_lift (decode_keys rows)) (\<lambda>returned_keys.
     io_bind (io_lift (map_err (ME_Database \<circ> math_error_text) (recall_at_k gt_keys returned_keys (ac_k config))))
       (\<lambda>recall.
     io_pure \<lparr>sw_ef = ef, sw_returned_keys = returned_keys, sw_recall = recall,
              sw_latency_ms = latency_ms started ended\<rparr>))))))"

definition measure_ground_truth ::
  "'w pg_client \<Rightarrow> duration \<Rightarrow> f32_bits list \<Rightarrow> aggregation_config
     \<Rightarrow> ('w, int list \<times> f64 list \<times> f64) sample_io" where
  "measure_ground_truth pg client_timeout vector config =
     io_bind (io_read (pg_clock pg)) (\<lambda>started.
     io_bind (client_operation pg client_timeout ''ground-truth query'' (Pg_Query (ground_truth_sql config) vector))
       (\<lambda>rows.
     io_bind (io_read (pg_clock pg)) (\<lambda>ended.
     io_bind (io_lift (if length rows < unat (ac_k config)
                       then Inl (ME_TableSmallerThanK (length rows) (ac_k config)) else Inr ())) (\<lambda>_.
     io_bind (io_lift (decode_ground_truth rows)) (\<lambda>(gt_keys, gt_distances).
     io_pure (gt_keys, gt_distances, latency_ms started ended))))))"

definition measure_in_transaction ::
  "'w pg_client \<Rightarrow> duration \<Rightarrow> duration \<Rightarrow> f32_bits list \<Rightarrow> aggregation_config
     \<Rightarrow> ('w, sample_measurement) sample_io" where
  "measure_in_transaction pg statement_timeout client_timeout vector config =
     io_bind (execute_counted pg client_timeout (statement_timeout_sql statement_timeout)) (\<lambda>_.
     io_bind (execute_counted pg client_timeout ''SET LOCAL enable_indexscan = off'') (\<lambda>_.
     io_bind (measure_ground_truth pg client_timeout vector config) (\<lambda>(gt_keys, gt_distances, latency).
     io_bind (execute_counted pg client_timeout ''SET LOCAL enable_indexscan = on'') (\<lambda>_.
     io_bind (io_map (measure_sweep pg client_timeout vector config gt_keys)
                (sweep_order vector (ac_ef_grid config))) (\<lambda>sweeps.
     io_pure \<lparr>sp_gt_keys = gt_keys, sp_gt_distances = gt_distances, sp_ground_truth_latency_ms = latency,
              sp_sweeps = sort_key sw_ef sweeps\<rparr>)))))"

definition run_sample_transaction ::
  "'w pg_client \<Rightarrow> duration \<Rightarrow> duration \<Rightarrow> f32_bits list \<Rightarrow> aggregation_config
     \<Rightarrow> ('w, sample_measurement) sample_io" where
  "run_sample_transaction pg statement_timeout client_timeout vector config =
     io_bind (begin_sample_transaction pg client_timeout) (\<lambda>_ w.
     case measure_in_transaction pg statement_timeout client_timeout vector config w of
       (result, w) \<Rightarrow> finish_transaction pg client_timeout result w)"

section \<open>The session\<close>

datatype database_connection_error =
    InvalidServer string
  | MissingPasswordEnvironment string
  | NonUnicodePasswordEnvironment string
  | DC_Pacer pacer_error
  | DC_Connect pg_error
  | ConnectTimeout duration
  | DC_Driver pg_error
  | DC_DriverTask

text \<open>\<open>str::rsplit_once\<close>, \<open>strip_prefix\<close> and \<open>strip_suffix\<close> on one character.\<close>

definition rsplit_once :: "char \<Rightarrow> string \<Rightarrow> (string \<times> string) option" where
  "rsplit_once d s =
     (if d \<in> set s
      then Some (rev (tl (dropWhile (\<lambda>c. c \<noteq> d) (rev s))), rev (takeWhile (\<lambda>c. c \<noteq> d) (rev s)))
      else None)"

definition strip_brackets :: "string \<Rightarrow> string option" where
  "strip_brackets s =
     (if s \<noteq> [] \<and> hd s = CHR ''['' then
        let value = tl s in if value \<noteq> [] \<and> last value = CHR '']'' then Some (butlast value) else None
      else None)"

definition parse_server :: "string \<Rightarrow> database_connection_error + (string \<times> nat)" where
  "parse_server server =
     res_bind (ok_or (rsplit_once CHR '':'' server) (InvalidServer server)) (\<lambda>(host, port).
     let host = (case strip_brackets host of Some value \<Rightarrow> value | None \<Rightarrow> host) in
     res_bind (ok_or (parse_unsigned 65536 port) (InvalidServer server)) (\<lambda>port.
     if host = [] then Inl (InvalidServer server) else Inr (host, port)))"

record pg_config =
  pgc_host :: string
  pgc_port :: nat
  pgc_dbname :: string
  pgc_user :: string
  pgc_application_name :: string
  pgc_connect_timeout :: duration
  pgc_password :: "string option"

datatype var_error = NotPresent | NotUnicode

datatype connect_answer = Connect_Elapsed | Connect_Failed pg_error | Connected

datatype driver_answer = Driver_Ok | Driver_Failed pg_error | Driver_Cancelled | Driver_Panicked

text \<open>Whether the session still owns its client and its driver task, and the rest of its state.\<close>

record database_connection =
  dc_client :: bool
  dc_driver :: bool
  dc_pacer :: pacer
  dc_statement_timeout :: duration
  dc_client_timeout :: duration

definition password_of ::
  "(string \<Rightarrow> var_error + string) \<Rightarrow> data_source_config \<Rightarrow> database_connection_error + string option" where
  "password_of env_var data_source =
     (case ds_password_env data_source of
        None \<Rightarrow> Inr None
      | Some name \<Rightarrow>
          map_sum (\<lambda>e. case e of NotPresent \<Rightarrow> MissingPasswordEnvironment name
                       | NotUnicode \<Rightarrow> NonUnicodePasswordEnvironment name) Some (env_var name))"

definition connect ::
  "'w pg_client \<Rightarrow> (string \<Rightarrow> var_error + string) \<Rightarrow> (pg_config \<Rightarrow> 'w \<Rightarrow> connect_answer \<times> 'w)
     \<Rightarrow> data_source_config \<Rightarrow> budget_config \<Rightarrow> ('w, database_connection_error, database_connection) io" where
  "connect pg env_var attempt data_source budget =
     io_bind (io_lift (parse_server (ds_server data_source))) (\<lambda>(host, port).
     io_bind (io_lift (password_of env_var data_source)) (\<lambda>password.
     io_bind (\<lambda>w.
       case attempt \<lparr>pgc_host = host, pgc_port = port, pgc_dbname = ds_database data_source,
                     pgc_user = ds_user data_source, pgc_application_name = ''vectorseam-seam'',
                     pgc_connect_timeout = bud_client_timeout budget, pgc_password = password\<rparr> w of
         (Connected, w) \<Rightarrow> (Inr (), w)
       | (Connect_Failed e, w) \<Rightarrow> (Inl (DC_Connect e), w)
       | (Connect_Elapsed, w) \<Rightarrow> (Inl (ConnectTimeout (bud_client_timeout budget)), w)) (\<lambda>_.
     io_bind (io_read (pg_clock pg)) (\<lambda>now.
     io_bind (io_lift (map_err DC_Pacer (pacer_new (bud_db_share budget) now))) (\<lambda>pacer.
     io_pure \<lparr>dc_client = True, dc_driver = True, dc_pacer = pacer,
              dc_statement_timeout = bud_statement_timeout budget,
              dc_client_timeout = bud_client_timeout budget\<rparr>)))))"

definition close :: "database_connection \<Rightarrow> driver_answer \<Rightarrow> database_connection_error + unit" where
  "close c driver =
     (if \<not> dc_driver c then Inr ()
      else case driver of
             Driver_Ok \<Rightarrow> Inr ()
           | Driver_Failed e \<Rightarrow> Inl (DC_Driver e)
           | _ \<Rightarrow> Inl DC_DriverTask)"

definition abandon :: "database_connection \<Rightarrow> driver_answer \<Rightarrow> database_connection_error + unit" where
  "abandon c driver =
     (if \<not> dc_driver c then Inr ()
      else case driver of
             Driver_Cancelled \<Rightarrow> Inr ()
           | Driver_Panicked \<Rightarrow> Inl DC_DriverTask
           | Driver_Failed e \<Rightarrow> Inl (DC_Driver e)
           | Driver_Ok \<Rightarrow> Inr ())"

definition is_closed :: "('w \<Rightarrow> bool) \<Rightarrow> database_connection \<Rightarrow> 'w \<Rightarrow> bool" where
  "is_closed client_is_closed c w = (if dc_client c then client_is_closed w else True)"

definition measure_sample ::
  "'w pg_client \<Rightarrow> (instant \<Rightarrow> 'w \<Rightarrow> bool \<times> 'w) \<Rightarrow> database_connection \<Rightarrow> f32_bits list
     \<Rightarrow> aggregation_config \<Rightarrow> 'w
     \<Rightarrow> ((sample_measure_error + sample_measurement) \<times> database_connection \<times> 'w) option" where
  "measure_sample pg wait c vector config w =
     (if \<not> dc_client c then Some (Inl (ME_Connection ''PostgreSQL connection is closed''), c, w)
      else
      map_option (\<lambda>(outcome, p, w).
          (res_bind outcome (\<lambda>run. case run of Completed measurement \<Rightarrow> Inr measurement
                                   | CancelledBeforeStart \<Rightarrow> Inl ME_CancelledBeforeTransaction),
           c\<lparr>dc_pacer := p\<rparr>, w))
        (run_cancelable_before_start (\<lambda>w. (pg_clock pg w, w)) wait (dc_pacer c)
           (run_sample_transaction pg (dc_statement_timeout c) (dc_client_timeout c) vector config) w))"

section \<open>Facts\<close>

lemma sweep_draw_le: "index < 2 ^ 63 \<Longrightarrow> sweep_draw state index \<le> index"
proof -
  assume i: "index < 2 ^ 63"
  then have u: "unat (word_of_nat index + 1 :: u64) = index + 1"
    by (simp add: unat_word_ariths unsigned_of_nat take_bit_nat_eq_self)
  then have "0 < (word_of_nat index + 1 :: u64)" by (simp add: word_less_nat_alt)
  then have "drop_bit 33 (state * 0x2545F4914F6CDD1D) mod (word_of_nat index + 1) < (word_of_nat index + 1 :: u64)"
    by (rule word_mod_less_divisor)
  then show ?thesis using u by (simp add: sweep_draw_def word_less_nat_alt)
qed

lemma list_swap_facts [simp]:
  "length (list_swap xs i j) = length xs"
  "i < length xs \<Longrightarrow> j < length xs \<Longrightarrow> mset (list_swap xs i j) = mset xs"
  by (simp_all add: list_swap_def mset_swap)

text \<open>Every position the shuffle swaps is in range.\<close>

lemma sweep_shuffle_in_range:
  "i < length order \<Longrightarrow> length order < 2 ^ 63 \<Longrightarrow> sweep_draw state i < length order"
  using sweep_draw_le [of i state] by simp

lemma sweep_shuffle_mset:
  "i < length order \<Longrightarrow> length order < 2 ^ 63 \<Longrightarrow> mset (sweep_shuffle i state order) = mset order"
proof (induction i state order rule: sweep_shuffle.induct)
  case (2 i state order)
  then show ?case
    using sweep_shuffle_in_range [of "Suc i" order] by (simp add: Let_def)
qed simp

lemma sweep_order_mset: "length grid < 2 ^ 63 \<Longrightarrow> mset (sweep_order vector grid) = mset grid"
  by (cases grid) (simp_all add: sweep_order_def sweep_shuffle_mset)


lemma rsplit_once_append: "d \<notin> set b \<Longrightarrow> rsplit_once d (a @ d # b) = Some (a, b)"
  by (simp add: rsplit_once_def dropWhile_append takeWhile_append)

text \<open>A server is a host, in brackets if it has colons of its own, and a port.\<close>

lemma parse_server_accepts:
  assumes "port < 65536" and "host \<noteq> []"
  shows "hd host \<noteq> CHR ''['' \<Longrightarrow> parse_server (host @ CHR '':'' # show_nat port) = Inr (host, port)"
    and "parse_server ([CHR ''[''] @ host @ [CHR '']'', CHR '':''] @ show_nat port) = Inr (host, port)"
proof -
  have colon: "CHR '':'' \<notin> set (show_nat port)" using show_nat_chars [of "CHR '':''" port] by auto
  have port: "parse_unsigned 65536 (show_nat port) = Some port" by (rule parse_show_nat [OF assms(1)])
  show "hd host \<noteq> CHR ''['' \<Longrightarrow> parse_server (host @ CHR '':'' # show_nat port) = Inr (host, port)"
    by (simp add: parse_server_def rsplit_once_append [OF colon] strip_brackets_def port assms)
  show "parse_server ([CHR ''[''] @ host @ [CHR '']'', CHR '':''] @ show_nat port) = Inr (host, port)"
    using rsplit_once_append [OF colon, of "[CHR ''[''] @ host @ [CHR '']'']"]
    by (simp add: parse_server_def strip_brackets_def port assms)
qed

section \<open>The transaction\<close>

definition pg_logged :: "'w pg_client \<Rightarrow> ('w, pg_request \<times> pg_answer) logging pg_client" where
  "pg_logged pg = \<lparr>pg_clock = pg_clock pg \<circ> fst, pg_serve = logged (pg_serve pg)\<rparr>"

text \<open>The statements of a transaction that meets no error, between its begin and its commit.\<close>

definition sample_script :: "duration \<Rightarrow> f32_bits list \<Rightarrow> aggregation_config \<Rightarrow> pg_request list" where
  "sample_script statement_timeout vector config =
     [Pg_Execute (statement_timeout_sql statement_timeout), Pg_Execute ''SET LOCAL enable_indexscan = off'',
      Pg_Query (ground_truth_sql config) vector, Pg_Execute ''SET LOCAL enable_indexscan = on'']
     @ concat (map (\<lambda>ef. [Pg_Execute (''SET LOCAL hnsw.ef_search = '' @ show_int ef),
                          Pg_Query (ann_sql config) vector]) (sweep_order vector (ac_ef_grid config)))"

text \<open>
  A request is lost when no answer came in time or its connection was closed: the server may have served
  it or not. A refusal is the server's own answer.
\<close>

definition pg_lost :: "pg_answer \<Rightarrow> bool" where
  "pg_lost a = (case a of Pg_Elapsed \<Rightarrow> True | Pg_Failed e \<Rightarrow> pe_is_closed e | Pg_Done _ \<Rightarrow> False)"

definition pg_refused :: "pg_answer \<Rightarrow> bool" where
  "pg_refused a = (case a of Pg_Failed e \<Rightarrow> \<not> pe_is_closed e | _ \<Rightarrow> False)"

abbreviation none_lost :: "(pg_request \<times> pg_answer) list \<Rightarrow> bool" where
  "none_lost t \<equiv> list_all (\<lambda>x. \<not> pg_lost (snd x)) t"

definition transaction_log ::
  "pg_request list \<Rightarrow> sample_measure_error + 'a \<Rightarrow> (pg_request \<times> pg_answer) list \<Rightarrow> bool" where
  "transaction_log script r t \<longleftrightarrow>
     (\<exists>a. t = [(Pg_BeginRepeatableRead, a)] \<and>
        (pg_lost a \<and> (\<exists>e. r = Inl (ME_Connection e)) \<or> pg_refused a \<and> (\<exists>e. r = Inl (ME_Database e)))) \<or>
     (\<exists>a body fin. t = (Pg_BeginRepeatableRead, a) # body @ fin \<and> pg_ok a \<and> prefix (map fst body) script \<and>
        (fin \<noteq> [] \<longrightarrow> none_lost body) \<and>
        (case r of
           Inr _ \<Rightarrow> map fst body = script \<and> list_all (pg_ok \<circ> snd) body \<and> (\<exists>a. fin = [(Pg_Commit, a)] \<and> pg_ok a)
         | Inl (ME_Connection _) \<Rightarrow> fin = [] \<or> (\<exists>q a. fin = [(q, a)] \<and> q \<in> {Pg_Commit, Pg_Rollback} \<and> \<not> pg_ok a)
         | Inl _ \<Rightarrow> \<exists>a. fin = [(Pg_Rollback, a)] \<and> pg_ok a))"

lemma client_operation_logged:
  "client_operation (pg_logged pg) timeout operation request (w, l) =
     (case pg_serve pg request w of (a, w) \<Rightarrow>
        (case a of Pg_Done rows \<Rightarrow> Inr rows
         | Pg_Failed e \<Rightarrow> Inl (database_sample_error e)
         | Pg_Elapsed \<Rightarrow> Inl (ME_Connection (operation @ '' exceeded client timeout '' @ show_duration timeout)),
         (w, l @ [(request, a)])))"
  by (auto simp: client_operation_def pg_logged_def logged_def split: prod.splits pg_answer.splits)

lemma pg_answer_kinds:
  "pg_ok a \<Longrightarrow> \<not> pg_lost a" "pg_refused a \<Longrightarrow> \<not> pg_lost a" "pg_ok a \<or> pg_lost a \<or> pg_refused a"
  by (cases a; simp add: pg_ok_def pg_lost_def pg_refused_def)+

lemma client_operation_trace:
  "traces (client_operation (pg_logged pg) timeout operation request)
     (\<lambda>r t. \<exists>a. t = [(request, a)] \<and> is_ok r = pg_ok a
        \<and> (pg_lost a \<longrightarrow> (\<exists>e. r = Inl (ME_Connection e))) \<and> (pg_refused a \<longrightarrow> (\<exists>e. r = Inl (ME_Database e))))"
  by (rule tracesI)
    (auto simp: client_operation_logged pg_ok_def pg_lost_def pg_refused_def database_sample_error_def
      split: prod.splits pg_answer.splits)

text \<open>A lost request is the last one before the end, and its error is a connection failure.\<close>

definition lost_reported :: "sample_measure_error + 'a \<Rightarrow> (pg_request \<times> pg_answer) list \<Rightarrow> bool" where
  "lost_reported r t \<longleftrightarrow> none_lost t \<or> (\<exists>e. r = Inl (ME_Connection e)) \<and> none_lost (butlast t)"

lemma lost_lift: "traces (io_lift r) lost_reported"
  by (rule traces_lift) (simp add: lost_reported_def)

lemma lost_read: "traces (io_read f) lost_reported"
  by (rule traces_read) (simp add: lost_reported_def)

lemma lost_operation:
  "traces (client_operation (pg_logged pg) timeout operation request) lost_reported"
  by (rule traces_weaken [OF client_operation_trace]) (auto simp: lost_reported_def)

lemma lost_bind:
  assumes "traces m lost_reported" and "\<And>x. traces (f x) lost_reported"
  shows "traces (io_bind m f) lost_reported"
proof (rule traces_weaken [OF traces_bind [OF assms]], goal_cases)
  case (1 r t)
  then show ?case by (auto simp: lost_reported_def butlast_append)
qed

lemma lost_map: "(\<And>x. traces (f x) lost_reported) \<Longrightarrow> traces (io_map f xs) lost_reported"
  by (induction xs) (auto intro!: lost_bind lost_lift)

lemma lost_transaction:
  "traces (measure_in_transaction (pg_logged pg) st timeout vector config) lost_reported"
  unfolding measure_in_transaction_def measure_ground_truth_def measure_sweep_def execute_counted_def split_def
  by (intro lost_bind lost_map lost_operation lost_read lost_lift)

lemma follows_operation:
  "traces (client_operation (pg_logged pg) timeout operation request) (follows pg_ok [request])"
  by (rule traces_weaken [OF client_operation_trace]) (auto simp: follows_def)

lemma follows_execute:
  "traces (execute_counted (pg_logged pg) timeout sql) (follows pg_ok [Pg_Execute sql])"
  unfolding execute_counted_def by (rule follows_operation)

lemma follows_sweep:
  "traces (measure_sweep (pg_logged pg) timeout vector config gt_keys ef)
     (follows pg_ok [Pg_Execute (''SET LOCAL hnsw.ef_search = '' @ show_int ef), Pg_Query (ann_sql config) vector])"
proof -
  have "traces (measure_sweep (pg_logged pg) timeout vector config gt_keys ef)
     (follows pg_ok ([Pg_Execute (''SET LOCAL hnsw.ef_search = '' @ show_int ef)]
        @ [] @ [Pg_Query (ann_sql config) vector] @ [] @ [] @ [] @ []))"
    unfolding measure_sweep_def
    by (intro follows_bind follows_execute follows_operation follows_read follows_pure)
  then show ?thesis by simp
qed

lemma follows_ground_truth:
  "traces (measure_ground_truth (pg_logged pg) timeout vector config)
     (follows pg_ok [Pg_Query (ground_truth_sql config) vector])"
proof -
  have "traces (measure_ground_truth (pg_logged pg) timeout vector config)
     (follows pg_ok ([] @ [Pg_Query (ground_truth_sql config) vector] @ [] @ [] @ [] @ []))"
    unfolding measure_ground_truth_def split_def
    by (intro follows_bind follows_operation follows_read follows_pure)
  then show ?thesis by simp
qed

lemma follows_transaction:
  "traces (measure_in_transaction (pg_logged pg) st timeout vector config)
     (follows pg_ok (sample_script st vector config))"
proof -
  have "traces (measure_in_transaction (pg_logged pg) st timeout vector config)
     (follows pg_ok ([Pg_Execute (statement_timeout_sql st)] @ [Pg_Execute ''SET LOCAL enable_indexscan = off'']
        @ [Pg_Query (ground_truth_sql config) vector] @ [Pg_Execute ''SET LOCAL enable_indexscan = on'']
        @ concat (map (\<lambda>ef. [Pg_Execute (''SET LOCAL hnsw.ef_search = '' @ show_int ef),
                          Pg_Query (ann_sql config) vector]) (sweep_order vector (ac_ef_grid config))) @ []))"
    unfolding measure_in_transaction_def split_def
    by (intro follows_bind follows_execute follows_ground_truth follows_map follows_sweep follows_pure)
  then show ?thesis by (simp add: sample_script_def)
qed

lemma finish_transaction_logged:
  assumes "finish_transaction (pg_logged pg) timeout r0 (w, l) = (r, (w', l'))"
  shows "\<exists>fin. l' = l @ fin \<and> (fin \<noteq> [] \<longrightarrow> (\<nexists>e. r0 = Inl (ME_Connection e))) \<and>
    (case r of
       Inr _ \<Rightarrow> is_ok r0 \<and> (\<exists>a. fin = [(Pg_Commit, a)] \<and> pg_ok a)
     | Inl (ME_Connection _) \<Rightarrow> fin = [] \<or> (\<exists>q a. fin = [(q, a)] \<and> q \<in> {Pg_Commit, Pg_Rollback} \<and> \<not> pg_ok a)
     | Inl _ \<Rightarrow> \<exists>a. fin = [(Pg_Rollback, a)] \<and> pg_ok a)"
proof (cases r0)
  case (Inl e)
  obtain a v where s: "pg_serve pg Pg_Rollback w = (a, v)" by fastforce
  show ?thesis using assms Inl
    by (cases e; cases a) (auto simp: finish_transaction_def client_operation_logged pg_ok_def s)
next
  case (Inr x)
  obtain a v where s: "pg_serve pg Pg_Commit w = (a, v)" by fastforce
  show ?thesis using assms Inr
    by (cases a) (auto simp: finish_transaction_def client_operation_logged pg_ok_def s)
qed

lemma run_sample_transaction_trace:
  "traces (run_sample_transaction (pg_logged pg) st timeout vector config)
     (transaction_log (sample_script st vector config))"
proof (rule tracesI)
  fix w l r w' l'
  assume run: "run_sample_transaction (pg_logged pg) st timeout vector config (w, l) = (r, (w', l'))"
  obtain r0 w0 l0 where b: "begin_sample_transaction (pg_logged pg) timeout (w, l) = (r0, (w0, l0))"
    by (cases "begin_sample_transaction (pg_logged pg) timeout (w, l)") auto
  obtain a where a: "l0 = l @ [(Pg_BeginRepeatableRead, a)]" "is_ok r0 = pg_ok a"
      "pg_lost a \<longrightarrow> (\<exists>e. r0 = Inl (ME_Connection e))" "pg_refused a \<longrightarrow> (\<exists>e. r0 = Inl (ME_Database e))"
    using tracesD [OF client_operation_trace b [unfolded begin_sample_transaction_def]] by blast
  show "\<exists>t. l' = l @ t \<and> transaction_log (sample_script st vector config) r t"
  proof (cases r0)
    case (Inl e)
    then have "r = Inl e" "l' = l0" using run b by (simp_all add: run_sample_transaction_def io_bind_def)
    then show ?thesis using a Inl pg_answer_kinds(3) [of a] by (auto simp: transaction_log_def)
  next
    case (Inr x)
    obtain r1 w1 l1 where m: "measure_in_transaction (pg_logged pg) st timeout vector config (w0, l0) = (r1, (w1, l1))"
      by (cases "measure_in_transaction (pg_logged pg) st timeout vector config (w0, l0)") auto
    obtain body where body: "l1 = l0 @ body" "follows pg_ok (sample_script st vector config) r1 body"
      using tracesD [OF follows_transaction m] by blast
    have lost: "lost_reported r1 body" using tracesD [OF lost_transaction m] body(1) by auto
    have "finish_transaction (pg_logged pg) timeout r1 (w1, l1) = (r, (w', l'))"
      using run b Inr m by (simp add: run_sample_transaction_def io_bind_def)
    from finish_transaction_logged [OF this] obtain fin where fin: "l' = l1 @ fin"
      "fin \<noteq> [] \<longrightarrow> (\<nexists>e. r1 = Inl (ME_Connection e))"
      "case r of
         Inr _ \<Rightarrow> is_ok r1 \<and> (\<exists>a. fin = [(Pg_Commit, a)] \<and> pg_ok a)
       | Inl (ME_Connection _) \<Rightarrow> fin = [] \<or> (\<exists>q a. fin = [(q, a)] \<and> q \<in> {Pg_Commit, Pg_Rollback} \<and> \<not> pg_ok a)
       | Inl _ \<Rightarrow> \<exists>a. fin = [(Pg_Rollback, a)] \<and> pg_ok a" by blast
    have "transaction_log (sample_script st vector config) r ((Pg_BeginRepeatableRead, a) # body @ fin)"
      using fin(2,3) lost [unfolded lost_reported_def] body(2) a(2) Inr unfolding transaction_log_def follows_def
      by (intro disjI2 exI [of _ a] exI [of _ body] exI [of _ fin])
        (auto split: sum.splits sample_measure_error.splits)
    then show ?thesis using a(1) body(1) fin(1) by auto
  qed
qed

lemma run_ready_result:
  "run_ready (\<lambda>w. (clock w, w)) p work w = Some (r, p', w') \<Longrightarrow> work w = (r, w')"
  by (cases "work w") (auto simp: run_ready_def Let_def split: bind_splits)

lemma measure_sample_cancelled:
  assumes "dc_client c" and "wait (pc_next_allowed (dc_pacer c)) w = (True, w0)"
  shows "measure_sample pg wait c vector config w = Some (Inl ME_CancelledBeforeTransaction, c, w0)"
  using assms by (simp add: measure_sample_def run_cancelable_before_start_def)

lemma measure_sample_ran:
  assumes "measure_sample pg wait c vector config w = Some (r, c', w')"
    and "dc_client c" and "wait (pc_next_allowed (dc_pacer c)) w = (False, w0)"
  shows "run_sample_transaction pg (dc_statement_timeout c) (dc_client_timeout c) vector config w0 = (r, w')"
proof -
  let ?run = "run_sample_transaction pg (dc_statement_timeout c) (dc_client_timeout c) vector config"
  obtain r1 p1 where ready: "run_ready (\<lambda>w. (pg_clock pg w, w)) (dc_pacer c) ?run w0 = Some (r1, p1, w')"
    and r: "r = res_bind (res_bind r1 (\<lambda>x. Inr (Completed x)))
      (\<lambda>run. case run of Completed m \<Rightarrow> Inr m | CancelledBeforeStart \<Rightarrow> Inl ME_CancelledBeforeTransaction)"
    using assms by (auto simp: measure_sample_def run_cancelable_before_start_def)
  have "r = r1" using r by (cases r1) simp_all
  then show ?thesis using run_ready_result [OF ready] by simp
qed

lemma measure_sample_log:
  assumes "measure_sample (pg_logged pg) (\<lambda>t. unlogged (wait t)) c vector config (w, l) = Some (r, c', (w', l'))"
  shows "\<exists>t. l' = l @ t \<and>
    (t = [] \<and> (r = Inl ME_CancelledBeforeTransaction \<and> c' = c \<or> \<not> dc_client c \<and> (\<exists>e. r = Inl (ME_Connection e)))
     \<or> transaction_log (sample_script (dc_statement_timeout c) vector config) r t)"
proof (cases "dc_client c")
  case client: True
  let ?run = "run_sample_transaction (pg_logged pg) (dc_statement_timeout c) (dc_client_timeout c) vector config"
  obtain cancelled w0 where wait: "wait (pc_next_allowed (dc_pacer c)) w = (cancelled, w0)" by fastforce
  show ?thesis
  proof (cases cancelled)
    case True
    have "unlogged (wait (pc_next_allowed (dc_pacer c))) (w, l) = (True, (w0, l))"
      using wait True by (simp add: unlogged_def)
    then have "Some (Inl ME_CancelledBeforeTransaction, c, (w0, l)) = Some (r, c', (w', l'))"
      using measure_sample_cancelled [OF client, of "\<lambda>t. unlogged (wait t)" "(w, l)" "(w0, l)"] assms by metis
    then show ?thesis by auto
  next
    case False
    then have "?run (w0, l) = (r, (w', l'))"
      using wait by (intro measure_sample_ran [OF assms client]) (simp add: unlogged_def)
    from tracesD [OF run_sample_transaction_trace this] show ?thesis by (elim exE conjE) (intro exI conjI disjI2)
  qed
qed (use assms in \<open>auto simp: measure_sample_def\<close>)

text \<open>
  C27. One sample is one transaction: it begins in repeatable read, sends a prefix of the fixed script
  (timeout, exact ground truth with index scans off, then one approximate query for every \<open>ef\<close> of the
  grid in the sweep order), and a measured sample has sent the whole script and committed. A sample that
  failed without a connection failure was rolled back with an acknowledged rollback after answered
  requests only, or the server refused its begin: a transaction with a request that was not answered,
  its begin or its end included, or that met a closed connection is always reported as a connection
  failure. Nothing is sent when the wait for the pacer is
  cancelled, and then the pacer is unchanged.
\<close>

theorem sample_is_one_transaction:
  assumes "measure_sample (pg_logged pg) (\<lambda>t. unlogged (wait t)) c vector config (w, l) = Some (r, c', (w', l'))"
  shows "\<exists>t. l' = l @ t \<and>
    (t = [] \<and> (r = Inl ME_CancelledBeforeTransaction \<and> c' = c \<or> \<not> dc_client c \<and> (\<exists>e. r = Inl (ME_Connection e)))
     \<or> transaction_log (sample_script (dc_statement_timeout c) vector config) r t)"
  by (rule measure_sample_log [OF assms])


section \<open>The measurement\<close>

lemma sort_key_of_permutation:
  fixes f :: "'a \<Rightarrow> 'b::linorder"
  assumes "mset (map f xs) = mset ys" and "sorted ys"
  shows "map f (sort_key f xs) = ys"
proof -
  have "mset (map f (sort_key f xs)) = mset ys"
    using assms(1) by simp
  then have "sort ys = map f (sort_key f xs)" by (intro properties_for_sort) simp_all
  then show ?thesis using assms(2) by (simp add: sorted_sort_id)
qed

definition unit_recall :: "sample_sweep_result \<Rightarrow> bool" where
  "unit_recall s \<longleftrightarrow> (\<exists>q. sw_recall s = Fin q \<and> 0 \<le> q \<and> q \<le> 1)"

lemma returns_ground_truth:
  assumes "\<And>w rows w'. pg_serve pg (Pg_Query (ground_truth_sql config) vector) w = (Pg_Done rows, w')
      \<Longrightarrow> length rows \<le> unat (ac_k config)"
  shows "returns (measure_ground_truth pg timeout vector config)
    (\<lambda>(keys, distances, _). length keys = unat (ac_k config) \<and> length distances = length keys)"
proof -
  have rows: "returns (client_operation pg timeout ''ground-truth query'' (Pg_Query (ground_truth_sql config) vector))
      (\<lambda>rows. length rows \<le> unat (ac_k config))"
    using assms by (auto simp: returns_def client_operation_def split: prod.splits pg_answer.splits)
  show ?thesis
    unfolding measure_ground_truth_def
    by (rule returns_bind [OF returns_True], rule returns_bind [OF rows], rule returns_bind [OF returns_True],
        rule returns_bind [where P = "\<lambda>_. unat (ac_k config) \<le> length _"])
      (auto simp: decode_ground_truth_def decode_keys_def result_simps res_map_length not_less
        intro!: returns_bind [where P = "\<lambda>(keys, distances). length keys = unat (ac_k config) \<and> length distances = length keys"]
          returns_lift split: if_splits)
qed

lemma returns_sweep:
  assumes "length gt_keys \<le> unat (ac_k config)"
  shows "returns (measure_sweep pg timeout vector config gt_keys ef) (\<lambda>s. sw_ef s = ef \<and> unit_recall s)"
proof -
  have recall: "returns (io_lift (map_err (ME_Database \<circ> math_error_text)
      (recall_at_k gt_keys returned (ac_k config)))) (\<lambda>r. \<exists>q. r = Fin q \<and> 0 \<le> q \<and> q \<le> 1)" for returned
  proof (rule returns_lift, goal_cases)
    case (1 r)
    then have "recall_at_k gt_keys returned (ac_k config) = Inr r" by (simp add: result_simps)
    moreover from this have "ac_k config \<noteq> 0" by (auto simp: recall_at_k_def)
    moreover have "card (set gt_keys) \<le> unat (ac_k config)" using assms card_length [of gt_keys] by simp
    ultimately show ?case using recall_unit [of "ac_k config" gt_keys returned] by auto
  qed
  show ?thesis
    unfolding measure_sweep_def
    by (rule returns_bind [OF returns_True], rule returns_bind [OF returns_True],
        rule returns_bind [OF returns_True], rule returns_bind [OF returns_True],
        rule returns_bind [OF returns_True], rule returns_bind [OF recall], rule returns_lift)
      (auto simp: unit_recall_def)
qed


lemma returns_transaction:
  assumes limit: "\<And>w rows w'. pg_serve pg (Pg_Query (ground_truth_sql config) vector) w = (Pg_Done rows, w')
      \<Longrightarrow> length rows \<le> unat (ac_k config)"
    and grid: "sorted (ac_ef_grid config)" "length (ac_ef_grid config) < 2 ^ 63"
  shows "returns (measure_in_transaction pg st timeout vector config)
    (\<lambda>m. measurement_shape_ok config m \<and> list_all unit_recall (sp_sweeps m))"
proof -
  have shape: "measurement_shape_ok config m \<and> list_all unit_recall (sp_sweeps m)"
    if keys: "length (sp_gt_keys m) = unat (ac_k config)" "length (sp_gt_distances m) = length (sp_gt_keys m)"
      and sweeps: "sp_sweeps m = sort_key sw_ef sweeps"
        "list_all2 (\<lambda>ef s. sw_ef s = ef \<and> unit_recall s) (sweep_order vector (ac_ef_grid config)) sweeps" for m sweeps
  proof -
    have "map sw_ef sweeps = sweep_order vector (ac_ef_grid config)"
      using sweeps(2) by (auto simp: list_all2_conv_all_nth intro: nth_equalityI)
    then have "mset (map sw_ef sweeps) = mset (ac_ef_grid config)" using grid(2) by (simp add: sweep_order_mset)
    then have efs: "map sw_ef (sp_sweeps m) = ac_ef_grid config"
      unfolding sweeps(1) using grid(1) by (rule sort_key_of_permutation)
    then have "length (sp_sweeps m) = length (ac_ef_grid config)" by (metis length_map)
    moreover have "list_all (\<lambda>(s, ef). sw_ef s = ef) (zip (sp_sweeps m) (ac_ef_grid config))"
      unfolding efs [symmetric] by (auto simp: list_all_iff set_zip)
    moreover have "list_all unit_recall sweeps"
      using sweeps(2) by (auto simp: list_all_length list_all2_conv_all_nth)
    ultimately show ?thesis
      using keys by (auto simp: measurement_shape_ok_def list_all_iff list_ex_iff sweeps(1) split_def)
  qed
  have tail: "returns (io_bind (execute_counted pg timeout ''SET LOCAL enable_indexscan = on'') (\<lambda>_.
      io_bind (io_map (measure_sweep pg timeout vector config keys) (sweep_order vector (ac_ef_grid config)))
        (\<lambda>sweeps. io_pure \<lparr>sp_gt_keys = keys, sp_gt_distances = distances, sp_ground_truth_latency_ms = latency,
              sp_sweeps = sort_key sw_ef sweeps\<rparr>)))
      (\<lambda>m. measurement_shape_ok config m \<and> list_all unit_recall (sp_sweeps m))"
    if "length keys = unat (ac_k config)" "length distances = length keys" for keys distances latency
  proof (rule returns_bind [OF returns_True], rule returns_bind [OF returns_map [OF returns_sweep]], goal_cases)
    case (2 _ sweeps)
    show ?case by (intro returns_lift shape [OF _ _ _ 2(2)]) (auto simp: that)
  qed (simp add: that)
  have truth: "returns (measure_ground_truth pg timeout vector config)
    (\<lambda>(keys, distances, _). length keys = unat (ac_k config) \<and> length distances = length keys)"
    by (rule returns_ground_truth) (rule limit)
  show ?thesis
    unfolding measure_in_transaction_def
    by (rule returns_bind [OF returns_True], rule returns_bind [OF returns_True], rule returns_bind [OF truth])
      (auto intro: tail)
qed

text \<open>How SQL reads a quoted identifier: a doubled quote is a quote, a single one ends it.\<close>

fun read_quoted :: "string \<Rightarrow> (string \<times> string) option" where
  "read_quoted [] = None"
| "read_quoted (c # cs) =
     (if c \<noteq> CHR 0x22 then map_option (apfst (Cons c)) (read_quoted cs)
      else case cs of
             [] \<Rightarrow> Some ([], [])
           | d # ds \<Rightarrow> if d = CHR 0x22 then map_option (apfst (Cons d)) (read_quoted ds) else Some ([], cs))"

definition read_identifier :: "string \<Rightarrow> (string \<times> string) option" where
  "read_identifier s = (case s of [] \<Rightarrow> None | c # cs \<Rightarrow> if c = CHR 0x22 then read_quoted cs else None)"

definition ends_quote :: "string \<Rightarrow> bool" where
  "ends_quote rest \<longleftrightarrow> rest = [] \<or> hd rest \<noteq> CHR 0x22"

lemma read_quoted_body:
  "ends_quote rest \<Longrightarrow>
   read_quoted (concat (map (\<lambda>c. if c = CHR 0x22 then [CHR 0x22, CHR 0x22] else [c]) s) @ CHR 0x22 # rest)
     = Some (s, rest)"
  by (induction s) (auto simp: ends_quote_def split: list.splits)

text \<open>
  C29. An identifier of the configuration reaches the SQL text only as an identifier: whatever
  characters it has, reading the quoted text back gives exactly the identifier and stops exactly
  where the statement goes on.
\<close>

theorem quoted_identifier_reads_back:
  assumes "ends_quote rest"
  shows "read_identifier (quote_identifier s @ rest) = Some (s, rest)"
  using read_quoted_body [OF assms, of s] by (simp add: read_identifier_def quote_identifier_def)

theorem quoted_identifier_reads_back_witness:
  "read_identifier (quote_identifier [CHR ''a'', CHR 0x22, CHR '';''] @ '' FROM t'')
     = Some ([CHR ''a'', CHR 0x22, CHR '';''], '' FROM t'')"
  by (rule quoted_identifier_reads_back) (simp add: ends_quote_def)

text \<open>
  C28. What a session measures is what the measurement of a part keeps: when the server honours
  \<open>LIMIT\<close>, a successful sample has exactly \<open>k\<close> true keys with their distances and one sweep for each
  \<open>ef\<close> of the grid in the order of the grid, whatever order they were run in, each with a recall in the
  unit interval.
\<close>

theorem measured_sample_has_shape:
  assumes "measure_sample pg wait c vector config w = Some (Inr m, c', w')"
    and "\<And>w rows w'. pg_serve pg (Pg_Query (ground_truth_sql config) vector) w = (Pg_Done rows, w')
      \<Longrightarrow> length rows \<le> unat (ac_k config)"
    and "sorted (ac_ef_grid config)" and "length (ac_ef_grid config) < 2 ^ 63"
  shows "measurement_shape_ok config m \<and> list_all unit_recall (sp_sweeps m)"
proof -
  have client: "dc_client c" using assms(1) by (auto simp: measure_sample_def split: if_splits)
  obtain cancelled w0 where wait: "wait (pc_next_allowed (dc_pacer c)) w = (cancelled, w0)" by fastforce
  have "\<not> cancelled" using assms(1) measure_sample_cancelled [OF client, of wait w w0] wait by auto
  then have run: "run_sample_transaction pg (dc_statement_timeout c) (dc_client_timeout c) vector config w0 = (Inr m, w')"
    using wait by (intro measure_sample_ran [OF assms(1) client]) simp
  then obtain w1 w2 where "measure_in_transaction pg (dc_statement_timeout c) (dc_client_timeout c) vector config w1
      = (Inr m, w2)"
    by (auto simp: run_sample_transaction_def io_bind_def finish_transaction_def
        split: prod.splits sum.splits sample_measure_error.splits)
  moreover have "returns (measure_in_transaction pg (dc_statement_timeout c) (dc_client_timeout c) vector config)
    (\<lambda>m. measurement_shape_ok config m \<and> list_all unit_recall (sp_sweeps m))"
    by (rule returns_transaction [OF _ assms(3,4)]) (rule assms(2))
  ultimately show ?thesis by (blast dest: returnsD)
qed

section \<open>An example session\<close>

definition example_row :: pg_row where
  "example_row = \<lparr>row_key_type = Pg_Int4, row_key_i16 = Inr 0, row_key_i32 = Inr 7, row_key_i64 = Inr 0,
     row_distance = Inr (Fin 0)\<rparr>"

definition example_pg :: "unit pg_client" where
  "example_pg = \<lparr>pg_clock = (\<lambda>_. 0),
     pg_serve = (\<lambda>q w. (case q of Pg_Query _ _ \<Rightarrow> Pg_Done [example_row] | _ \<Rightarrow> Pg_Done [], w))\<rparr>"

definition example_connection :: database_connection where
  "example_connection = \<lparr>dc_client = True, dc_driver = True,
     dc_pacer = \<lparr>pc_db_share = Fin 1, pc_next_allowed = 0, pc_work_count = 0, pc_total_busy = 0\<rparr>,
     dc_statement_timeout = 30000000000, dc_client_timeout = 60000000000\<rparr>"

definition example_sweep :: "int \<Rightarrow> sample_sweep_result" where
  "example_sweep ef = \<lparr>sw_ef = ef, sw_returned_keys = [7], sw_recall = Fin 1, sw_latency_ms = Fin 0\<rparr>"

lemma as_secs_0 [simp]: "as_secs_f64 0 = Fin 0"
  using f64_of_nat_exact [of 0] by (simp add: as_secs_f64_def)

lemma latency_0 [simp]: "latency_ms 0 0 = Fin 0"
  by (simp add: latency_ms_def)

lemma example_operation:
  "\<exists>s'. client_operation (pg_logged example_pg) t op q s = (Inr (case q of Pg_Query _ _ \<Rightarrow> [example_row] | _ \<Rightarrow> []), s')"
  by (cases s; cases q) (simp_all add: client_operation_logged example_pg_def)


lemma example_execute: "\<exists>s'. execute_counted (pg_logged example_pg) t sql s = (Inr [], s')"
  using example_operation [of t _ "Pg_Execute sql"] by (simp add: execute_counted_def)

lemma example_clock: "io_read (pg_clock (pg_logged example_pg)) s = (Inr 0, s)"
  by (simp add: io_read_def pg_logged_def example_pg_def)

lemma example_recall: "recall_at_k [7] [7] 1 = Inr (Fin 1)"
  using f64_of_nat_exact [of 1] by (simp add: recall_at_k_def)

lemma example_decoded: "decode_key example_row = Inr 7" "row_distance example_row = Inr (Fin 0)"
  "ac_k example_part_config = 1"
  by (simp_all add: decode_key_def example_row_def example_part_config_def)

lemma example_measure_sweep:
  "\<exists>s'. measure_sweep (pg_logged example_pg) t vector example_part_config [7] ef s = (Inr (example_sweep ef), s')"
proof -
  obtain s1 where 1: "execute_counted (pg_logged example_pg) t (''SET LOCAL hnsw.ef_search = '' @ show_int ef) s
      = (Inr [], s1)" using example_execute by blast
  obtain s2 where "client_operation (pg_logged example_pg) t ''ANN query'' (Pg_Query (ann_sql example_part_config) vector) s1
      = (Inr [example_row], s2)" using example_operation [of t _ "Pg_Query (ann_sql example_part_config) vector" s1] by auto
  then show ?thesis using 1
    by (intro exI [of _ s2]) (simp add: measure_sweep_def io_bind_def example_clock io_lift_def decode_keys_def
        example_decoded example_sweep_def example_recall)
qed

lemma example_transaction:
  "\<exists>m s'. measure_in_transaction (pg_logged example_pg) st t vector example_part_config s = (Inr m, s')"
proof -
  obtain s1 where 1: "execute_counted (pg_logged example_pg) t (statement_timeout_sql st) s = (Inr [], s1)"
    using example_execute by blast
  obtain s2 where 2: "execute_counted (pg_logged example_pg) t ''SET LOCAL enable_indexscan = off'' s1 = (Inr [], s2)"
    using example_execute by blast
  obtain s3 where 3: "client_operation (pg_logged example_pg) t ''ground-truth query''
      (Pg_Query (ground_truth_sql example_part_config) vector) s2 = (Inr [example_row], s3)"
    using example_operation [of t _ "Pg_Query (ground_truth_sql example_part_config) vector" s2] by auto
  have truth: "measure_ground_truth (pg_logged example_pg) t vector example_part_config s2 = (Inr ([7], [Fin 0], Fin 0), s3)"
    using 3 by (simp add: measure_ground_truth_def io_bind_def example_clock io_lift_def decode_ground_truth_def
        decode_keys_def example_decoded)
  obtain s4 where 4: "execute_counted (pg_logged example_pg) t ''SET LOCAL enable_indexscan = on'' s3 = (Inr [], s4)"
    using example_execute by blast
  obtain s5 where "io_map (measure_sweep (pg_logged example_pg) t vector example_part_config [7])
      (sweep_order vector (ac_ef_grid example_part_config)) s4
      = (Inr (map example_sweep (sweep_order vector (ac_ef_grid example_part_config))), s5)"
    using io_map_succeeds [of "measure_sweep (pg_logged example_pg) t vector example_part_config [7]" example_sweep]
      example_measure_sweep by blast
  then show ?thesis using 1 2 truth 4
    by (cases s5) (simp add: measure_in_transaction_def io_bind_def io_lift_def)
qed

lemma example_measured:
  "\<exists>m c' s'. measure_sample (pg_logged example_pg) (\<lambda>t. unlogged (\<lambda>w. (False, w))) example_connection
      [0] example_part_config ((), []) = Some (Inr m, c', s')"
proof -
  let ?run = "run_sample_transaction (pg_logged example_pg) (dc_statement_timeout example_connection)
      (dc_client_timeout example_connection) [0] example_part_config"
  have commit: "finish_transaction (pg_logged example_pg) t (Inr m) s = (Inr m, fst s, snd s @ [(Pg_Commit, Pg_Done [])])"
    for t m and s :: "(unit, pg_request \<times> pg_answer) logging"
    by (cases s) (simp add: finish_transaction_def client_operation_logged example_pg_def)
  obtain s1 where 1: "begin_sample_transaction (pg_logged example_pg) (dc_client_timeout example_connection) ((), [])
      = (Inr [], s1)"
    using example_operation [of "dc_client_timeout example_connection" "''begin transaction''" Pg_BeginRepeatableRead]
    unfolding begin_sample_transaction_def pg_request.case by blast
  obtain m s2 where 2: "measure_in_transaction (pg_logged example_pg) (dc_statement_timeout example_connection)
      (dc_client_timeout example_connection) [0] example_part_config s1 = (Inr m, s2)"
    using example_transaction by blast
  have run: "?run ((), []) = (Inr m, fst s2, snd s2 @ [(Pg_Commit, Pg_Done [])])"
    using 1 2 commit by (simp add: run_sample_transaction_def io_bind_def)
  have clock: "pg_clock (pg_logged example_pg) s = 0" for s by (simp add: pg_logged_def example_pg_def)
  have "mul_f64 0 (f64_div (f64_sub (Fin 1) (Fin 1)) (Fin 1)) = Some 0"
    using round_half_even_of_int [of 0]
    by (simp add: mul_f64_def f64_sub_def from_secs_f64_def duration_bound_def)
  then obtain p where "run_ready (\<lambda>w. (pg_clock (pg_logged example_pg) w, w)) (dc_pacer example_connection) ?run ((), [])
      = Some (Inr m, p, fst s2, snd s2 @ [(Pg_Commit, Pg_Done [])])"
    unfolding run_ready_def Let_def prod.case run clock
    by (simp add: example_connection_def instant_add_def instant_bound_def)
  then show ?thesis
    by (simp add: measure_sample_def run_cancelable_before_start_def unlogged_def example_connection_def)
qed

theorem sample_is_one_transaction_witness:
  "\<exists>m c' l'. measure_sample (pg_logged example_pg) (\<lambda>t. unlogged (\<lambda>w. (False, w))) example_connection
      [0] example_part_config ((), []) = Some (Inr m, c', ((), l'))
    \<and> map fst l' = Pg_BeginRepeatableRead # sample_script 30000000000 [0] example_part_config @ [Pg_Commit]"
proof -
  obtain m c' l' where run: "measure_sample (pg_logged example_pg) (\<lambda>t. unlogged (\<lambda>w. (False, w))) example_connection
      [0] example_part_config ((), []) = Some (Inr m, c', ((), l'))" using example_measured by auto
  moreover have "dc_statement_timeout example_connection = 30000000000" by (simp add: example_connection_def)
  ultimately show ?thesis
    using sample_is_one_transaction [OF run] by (auto simp: transaction_log_def)
qed

theorem measured_sample_has_shape_witness:
  "\<exists>m c' s'. measure_sample (pg_logged example_pg) (\<lambda>t. unlogged (\<lambda>w. (False, w))) example_connection
      [0] example_part_config ((), []) = Some (Inr m, c', s') \<and> measurement_shape_ok example_part_config m"
proof -
  obtain m c' s' where run: "measure_sample (pg_logged example_pg) (\<lambda>t. unlogged (\<lambda>w. (False, w))) example_connection
      [0] example_part_config ((), []) = Some (Inr m, c', s')" using example_measured by blast
  have "measurement_shape_ok example_part_config m \<and> list_all unit_recall (sp_sweeps m)"
    by (rule measured_sample_has_shape [OF run])
      (auto simp: pg_logged_def logged_def example_pg_def example_part_config_def split: prod.splits)
  then show ?thesis using run by blast
qed

end
