(* ===== verification/Pipeline.thy ===== *)
theory Pipeline
  imports Effects Intermediate Aggregate
begin

text \<open>
  One round of one cohort (\<open>seam/src/pipeline.rs\<close>): list the source parts and the measurements of the
  windows in scope, keep every compatible pair of intermediates, measure the remaining parts and store
  their pairs, then aggregate and publish the history and the latest document. The object store, the
  database measurer and the cancellation token act on a state of the environment; the Parquet library,
  the JSON library, the ULID parser and the beta function are arguments. A path is the text it prints
  as: \<open>Path::from\<close> keeps the texts built here, whose characters the cohort validator allows.
\<close>

section \<open>The environment\<close>

datatype store_error = Se_NotFound string | Se_Other string

text \<open>A \<open>GET\<close> has two outcomes: the request's, and that of reading the body.\<close>

record 'w object_store =
  os_list :: "string \<Rightarrow> 'w \<Rightarrow> (store_error + string list) \<times> 'w"
  os_get :: "string \<Rightarrow> 'w \<Rightarrow> (store_error + (store_error + u8 list)) \<times> 'w"
  os_put :: "string \<Rightarrow> u8 list \<Rightarrow> 'w \<Rightarrow> (store_error + unit) \<times> 'w"

record 'w round_env =
  env_store :: "'w object_store"
  env_measurer :: "'w measurer"
  env_cancelled :: "'w \<Rightarrow> bool"
  env_parquet :: parquet
  env_ulid :: "string \<Rightarrow> string option"
  env_beta :: beta_reg
  env_json_read :: "u8 list \<Rightarrow> string + round_output"
  env_json_write :: "round_output \<Rightarrow> string + u8 list"

section \<open>Definitions\<close>

datatype cohort_round_outcome = Published round_output | Round_Cancelled

datatype pipeline_error =
    P_Window window_error
  | P_Aggregate aggregate_error
  | P_AggregateJson string
  | P_Storage string string store_error
  | P_DuplicateSourcePart string
  | P_SourceSegment string prepare_part_error
  | P_EncodeIntermediate string intermediate_error
  | P_ReadEncodedIntermediate string intermediate_error
  | P_ConnectionUnavailable string string
  | P_IncompatibleCounterOverflow

type_synonym ('w, 'a) round_io = "('w, pipeline_error, 'a) io"

record source_part =
  src_path :: string
  src_listed :: listed_part

subsection \<open>Paths\<close>

definition intermediate_paths :: "string \<Rightarrow> u64 \<Rightarrow> string \<Rightarrow> window_error + string \<times> string" where
  "intermediate_paths cohort window_start part_ulid =
     res_bind (format_window_timestamp window_start) (\<lambda>timestamp.
     let prefix = ''measurements/'' @ cohort @ ''/window='' @ timestamp @ ''/part-'' @ part_ulid
     in Inr (prefix @ ''.truth.parquet'', prefix @ ''.sweep.parquet''))"

definition round_paths :: "string \<Rightarrow> u64 \<Rightarrow> window_error + string \<times> string" where
  "round_paths cohort round_end =
     res_bind (format_window_timestamp round_end) (\<lambda>timestamp.
     Inr (''calibrations/'' @ cohort @ ''/round-'' @ timestamp @ ''.json'',
          ''calibrations/'' @ cohort @ ''/latest.json''))"

text \<open>\<open>Path::filename\<close>, \<open>Path::extension\<close>, \<open>strip_prefix\<close> and \<open>strip_suffix\<close>.\<close>

definition path_filename :: "string \<Rightarrow> string option" where
  "path_filename path = (if path = [] then None else Some (last (split_on CHR ''/'' path)))"

definition path_extension :: "string \<Rightarrow> string option" where
  "path_extension path =
     Option.bind (path_filename path) (\<lambda>name.
     let parts = split_on CHR ''.'' name in
     if length parts < 2 \<or> last parts = [] then None else Some (last parts))"

definition strip_prefix :: "string \<Rightarrow> string \<Rightarrow> string option" where
  "strip_prefix p s = (if starts_with s p then Some (drop (length p) s) else None)"

definition strip_suffix :: "string \<Rightarrow> string \<Rightarrow> string option" where
  "strip_suffix p s = map_option rev (strip_prefix (rev p) (rev s))"

definition source_part_ulid :: "(string \<Rightarrow> string option) \<Rightarrow> string \<Rightarrow> string option" where
  "source_part_ulid ulid path =
     Option.bind (path_filename path) (\<lambda>filename.
     Option.bind (Option.bind (strip_prefix ''part-'' filename) (strip_suffix ''.vseam'')) ulid)"

subsection \<open>The store\<close>

definition list_paths :: "'w round_env \<Rightarrow> string \<Rightarrow> ('w, string list) round_io" where
  "list_paths env dir w =
     (case os_list (env_store env) dir w of
        (Inl e, w) \<Rightarrow> (Inl (P_Storage ''list'' dir e), w)
      | (Inr paths, w) \<Rightarrow> (Inr paths, w))"

definition get_bytes :: "'w round_env \<Rightarrow> string \<Rightarrow> ('w, u8 list) round_io" where
  "get_bytes env path w =
     (case os_get (env_store env) path w of
        (Inl e, w) \<Rightarrow> (Inl (P_Storage ''GET'' path e), w)
      | (Inr (Inl e), w) \<Rightarrow> (Inl (P_Storage ''GET body'' path e), w)
      | (Inr (Inr bytes), w) \<Rightarrow> (Inr bytes, w))"

definition put_bytes :: "'w round_env \<Rightarrow> string \<Rightarrow> u8 list \<Rightarrow> ('w, unit) round_io" where
  "put_bytes env path bytes w =
     (case os_put (env_store env) path bytes w of
        (Inl e, w) \<Rightarrow> (Inl (P_Storage ''PUT'' path e), w)
      | (Inr _, w) \<Rightarrow> (Inr (), w))"

definition load_previous_round :: "'w round_env \<Rightarrow> string \<Rightarrow> ('w, round_output option) round_io" where
  "load_previous_round env path w =
     (case os_get (env_store env) path w of
        (Inl (Se_NotFound _), w) \<Rightarrow> (Inr None, w)
      | (Inl e, w) \<Rightarrow> (Inl (P_Storage ''GET'' path e), w)
      | (Inr (Inl _), w) \<Rightarrow> (Inr None, w)
      | (Inr (Inr bytes), w) \<Rightarrow>
          (case env_json_read env bytes of
             Inl _ \<Rightarrow> (Inr None, w)
           | Inr previous \<Rightarrow> (Inr (Some previous), w)))"

subsection \<open>Listing\<close>

definition list_source_objects ::
  "'w round_env \<Rightarrow> string \<Rightarrow> u64 list \<Rightarrow> ('w, (u64 \<times> string) list) round_io" where
  "list_source_objects env cohort window_starts =
     io_bind (io_map (\<lambda>window_start.
         io_bind (io_lift (map_err P_Window (format_window_timestamp window_start))) (\<lambda>timestamp.
         io_bind (list_paths env (''cohorts/'' @ cohort @ ''/window='' @ timestamp)) (\<lambda>listed.
         io_pure (map (Pair window_start) (filter (\<lambda>path. path_extension path = Some ''vseam'') listed)))))
       window_starts) (\<lambda>objects.
     io_pure (sort_key snd (concat objects)))"

definition list_measurement_objects ::
  "'w round_env \<Rightarrow> string \<Rightarrow> u64 list \<Rightarrow> ('w, string list) round_io" where
  "list_measurement_objects env cohort window_starts =
     io_bind (io_map (\<lambda>window_start.
         io_bind (io_lift (map_err P_Window (format_window_timestamp window_start))) (\<lambda>timestamp.
         list_paths env (''measurements/'' @ cohort @ ''/window='' @ timestamp)))
       window_starts) (\<lambda>objects.
     io_pure (concat objects))"

definition source_of :: "string \<Rightarrow> string \<Rightarrow> prepared_part \<Rightarrow> source_part" where
  "source_of path part_ulid prepared =
     \<lparr>src_path = path,
      src_listed = \<lparr>lp_part_ulid = part_ulid, lp_window_start = pp_window_start prepared,
                    lp_window_seconds = pp_window_seconds prepared,
                    lp_received_frame_count = pp_received_frame_count prepared,
                    lp_record_count = pp_record_count prepared\<rparr>\<rparr>"

definition load_header ::
  "'w round_env \<Rightarrow> string \<Rightarrow> u32 \<Rightarrow> (string, source_part) omap \<Rightarrow> u64 \<times> string
     \<Rightarrow> ('w, (string, source_part) omap) round_io" where
  "load_header env expected_cohort expected_window_seconds by_ulid = (\<lambda>(window_start, path).
     case source_part_ulid (env_ulid env) path of
       None \<Rightarrow> io_pure by_ulid
     | Some part_ulid \<Rightarrow>
         io_bind (get_bytes env path) (\<lambda>bytes.
         io_bind (io_lift (map_err (P_SourceSegment path)
                   (prepare_segment bytes expected_cohort window_start expected_window_seconds))) (\<lambda>prepared.
         if omap_get by_ulid part_ulid \<noteq> None then io_fail (P_DuplicateSourcePart part_ulid)
         else io_pure (omap_insert part_ulid (source_of path part_ulid prepared) by_ulid))))"

definition load_source_headers ::
  "'w round_env \<Rightarrow> string \<Rightarrow> u32 \<Rightarrow> (u64 \<times> string) list \<Rightarrow> ('w, source_part list) round_io" where
  "load_source_headers env expected_cohort expected_window_seconds objects =
     io_bind (io_fold (load_header env expected_cohort expected_window_seconds) [] objects) (\<lambda>by_ulid.
     io_pure (omap_values by_ulid))"

subsection \<open>The durable intermediates\<close>

definition matches_source_metadata :: "intermediate_part \<Rightarrow> source_part \<Rightarrow> string \<Rightarrow> bool" where
  "matches_source_metadata intermediate source cohort \<longleftrightarrow>
     (let metadata = ip_metadata intermediate; listed = src_listed source in
      im_cohort metadata = cohort \<and> im_part_ulid metadata = lp_part_ulid listed
      \<and> im_window_start metadata = lp_window_start listed
      \<and> im_window_seconds metadata = lp_window_seconds listed
      \<and> im_received_frame_count metadata = lp_received_frame_count listed
      \<and> im_record_count metadata = lp_record_count listed)"

record scan =
  sc_compatible :: "(string, intermediate_part) omap"
  sc_pending :: "source_part list"
  sc_incompatible :: u64

definition scan_source ::
  "'w round_env \<Rightarrow> aggregation_config \<Rightarrow> string list \<Rightarrow> scan \<Rightarrow> source_part \<Rightarrow> ('w, scan) round_io" where
  "scan_source env config measurement_objects scan source =
     (let listed = src_listed source;
          pend = (\<lambda>scan. io_pure (scan\<lparr>sc_pending := sc_pending scan @ [source]\<rparr>)) in
      io_bind (io_lift (map_err P_Window
                (intermediate_paths (ac_cohort config) (lp_window_start listed) (lp_part_ulid listed))))
        (\<lambda>(truth_path, sweep_path).
      if truth_path \<in> set measurement_objects \<and> sweep_path \<in> set measurement_objects then
        io_bind (get_bytes env truth_path) (\<lambda>truth_bytes.
        io_bind (get_bytes env sweep_path) (\<lambda>sweep_bytes.
        case read_intermediate_pair_bytes (env_parquet env) truth_bytes sweep_bytes of
          Inr intermediate \<Rightarrow>
            if matches_source_metadata intermediate source (ac_cohort config) then
              if is_compatible config intermediate
              then io_pure (scan\<lparr>sc_compatible := omap_insert (lp_part_ulid listed) intermediate (sc_compatible scan)\<rparr>)
              else io_bind (io_lift (ok_or (checked_add (sc_incompatible scan) 1) P_IncompatibleCounterOverflow))
                     (\<lambda>n. pend (scan\<lparr>sc_incompatible := n\<rparr>))
            else pend scan
        | Inl _ \<Rightarrow> pend scan))
      else pend scan))"

subsection \<open>Phase A\<close>

definition store_measured ::
  "'w round_env \<Rightarrow> aggregation_config \<Rightarrow> source_part \<Rightarrow> measured_part \<Rightarrow> ('w, intermediate_part) round_io" where
  "store_measured env config source measured =
     (let part_ulid = lp_part_ulid (src_listed source) in
      io_bind (io_lift (map_err (P_EncodeIntermediate part_ulid)
                (encode_intermediate_pair (env_parquet env) (mp_metadata measured) (mp_truth_rows measured)
                   (mp_sweep_rows measured)))) (\<lambda>(truth_bytes, sweep_bytes).
      io_bind (io_lift (map_err P_Window
                (intermediate_paths (ac_cohort config) (lp_window_start (src_listed source)) part_ulid)))
        (\<lambda>(truth_path, sweep_path).
      io_bind (put_bytes env truth_path truth_bytes) (\<lambda>_.
      io_bind (put_bytes env sweep_path sweep_bytes) (\<lambda>_.
      io_lift (map_err (P_ReadEncodedIntermediate part_ulid)
        (read_intermediate_pair_bytes (env_parquet env) truth_bytes sweep_bytes)))))))"

definition measure_source ::
  "'w round_env \<Rightarrow> aggregation_config \<Rightarrow> u64 \<Rightarrow> source_part \<Rightarrow> ('w, measure_part_outcome) round_io" where
  "measure_source env config computed_at_us source =
     io_bind (get_bytes env (src_path source)) (\<lambda>bytes.
     io_bind (io_lift (map_err (P_SourceSegment (src_path source))
               (prepare_segment bytes (ac_cohort config) (lp_window_start (src_listed source))
                  (ac_storage_window_seconds config)))) (\<lambda>prepared w.
     case measure_prepared_part (env_measurer env) (env_cancelled env) prepared
            (lp_part_ulid (src_listed source)) config computed_at_us w of
       (result, w) \<Rightarrow> (map_err (P_SourceSegment (src_path source)) result, w)))"

datatype phase_a = PA_Cancelled | PA_Done "(string, intermediate_part) omap" "phase_a_abort option"

fun measure_pending ::
  "'w round_env \<Rightarrow> aggregation_config \<Rightarrow> u64 \<Rightarrow> (string, intermediate_part) omap \<Rightarrow> source_part list
     \<Rightarrow> ('w, phase_a) round_io" where
  "measure_pending env config now compatible [] = io_pure (PA_Done compatible None)"
| "measure_pending env config now compatible (source # rest) =
     io_bind (io_read (env_cancelled env)) (\<lambda>cancelled.
     if cancelled then io_pure PA_Cancelled
     else
     io_bind (measure_source env config now source) (\<lambda>outcome.
     case outcome of
       MP_Complete measured \<Rightarrow>
         io_bind (store_measured env config source measured) (\<lambda>intermediate.
         measure_pending env config now
           (omap_insert (lp_part_ulid (src_listed source)) intermediate compatible) rest)
     | MP_TableSmallerThanK abort \<Rightarrow> io_pure (PA_Done compatible (Some abort))
     | MP_ConnectionUnavailable e \<Rightarrow> io_fail (P_ConnectionUnavailable (lp_part_ulid (src_listed source)) e)
     | MP_Cancelled \<Rightarrow> io_pure PA_Cancelled))"

subsection \<open>The round\<close>

definition publish ::
  "'w round_env \<Rightarrow> string \<Rightarrow> string \<Rightarrow> aggregation_input \<Rightarrow> ('w, cohort_round_outcome) round_io" where
  "publish env history_path latest_path input =
     io_bind (io_lift (map_err P_Aggregate (aggregate (env_beta env) input))) (\<lambda>out.
     io_bind (io_lift (map_err P_AggregateJson (env_json_write env out))) (\<lambda>round_bytes.
     io_bind (put_bytes env history_path round_bytes) (\<lambda>_.
     io_bind (put_bytes env latest_path round_bytes) (\<lambda>_.
     io_pure (Published out)))))"

definition load_round ::
  "'w round_env \<Rightarrow> aggregation_config \<Rightarrow> u64 \<Rightarrow> ('w, source_part list \<times> scan) round_io" where
  "load_round env config round_end =
     io_bind (io_lift (map_err P_Aggregate (in_scope_window_starts round_end (ac_window_duration_seconds config)
               (ac_storage_window_seconds config)))) (\<lambda>window_starts.
     io_bind (list_source_objects env (ac_cohort config) window_starts) (\<lambda>source_objects.
     io_bind (list_measurement_objects env (ac_cohort config) window_starts) (\<lambda>measurement_objects.
     io_bind (load_source_headers env (ac_cohort config) (ac_storage_window_seconds config) source_objects)
       (\<lambda>sources.
     io_bind (io_fold (scan_source env config measurement_objects)
               \<lparr>sc_compatible = [], sc_pending = [], sc_incompatible = 0\<rparr> sources) (\<lambda>scan.
     io_pure (sources, scan))))))"

definition finish_round ::
  "'w round_env \<Rightarrow> aggregation_config \<Rightarrow> u64 \<Rightarrow> string \<Rightarrow> source_part list \<Rightarrow> scan \<Rightarrow> phase_a
     \<Rightarrow> ('w, cohort_round_outcome) round_io" where
  "finish_round env config round_end computed_at sources scan phase_a =
     (case phase_a of
        PA_Cancelled \<Rightarrow> io_pure Round_Cancelled
      | PA_Done compatible abort \<Rightarrow>
          io_bind (io_read (env_cancelled env)) (\<lambda>cancelled.
          if cancelled then io_pure Round_Cancelled
          else
          io_bind (io_lift (map_err P_Window (round_paths (ac_cohort config) round_end)))
            (\<lambda>(history_path, latest_path).
          io_bind (load_previous_round env latest_path) (\<lambda>previous_round.
          publish env history_path latest_path
            \<lparr>ai_config = config, ai_round_end = round_end, ai_computed_at = computed_at,
             ai_phase_a_abort = abort, ai_phase_a_incompatible_parts = sc_incompatible scan,
             ai_previous_round = previous_round, ai_listed_parts = map src_listed sources,
             ai_intermediates = omap_values compatible\<rparr>))))"

definition run_cohort_round ::
  "'w round_env \<Rightarrow> aggregation_config \<Rightarrow> u64 \<Rightarrow> string \<Rightarrow> u64 \<Rightarrow> ('w, cohort_round_outcome) round_io" where
  "run_cohort_round env config round_end computed_at computed_at_us =
     io_bind (load_round env config round_end) (\<lambda>(sources, scan).
     io_bind (measure_pending env config computed_at_us (sc_compatible scan) (sc_pending scan))
       (finish_round env config round_end computed_at sources scan))"

section \<open>The log of a round\<close>

text \<open>A store that keeps the log of its \<open>PUT\<close>s: path, bytes, and whether it succeeded.\<close>

type_synonym put_event = "(string \<times> u8 list) \<times> bool"

definition put_logged :: "'w object_store \<Rightarrow> string \<Rightarrow> u8 list \<Rightarrow> ('w, put_event) logging
    \<Rightarrow> (store_error + unit) \<times> ('w, put_event) logging" where
  "put_logged store path bytes = (\<lambda>(w, l).
     case os_put store path bytes w of (r, w) \<Rightarrow> (r, (w, l @ [((path, bytes), is_ok r)])))"

definition env_logged :: "'w round_env \<Rightarrow> ('w, put_event) logging round_env" where
  "env_logged env =
     \<lparr>env_store = \<lparr>os_list = \<lambda>p. unlogged (os_list (env_store env) p),
                   os_get = \<lambda>p. unlogged (os_get (env_store env) p),
                   os_put = put_logged (env_store env)\<rparr>,
      env_measurer = \<lambda>v c. unlogged (env_measurer env v c), env_cancelled = env_cancelled env \<circ> fst,
      env_parquet = env_parquet env, env_ulid = env_ulid env, env_beta = env_beta env,
      env_json_read = env_json_read env, env_json_write = env_json_write env\<rparr>"

lemma env_logged_simps [simp]:
  "env_parquet (env_logged env) = env_parquet env" "env_ulid (env_logged env) = env_ulid env"
  "env_beta (env_logged env) = env_beta env" "env_json_read (env_logged env) = env_json_read env"
  "env_json_write (env_logged env) = env_json_write env"
  by (simp_all add: env_logged_def)

text \<open>The measurement of a part changes of the state only what its measurer changes.\<close>

lemma measure_loop_keeps:
  assumes "\<And>v c s. g (snd (ms v c s)) = g s"
  shows "g (snd (measure_loop ms cancelled config samples rows s)) = g s"
proof (induction samples arbitrary: rows s)
  case (Cons x xs)
  show ?case
  proof (cases "\<not> cancelled s \<and> is_ok (pr_receive_time_us x) \<and> is_ok (pr_vector x)")
    case False
    then show ?thesis using Cons.IH by (auto split: sum.splits)
  next
    case True
    then obtain t v where t: "pr_receive_time_us x = Inr t" "pr_vector x = Inr v" by (auto simp: is_ok_iff)
    obtain r s' where m: "ms v config s = (r, s')" by fastforce
    then have keep: "g s' = g s" using assms [of v config s] by simp
    show ?thesis
    proof (cases r)
      case (Inl e)
      then show ?thesis using True t m keep Cons.IH by (cases e) simp_all
    next
      case (Inr b)
      then show ?thesis using True t m keep Cons.IH by (auto split: sum.split)
    qed
  qed
qed simp

lemma measure_prepared_part_keeps:
  assumes "\<And>v c s. g (snd (ms v c s)) = g s"
  shows "g (snd (measure_prepared_part ms cancelled part ulid config now s)) = g s"
  using measure_loop_keeps [of g ms, OF assms]
  by (auto simp: measure_prepared_part_def dest: arg_cong [of _ _ "g \<circ> snd"] split: prod.split sum.split)

lemma quiet_keeps:
  assumes "\<And>s. snd (snd (m s)) = snd s"
  shows "quiet m"
proof (rule tracesI)
  fix w l r w' l'
  assume "m (w, l) = (r, (w', l'))"
  then show "\<exists>t. l' = l @ t \<and> t = []" using assms [of "(w, l)"] by simp
qed

lemma quiet_measure:
  "quiet (measure_prepared_part (env_measurer (env_logged env)) cancelled part ulid config now)"
proof (rule quiet_keeps, rule measure_prepared_part_keeps)
  show "snd (snd (env_measurer (env_logged env) v c s)) = snd s" for v c s
    by (simp add: env_logged_def unlogged_def split: prod.splits)
qed

lemma quiet_map_result:
  assumes "quiet m"
  shows "quiet (\<lambda>w. case m w of (r, w) \<Rightarrow> (f r, w))"
  using assms by (fastforce simp: traces_def split: prod.splits)

lemma quiet_get: "quiet (get_bytes (env_logged env) path)"
  and quiet_list: "quiet (list_paths (env_logged env) dir)"
  and quiet_previous: "quiet (load_previous_round (env_logged env) path)"
  by (rule quiet_keeps;
      auto simp: get_bytes_def list_paths_def load_previous_round_def env_logged_def unlogged_def
        split: prod.splits sum.splits store_error.splits)+

lemma quiet_measure_source: "quiet (measure_source (env_logged env) config now source)"
  unfolding measure_source_def
  by (intro quiet_bind quiet_get quiet_lift quiet_map_result quiet_measure)

lemma quiet_load_round: "quiet (load_round (env_logged env) config round_end)"
proof -
  have header: "quiet (load_header (env_logged env) cohort width by_ulid obj)" for cohort width by_ulid obj
    by (cases obj) (auto simp: load_header_def Let_def split: option.split intro!: quiet_bind quiet_get)
  have scan: "quiet (scan_source (env_logged env) config objs sc src)" for objs sc src
    by (auto simp: scan_source_def Let_def split: sum.split prod.split intro!: quiet_bind quiet_get quiet_lift)
  show ?thesis
    unfolding load_round_def list_source_objects_def list_measurement_objects_def load_source_headers_def
    by (intro quiet_bind quiet_lift quiet_map quiet_fold quiet_list header scan)
qed

text \<open>A stored pair, and what is left of one when storing it failed.\<close>

definition pair_stored :: "'w round_env \<Rightarrow> aggregation_config \<Rightarrow> put_event list \<Rightarrow> bool" where
  "pair_stored env config t \<longleftrightarrow>
     (\<exists>start ulid tp sp tb sb m. intermediate_paths (ac_cohort config) start ulid = Inr (tp, sp)
        \<and> t = [((tp, tb), True), ((sp, sb), True)]
        \<and> read_intermediate_pair_bytes (env_parquet env) tb sb = Inr m)"

definition pair_failed :: "'w round_env \<Rightarrow> aggregation_config \<Rightarrow> put_event list \<Rightarrow> bool" where
  "pair_failed env config t \<longleftrightarrow>
     (\<exists>start ulid tp sp tb sb. intermediate_paths (ac_cohort config) start ulid = Inr (tp, sp)
        \<and> prefix (map fst t) [(tp, tb), (sp, sb)])"

definition pairs_log :: "'w round_env \<Rightarrow> aggregation_config \<Rightarrow> 'e + 'a \<Rightarrow> put_event list \<Rightarrow> bool" where
  "pairs_log env config r t \<longleftrightarrow>
     (\<exists>pairs rest. t = concat pairs @ rest \<and> list_all (pair_stored env config) pairs
        \<and> (rest = [] \<or> \<not> is_ok r \<and> pair_failed env config rest))"

lemma pairs_log_empty [simp]: "pairs_log env config r []"
  unfolding pairs_log_def by (intro exI [of _ "[]"]) simp

lemma put_bytes_logged:
  "put_bytes (env_logged env) path bytes (w, l) =
     (case os_put (env_store env) path bytes w of (x, v) \<Rightarrow>
        (map_err (P_Storage ''PUT'' path) x, (v, l @ [((path, bytes), is_ok x)])))"
  by (simp add: put_bytes_def env_logged_def put_logged_def map_err_def split: prod.split sum.split)

lemma put_logs: "traces (put_bytes (env_logged env) path bytes) (\<lambda>r t. t = [((path, bytes), is_ok r)])"
proof (rule tracesI)
  fix w l r w' l'
  assume run: "put_bytes (env_logged env) path bytes (w, l) = (r, (w', l'))"
  obtain x v where "os_put (env_store env) path bytes w = (x, v)" by fastforce
  then have "r = map_err (P_Storage ''PUT'' path) x" "l' = l @ [((path, bytes), is_ok x)]"
    using run unfolding put_bytes_logged by simp_all
  then show "\<exists>t. l' = l @ t \<and> t = [((path, bytes), is_ok r)]" by (cases x) simp_all
qed

lemma follows_put: "traces (put_bytes (env_logged env) path bytes) (follows id [(path, bytes)])"
  by (rule traces_weaken [OF put_logs]) (auto simp: follows_def)

lemma store_measured_logs:
  "traces (store_measured (env_logged env) config source measured)
     (\<lambda>r t. if is_ok r then pair_stored env config t else t = [] \<or> pair_failed env config t)"
proof (cases "encode_intermediate_pair (env_parquet env) (mp_metadata measured) (mp_truth_rows measured)
    (mp_sweep_rows measured)")
  case (Inl e)
  then show ?thesis by (simp add: store_measured_def Let_def traces_lift)
next
  case encoded: (Inr pair)
  obtain tb sb where pair: "pair = (tb, sb)" by fastforce
  let ?paths = "intermediate_paths (ac_cohort config) (lp_window_start (src_listed source)) (lp_part_ulid (src_listed source))"
  show ?thesis
  proof (cases ?paths)
    case (Inl e)
    then show ?thesis using encoded pair by (simp add: store_measured_def Let_def traces_lift)
  next
    case (Inr paths)
    obtain tp sp where paths: "?paths = Inr (tp, sp)" using Inr by (cases paths) auto
    let ?read = "read_intermediate_pair_bytes (env_parquet env) tb sb"
    let ?puts = "io_bind (put_bytes (env_logged env) tp tb) (\<lambda>_.
      io_bind (put_bytes (env_logged env) sp sb) (\<lambda>_. io_lift (map_err (P_ReadEncodedIntermediate (lp_part_ulid (src_listed source))) ?read)))"
    have m: "store_measured (env_logged env) config source measured = ?puts"
      using encoded pair paths by (simp add: store_measured_def Let_def)
    have "traces ?puts (follows id ([(tp, tb)] @ [(sp, sb)] @ []))"
      by (intro follows_bind follows_put follows_pure)
    then have script: "traces ?puts (follows id [(tp, tb), (sp, sb)])" by simp
    have read: "returns ?puts (\<lambda>m. ?read = Inr m)"
      by (intro returns_bind [OF returns_True] returns_lift) (simp add: result_simps)
    show ?thesis
      unfolding m
    proof (rule tracesI)
      fix w l r w' l'
      assume run: "?puts (w, l) = (r, (w', l'))"
      obtain t where t: "l' = l @ t" "follows id [(tp, tb), (sp, sb)] r t" using tracesD [OF script run] by blast
      have "pair_stored env config t" if ok: "is_ok r"
      proof -
        obtain m where "r = Inr m" using ok by (auto simp: is_ok_iff)
        then have "?read = Inr m" using run by (intro returnsD [OF read]) simp
        moreover have "t = [((tp, tb), True), ((sp, sb), True)]"
          using t(2) ok by (auto simp: follows_def list_all_iff)
        ultimately show ?thesis using paths unfolding pair_stored_def by blast
      qed
      moreover have "pair_failed env config t"
        using t(2) paths unfolding pair_failed_def follows_def by blast
      ultimately show "\<exists>t. l' = l @ t \<and> (if is_ok r then pair_stored env config t else t = [] \<or> pair_failed env config t)"
        using t(1) by auto
    qed
  qed
qed

lemma measure_pending_logs:
  "traces (measure_pending (env_logged env) config now compatible sources) (pairs_log env config)"
proof (induction sources arbitrary: compatible)
  case Nil
  show ?case by (simp add: traces_lift pairs_log_empty)
next
  case (Cons source rest)
  have stored: "traces (io_bind (store_measured (env_logged env) config source measured) (\<lambda>i.
      measure_pending (env_logged env) config now (omap_insert (lp_part_ulid (src_listed source)) i compatible) rest))
      (pairs_log env config)" for measured
  proof (rule traces_weaken [OF traces_bind [OF store_measured_logs Cons.IH]], elim disjE exE conjE)
    fix r t e
    assume "r = Inl e" "if is_ok (Inl e :: _ + _) then pair_stored env config t else t = [] \<or> pair_failed env config t"
    then show "pairs_log env config r t" unfolding pairs_log_def by (intro exI [of _ "[]"] exI [of _ t]) auto
  next
    fix r t x a b
    assume t: "t = a @ b" "if is_ok (Inr x :: _ + _) then pair_stored env config a else a = [] \<or> pair_failed env config a"
      and "pairs_log env config r b"
    then obtain pairs last where "b = concat pairs @ last" "list_all (pair_stored env config) pairs"
      "last = [] \<or> \<not> is_ok r \<and> pair_failed env config last" by (auto simp: pairs_log_def)
    then show "pairs_log env config r t"
      using t unfolding pairs_log_def by (intro exI [of _ "a # pairs"] exI [of _ last]) simp
  qed
  show ?case
    by (auto intro!: traces_quiet_bind [OF quiet_read] traces_quiet_bind [OF quiet_measure_source]
        traces_lift stored split: measure_part_outcome.split)
qed


definition publication_log ::
  "'w round_env \<Rightarrow> string \<Rightarrow> string \<Rightarrow> pipeline_error + cohort_round_outcome \<Rightarrow> put_event list \<Rightarrow> bool" where
  "publication_log env history latest r t \<longleftrightarrow>
     (case r of
        Inr (Published out) \<Rightarrow>
          \<exists>b. env_json_write env out = Inr b \<and> t = [((history, b), True), ((latest, b), True)]
      | Inr Round_Cancelled \<Rightarrow> t = []
      | Inl _ \<Rightarrow> t = [] \<or> (\<exists>b. t = [((history, b), False)] \<or> t = [((history, b), True), ((latest, b), False)]))"

lemma publish_logs:
  "traces (publish (env_logged env) history latest input) (publication_log env history latest)"
proof (cases "aggregate (env_beta env) input")
  case (Inl e)
  then show ?thesis by (simp add: publish_def traces_lift publication_log_def)
next
  case out: (Inr out)
  show ?thesis
  proof (cases "env_json_write env out")
    case (Inl e)
    then show ?thesis using out by (simp add: publish_def traces_lift publication_log_def)
  next
    case bytes: (Inr b)
    let ?puts = "io_bind (put_bytes (env_logged env) history b) (\<lambda>_.
      io_bind (put_bytes (env_logged env) latest b) (\<lambda>_. io_pure (Published out)))"
    have m: "publish (env_logged env) history latest input = ?puts"
      using out bytes by (simp add: publish_def)
    have last: "traces (io_bind (put_bytes (env_logged env) latest b) (\<lambda>_. io_pure (Published out)))
        (\<lambda>r t. t = [((latest, b), is_ok r)] \<and> (is_ok r \<longrightarrow> r = Inr (Published out)))"
      by (rule traces_weaken [OF traces_bind [OF put_logs traces_lift
            [where T = "\<lambda>r t. t = [] \<and> r = Inr (Published out)"]]]) auto
    show ?thesis
      unfolding m
      by (rule traces_weaken [OF traces_bind [OF put_logs last]])
        (use bytes in \<open>auto simp: publication_log_def is_ok_iff split: sum.split\<close>)
  qed
qed

definition round_log ::
  "'w round_env \<Rightarrow> aggregation_config \<Rightarrow> u64 \<Rightarrow> pipeline_error + cohort_round_outcome \<Rightarrow> put_event list \<Rightarrow> bool" where
  "round_log env config round_end r t \<longleftrightarrow>
     (\<exists>history latest pairs rest fin. round_paths (ac_cohort config) round_end = Inr (history, latest)
        \<and> t = concat pairs @ rest @ fin \<and> list_all (pair_stored env config) pairs
        \<and> (rest = [] \<or> \<not> is_ok r \<and> pair_failed env config rest \<and> fin = [])
        \<and> publication_log env history latest r fin)"

lemma round_logI:
  assumes "round_paths (ac_cohort config) round_end = Inr (history, latest)"
    and "list_all (pair_stored env config) pairs"
    and "rest = [] \<or> \<not> is_ok r \<and> pair_failed env config rest \<and> fin = []"
    and "publication_log env history latest r fin"
  shows "round_log env config round_end r (concat pairs @ rest @ fin)"
  using assms unfolding round_log_def by blast

lemma round_paths_total: "\<exists>history latest. round_paths cohort round_end = Inr (history, latest)"
  using format_window_timestamp_total [of round_end] by (auto simp: round_paths_def)

lemma run_cohort_round_logs:
  "traces (run_cohort_round (env_logged env) config round_end computed_at us) (round_log env config round_end)"
proof -
  obtain history latest where paths: "round_paths (ac_cohort config) round_end = Inr (history, latest)"
    using round_paths_total by blast
  have no_put: "round_log env config round_end r []" if "\<not> is_ok r \<or> r = Inr Round_Cancelled" for r
    using that paths unfolding round_log_def
    by (intro exI [of _ history] exI [of _ latest] exI [of _ "[]"]) (auto simp: publication_log_def split: sum.split)
  have empty: "publication_log env history latest r []" if "\<not> is_ok r \<or> r = Inr Round_Cancelled" for r
    using that by (auto simp: publication_log_def split: sum.split)
  have tail: "traces (finish_round (env_logged env) config round_end computed_at sources scan phase_a) (publication_log env history latest)" for sources scan phase_a
    unfolding finish_round_def
    by (auto simp: paths intro!: traces_lift empty traces_quiet_bind [OF quiet_read]
        traces_quiet_bind [OF quiet_previous] publish_logs split: phase_a.split)
  have phase_a: "traces (io_bind (measure_pending (env_logged env) config us compatible sources')
        (finish_round (env_logged env) config round_end computed_at sources scan))
      (round_log env config round_end)" for compatible sources' sources scan
  proof (rule traces_weaken [OF traces_bind [OF measure_pending_logs tail]], elim disjE exE conjE)
    fix r :: "pipeline_error + cohort_round_outcome" and t e
    assume "r = Inl e" "pairs_log env config (Inl e :: _ + _) t"
    then show "round_log env config round_end r t"
      unfolding pairs_log_def using round_logI [OF paths, of env _ _ r "[]"] empty [of r] by auto
  next
    fix r t x a b
    assume "t = a @ b" "pairs_log env config (Inr x :: _ + _) a" "publication_log env history latest r b"
    then show "round_log env config round_end r t"
      unfolding pairs_log_def using round_logI [OF paths, of env _ "[]" r b] by auto
  qed
  show ?thesis
    unfolding run_cohort_round_def split_def
    by (rule traces_quiet_bind [OF quiet_load_round]) (rule phase_a, rule no_put, simp)
qed

text \<open>
  C9. A round writes in order and only where it may: first the pairs of the parts it measured, truth
  before sweep, each pair under its part's measurement path and readable; then, only if it publishes,
  the history document and after it the latest document, with the same bytes, which are the published
  output. The latest document is never written by a round that was cancelled, and never before the
  history document is stored; a round that fails stops at the write that failed.
\<close>

theorem round_writes_in_order:
  assumes "run_cohort_round (env_logged env) config round_end computed_at computed_at_us (w, l) = (r, (w', l'))"
  shows "\<exists>t. l' = l @ t \<and> round_log env config round_end r t"
  using tracesD [OF run_cohort_round_logs assms] .


subsection \<open>An example\<close>

text \<open>A round over an empty store publishes: nothing is measured and the two documents are written.\<close>

definition empty_env :: "unit round_env" where
  "empty_env =
     \<lparr>env_store = \<lparr>os_list = \<lambda>_ w. (Inr [], w), os_get = \<lambda>p w. (Inl (Se_NotFound p), w), os_put = \<lambda>_ _ w. (Inr (), w)\<rparr>,
      env_measurer = \<lambda>_ _ w. (Inl (ME_Database ''refused''), w), env_cancelled = \<lambda>_. False,
      env_parquet = \<lparr>pq_write = \<lambda>_ _ _. Inl ''unused'', pq_key_values = \<lambda>_. Inl ''unused'', pq_open = \<lambda>_. Inl ''unused''\<rparr>,
      env_ulid = Some, env_beta = \<lambda>_ _ _. Fin 0, env_json_read = \<lambda>_. Inl ''malformed'',
      env_json_write = \<lambda>_. Inr [3]\<rparr>"

lemma empty_aggregate:
  "\<exists>out. aggregate (\<lambda>_ _ _. Fin 0) \<lparr>ai_config = tuned_config, ai_round_end = 1200, ai_computed_at = ''now'',
     ai_phase_a_abort = None, ai_phase_a_incompatible_parts = 0, ai_previous_round = None, ai_listed_parts = [],
     ai_intermediates = []\<rparr> = Inr out"
proof -
  obtain w w' where w: "iso8601_seconds 1200 = Inr w" "iso8601_seconds 0 = Inr w'"
    using iso8601_seconds_total by blast
  have c: "checked_sub 1200 1200 = Some (0 :: u64)" by (simp add: checked_sub_def)
  obtain f where f: "dropped_frame_fraction [] = Inr f" by (auto simp: dropped_frame_fraction_def)
  obtain ps where ps: "per_ef_summaries [] tuned_config = Inr ps"
    by (auto simp: per_ef_summaries_def tuned_config_def)
  have e: "unique_in_scope_parts [] 0 1200 = Inr []" "unique_intermediates [] = Inr []"
    "deduplicate_samples (used_samples []) = []" "validate_population [] [10, 20] = Inr ()"
    by (simp_all add: unique_in_scope_parts_def unique_intermediates_def used_samples_def deduplicate_samples_def
        omap_values_def validate_population_def)
  show ?thesis
    by (simp add: aggregate_def Let_def tuned_config_ok example_fields example_windows c e f ps w example_compliance
        a_math_def insufficient_def omap_values_def)
qed

lemma empty_paths: "list_paths (env_logged empty_env) dir s = (Inr [], s)"
  by (cases s) (simp add: list_paths_def env_logged_def empty_env_def unlogged_def)

lemma empty_listing:
  "list_source_objects (env_logged empty_env) cohort [0, 600] s = (Inr [], s)"
  "list_measurement_objects (env_logged empty_env) cohort [0, 600] s = (Inr [], s)"
  using format_window_timestamp_total [of 0] format_window_timestamp_total [of 600]
  by (auto simp: list_source_objects_def list_measurement_objects_def io_bind_def io_lift_def empty_paths)

theorem round_writes_in_order_witness:
  "\<exists>out l'. run_cohort_round (env_logged empty_env) tuned_config 1200 ''now'' 5 ((), []) = (Inr (Published out), ((), l'))
     \<and> length l' = 2 \<and> (\<exists>t. l' = [] @ t \<and> round_log empty_env tuned_config 1200 (Inr (Published out)) t)"
proof -
  obtain out where out: "aggregate (\<lambda>_ _ _. Fin 0) \<lparr>ai_config = tuned_config, ai_round_end = 1200,
     ai_computed_at = ''now'', ai_phase_a_abort = None, ai_phase_a_incompatible_parts = 0, ai_previous_round = None,
     ai_listed_parts = [], ai_intermediates = []\<rparr> = Inr out"
    using empty_aggregate by blast
  obtain history latest where paths: "round_paths (ac_cohort tuned_config) 1200 = Inr (history, latest)"
    using round_paths_total by blast
  have loaded: "load_round (env_logged empty_env) tuned_config 1200 ((), [])
    = (Inr ([], \<lparr>sc_compatible = [], sc_pending = [], sc_incompatible = 0\<rparr>), ((), []))"
    by (simp add: load_round_def load_source_headers_def io_bind_def io_lift_def example_fields example_windows
        empty_listing omap_values_def)
  have env: "env_store (env_logged empty_env) = \<lparr>os_list = \<lambda>_ s. (Inr [], s),
      os_get = \<lambda>p s. (Inl (Se_NotFound p), s), os_put = put_logged (env_store empty_env)\<rparr>"
    "env_cancelled (env_logged empty_env) s = False" "env_beta empty_env = (\<lambda>_ _ _. Fin 0)"
    "env_json_write empty_env = (\<lambda>_. Inr [3])"
    for s by (auto simp: env_logged_def empty_env_def unlogged_def split: prod.splits)
  have put: "put_logged (env_store empty_env) p b (w, l) = (Inr (), (w, l @ [((p, b), True)]))" for p b w l
    by (simp add: put_logged_def empty_env_def is_ok_def)
  have run: "run_cohort_round (env_logged empty_env) tuned_config 1200 ''now'' 5 ((), [])
    = (Inr (Published out), ((), [((history, [3]), True), ((latest, [3]), True)]))"
    by (simp add: run_cohort_round_def loaded io_bind_def finish_round_def io_read_def io_lift_def env paths
        load_previous_round_def publish_def omap_values_def out put_bytes_def put)
  show ?thesis
    using run round_writes_in_order [OF run] by auto
qed

end
