(* ===== verification/Resume.thy ===== *)
theory Resume
  imports Pipeline
begin

text \<open>
  Rounds over a store that keeps what is put: files are a sorted map from paths to bytes, and the
  database and the cancellation token have a state of their own. The facts follow the durable
  intermediates of a round into the next one: what a published round measured is not measured again.
\<close>

section \<open>A store in memory\<close>

type_synonym files = "(string, u8 list) omap"

definition mem_store :: "(files \<times> 'd) object_store" where
  "mem_store =
     \<lparr>os_list = \<lambda>dir (fs, d). (Inr (filter (\<lambda>p. starts_with p (dir @ ''/'')) (map fst fs)), (fs, d)),
      os_get = \<lambda>path (fs, d). (case omap_get fs path of None \<Rightarrow> Inl (Se_NotFound path) | Some b \<Rightarrow> Inr (Inr b), (fs, d)),
      os_put = \<lambda>path bytes (fs, d). (Inr (), (omap_insert path bytes fs, d))\<rparr>"

definition beside :: "('d \<Rightarrow> 'a \<times> 'd) \<Rightarrow> files \<times> 'd \<Rightarrow> 'a \<times> files \<times> 'd" where
  "beside m = (\<lambda>(fs, d). case m d of (r, d) \<Rightarrow> (r, (fs, d)))"

text \<open>The environment of a round over files, with the measurer and the token of another.\<close>

definition on_files :: "'d round_env \<Rightarrow> (files \<times> 'd) round_env" where
  "on_files env =
     \<lparr>env_store = mem_store, env_measurer = \<lambda>v c. beside (env_measurer env v c),
      env_cancelled = env_cancelled env \<circ> snd, env_parquet = env_parquet env, env_ulid = env_ulid env,
      env_beta = env_beta env, env_json_read = env_json_read env, env_json_write = env_json_write env\<rparr>"

lemma on_files_simps [simp]:
  "env_parquet (on_files env) = env_parquet env" "env_ulid (on_files env) = env_ulid env"
  "env_cancelled (on_files env) (fs, d) = env_cancelled env d"
  by (simp_all add: on_files_def)

lemma list_paths_mem [simp]:
  "list_paths (on_files env) dir (fs, d) = (Inr (filter (\<lambda>p. starts_with p (dir @ ''/'')) (map fst fs)), (fs, d))"
  by (simp add: list_paths_def on_files_def mem_store_def)

lemma get_bytes_mem [simp]:
  "get_bytes (on_files env) path (fs, d) =
     (case omap_get fs path of None \<Rightarrow> Inl (P_Storage ''GET'' path (Se_NotFound path)) | Some b \<Rightarrow> Inr b, (fs, d))"
  by (simp add: get_bytes_def on_files_def mem_store_def split: option.split)

lemma put_bytes_mem [simp]:
  "put_bytes (on_files env) path bytes (fs, d) = (Inr (), (omap_insert path bytes fs, d))"
  by (simp add: put_bytes_def on_files_def mem_store_def)

section \<open>Paths\<close>

lemma timestamp_no_slash:
  assumes "format_window_timestamp t = Inr s"
  shows "CHR ''/'' \<notin> set s"
proof -
  obtain y m d h n where s: "s = show_int_padded 4 y @ show_int_padded 2 m @ show_int_padded 2 d
      @ ''T'' @ show_padded 2 h @ show_padded 2 n @ ''Z''"
    using assms by (auto simp: format_window_timestamp_def Let_def result_simps split: if_splits)
  have pad: "CHR ''/'' \<notin> set (show_padded w k)" for w k
    using show_nat_chars [of "CHR ''/''" k] by (auto simp: show_padded_def)
  have "CHR ''/'' \<notin> set (show_int_padded w i)" for w i
    by (simp add: show_int_padded_def pad)
  then show ?thesis using pad by (simp add: s)
qed

lemma intermediate_paths_form:
  assumes "intermediate_paths cohort start ulid = Inr (tp, sp)"
  obtains timestamp where "CHR ''/'' \<notin> set timestamp"
    and "tp = (''measurements/'' @ cohort @ ''/window='') @ timestamp @ CHR ''/'' # (''part-'' @ ulid) @ ''.truth.parquet''"
    and "sp = (''measurements/'' @ cohort @ ''/window='') @ timestamp @ CHR ''/'' # (''part-'' @ ulid) @ ''.sweep.parquet''"
    and "format_window_timestamp start = Inr timestamp"
  using assms timestamp_no_slash [of start] by (auto simp: intermediate_paths_def result_simps)

lemma intermediate_paths_total: "\<exists>tp sp. intermediate_paths cohort start ulid = Inr (tp, sp)"
proof -
  obtain t where "format_window_timestamp start = Inr t" using format_window_timestamp_total by blast
  then show ?thesis by (simp add: intermediate_paths_def)
qed

lemma split_at_slash:
  "d \<notin> set a \<Longrightarrow> d \<notin> set b \<Longrightarrow> a @ d # x = b @ d # y \<longleftrightarrow> a = b \<and> x = y"
proof (induction a arbitrary: b)
  case Nil
  then show ?case by (cases b) auto
next
  case (Cons c a)
  then show ?case by (cases b) auto
qed

text \<open>Parts with different ULIDs have different paths; a truth path is never a sweep path.\<close>

lemma intermediate_paths_apart:
  assumes "intermediate_paths cohort s1 u1 = Inr (t1, w1)" and "intermediate_paths cohort s2 u2 = Inr (t2, w2)"
  shows "t1 \<noteq> w2" and "u1 \<noteq> u2 \<Longrightarrow> t1 \<noteq> t2 \<and> w1 \<noteq> w2"
proof -
  obtain a where a: "CHR ''/'' \<notin> set a"
    "t1 = (''measurements/'' @ cohort @ ''/window='') @ a @ CHR ''/'' # (''part-'' @ u1) @ ''.truth.parquet''"
    "w1 = (''measurements/'' @ cohort @ ''/window='') @ a @ CHR ''/'' # (''part-'' @ u1) @ ''.sweep.parquet''"
    using intermediate_paths_form [OF assms(1)] by metis
  obtain b where b: "CHR ''/'' \<notin> set b"
    "t2 = (''measurements/'' @ cohort @ ''/window='') @ b @ CHR ''/'' # (''part-'' @ u2) @ ''.truth.parquet''"
    "w2 = (''measurements/'' @ cohort @ ''/window='') @ b @ CHR ''/'' # (''part-'' @ u2) @ ''.sweep.parquet''"
    using intermediate_paths_form [OF assms(2)] by metis
  have suffix: "x @ ''.truth.parquet'' \<noteq> y @ ''.sweep.parquet''" for x y
    by (subst append_eq_append_conv) simp_all
  show "t1 \<noteq> w2"
    unfolding a(2) b(3) same_append_eq split_at_slash [OF a(1) b(1)] using suffix by blast
  show "u1 \<noteq> u2 \<Longrightarrow> t1 \<noteq> t2 \<and> w1 \<noteq> w2"
    unfolding a(2,3) b(2,3) same_append_eq split_at_slash [OF a(1) b(1)] append_same_eq by blast
qed

section \<open>Loading reads the sources\<close>

definition source_files :: "files \<times> 'd \<Rightarrow> files" where
  "source_files s = filter (\<lambda>(p, _). starts_with p ''cohorts/'') (fst s)"

lemma omap_get_source:
  "starts_with p ''cohorts/'' \<Longrightarrow> omap_get fs p = omap_get (source_files (fs, d)) p"
  by (induction fs) (auto simp: omap_get_def source_files_def)

lemma source_files_put:
  "\<not> starts_with p ''cohorts/'' \<Longrightarrow> source_files (omap_insert p b fs, d) = source_files (fs, d')"
  unfolding source_files_def fst_conv by (induction p b fs rule: omap_insert.induct) auto

lemma starts_with_dir: "starts_with p (a @ b) \<Longrightarrow> starts_with p a"
  by (auto simp: starts_with_append)

lemma filter_below:
  "filter (\<lambda>p. starts_with p (a @ b)) (map fst (filter (\<lambda>(p, _). starts_with p a) fs))
     = filter (\<lambda>p. starts_with p (a @ b)) (map fst fs)"
  by (induction fs) (auto dest: starts_with_dir)

lemma reads_pairI:
  assumes "\<And>a b. snd (m (a, b)) = (a, b)"
    and "\<And>a b c d. view (c, d) = view (a, b) \<Longrightarrow> fst (m (c, d)) = fst (m (a, b))"
  shows "reads view m"
  unfolding reads_def
proof (intro allI conjI impI)
  show "snd (m s) = s" for s using assms(1) by (cases s) simp
  show "fst (m s') = fst (m s)" if "view s' = view s" for s s'
    using that assms(2) by (metis prod.collapse)
qed

lemma reads_source_list:
  "reads source_files (list_paths (on_files env) (''cohorts/'' @ dir))"
proof -
  have "filter (\<lambda>p. starts_with p (''cohorts/'' @ dir @ ''/'')) (map fst (source_files (fs, d)))
      = filter (\<lambda>p. starts_with p (''cohorts/'' @ dir @ ''/'')) (map fst fs)" for fs :: files and d :: 'a
    using filter_below [of "''cohorts/''" "dir @ ''/''" fs] by (simp add: source_files_def)
  then have same: "filter (\<lambda>p. starts_with p (''cohorts/'' @ dir @ ''/'')) (map fst fs')
      = filter (\<lambda>p. starts_with p (''cohorts/'' @ dir @ ''/'')) (map fst fs)"
    if "source_files (fs', d') = source_files (fs, d)" for fs fs' :: files and d d' :: 'a
    using that by metis
  show ?thesis
  proof (rule reads_pairI)
    fix fs fs' :: files and d d' :: 'a
    assume "source_files (fs', d') = source_files (fs, d)"
    from same [OF this] show "fst (list_paths (on_files env) (''cohorts/'' @ dir) (fs', d'))
        = fst (list_paths (on_files env) (''cohorts/'' @ dir) (fs, d))"
      unfolding list_paths_mem append_assoc by (simp only: fst_conv)
  qed (simp only: list_paths_mem snd_conv)
qed

lemma reads_source_get:
  assumes "starts_with p ''cohorts/''"
  shows "reads source_files (get_bytes (on_files env) p)"
proof -
  have same: "omap_get fs' p = omap_get fs p" if "source_files (fs', d') = source_files (fs, d)"
    for fs fs' :: files and d d' :: 'a
    using omap_get_source [OF assms] that by metis
  show ?thesis
  proof (rule reads_pairI)
    fix fs fs' :: files and d d' :: 'a
    assume "source_files (fs', d') = source_files (fs, d)"
    from same [OF this] show "fst (get_bytes (on_files env) p (fs', d')) = fst (get_bytes (on_files env) p (fs, d))"
      unfolding get_bytes_mem by (simp only: fst_conv)
  qed (simp only: get_bytes_mem snd_conv)
qed


text \<open>A source part as it was loaded: its object is there, and it has the listed header.\<close>

definition loaded :: "aggregation_config \<Rightarrow> u64 list \<Rightarrow> files \<Rightarrow> source_part \<Rightarrow> bool" where
  "loaded config ws fs source \<longleftrightarrow>
     starts_with (src_path source) ''cohorts/'' \<and> lp_window_start (src_listed source) \<in> set ws \<and>
     (\<exists>bytes part. omap_get fs (src_path source) = Some bytes \<and>
        prepare_segment bytes (ac_cohort config) (lp_window_start (src_listed source))
          (ac_storage_window_seconds config) = Inr part \<and>
        lp_window_seconds (src_listed source) = pp_window_seconds part \<and>
        lp_received_frame_count (src_listed source) = pp_received_frame_count part \<and>
        lp_record_count (src_listed source) = pp_record_count part)"

abbreviation ulid_of :: "source_part \<Rightarrow> string" where
  "ulid_of source \<equiv> lp_part_ulid (src_listed source)"

lemma list_source_objects_reads: "reads source_files (list_source_objects (on_files env) cohort ws)"
  unfolding list_source_objects_def
  by (intro reads_bind reads_map reads_lift reads_source_list)

lemma list_all2_concat:
  "list_all2 P xs yss \<Longrightarrow> y \<in> set (concat yss) \<Longrightarrow> \<exists>x \<in> set xs. \<exists>ys. P x ys \<and> y \<in> set ys"
  by (induction rule: list_all2_induct) auto

lemma list_source_objects_returns:
  "returns (list_source_objects (on_files env) cohort ws)
     (\<lambda>objs. \<forall>(start, path) \<in> set objs. start \<in> set ws \<and> starts_with path ''cohorts/'')"
proof -
  have listed: "returns (list_paths (on_files env) (''cohorts/'' @ dir))
      (\<lambda>ps. \<forall>p \<in> set ps. starts_with p ''cohorts/'')" for dir
    by (auto simp: returns_def simp del: append_Cons dest: starts_with_dir)
  have one: "returns (io_bind (io_lift (map_err P_Window (format_window_timestamp start))) (\<lambda>timestamp.
      io_bind (list_paths (on_files env) (''cohorts/'' @ cohort @ ''/window='' @ timestamp)) (\<lambda>listed.
      io_pure (map (Pair start) (filter (\<lambda>path. path_extension path = Some ''vseam'') listed)))))
      (\<lambda>objs. \<forall>(s, path) \<in> set objs. s = start \<and> starts_with path ''cohorts/'')" for start
    by (rule returns_bind [OF returns_True], rule returns_bind [OF listed], rule returns_lift) auto
  show ?thesis
    unfolding list_source_objects_def
  proof (rule returns_bind [OF returns_map [OF one]], rule returns_lift, goal_cases)
    case (1 found objs)
    then have "set objs = set (concat found)" by auto
    then show ?case using list_all2_concat [OF 1(1)] by fastforce
  qed
qed

lemma load_headers_reads:
  assumes "\<forall>(start, path) \<in> set objs. start \<in> set ws \<and> starts_with path ''cohorts/''"
  shows "reads source_files (load_source_headers (on_files env) cohort width objs)"
proof -
  have "reads source_files (load_header (on_files env) cohort width by_ulid obj)" if "obj \<in> set objs" for by_ulid obj
  proof -
    obtain start path where obj: "obj = (start, path)" by fastforce
    then have path: "starts_with path ''cohorts/''" using that assms by fastforce
    have "reads source_files (get_bytes (on_files env) path)" by (rule reads_source_get [OF path])
    then show ?thesis
      by (cases "source_part_ulid (env_ulid (on_files env)) path")
        (auto simp: load_header_def obj Let_def intro!: reads_bind reads_lift)
  qed
  then show ?thesis unfolding load_source_headers_def by (intro reads_bind reads_fold reads_lift)
qed

text \<open>The loaded sources have their headers, and no ULID twice.\<close>

lemma load_header_Inr:
  assumes "load_header (on_files env) cohort width m (start, path) (fs, d) = (Inr m', s')"
  shows "s' = (fs, d) \<and> (m' = m \<or> (\<exists>ulid bytes part. omap_get fs path = Some bytes
    \<and> prepare_segment bytes cohort start width = Inr part \<and> m' = omap_insert ulid (source_of path ulid part) m))"
  using assms
  by (auto simp: load_header_def io_bind_Inr result_simps split: option.splits if_splits)

lemma load_headers_loaded:
  assumes objs: "\<forall>(start, path) \<in> set objs. start \<in> set ws \<and> starts_with path ''cohorts/''"
    and run: "load_source_headers (on_files env) (ac_cohort config) (ac_storage_window_seconds config) objs (fs, d)
      = (Inr sources, s')"
  shows "list_all (loaded config ws fs) sources \<and> distinct (map ulid_of sources)"
proof -
  define inv where "inv m \<longleftrightarrow> omap_inv m \<and> (\<forall>u source. omap_get m u = Some source \<longrightarrow>
      ulid_of source = u \<and> loaded config ws fs source)" for m :: "(string, source_part) omap"
  have fold_inv: "inv m'"
    if "io_fold (load_header (on_files env) (ac_cohort config) (ac_storage_window_seconds config)) m objs (fs, d) = (Inr m', s')"
      and "inv m" for m m' s'
    using that objs
  proof (induction objs arbitrary: m)
    case (Cons obj objs)
    obtain start path where pair: "obj = (start, path)" by fastforce
    then have obj: "obj = (start, path)" "start \<in> set ws" "starts_with path ''cohorts/''"
      using Cons.prems(3) by simp_all
    obtain m1 s1 where step: "load_header (on_files env) (ac_cohort config) (ac_storage_window_seconds config) m
        (start, path) (fs, d) = (Inr m1, s1)"
      and rest: "io_fold (load_header (on_files env) (ac_cohort config) (ac_storage_window_seconds config)) m1 objs s1
        = (Inr m', s')"
      using Cons.prems(1) obj by (auto simp: io_bind_Inr)
    have "inv m1"
    proof (cases "m1 = m")
      case False
      then obtain ulid bytes part where load: "omap_get fs path = Some bytes"
        "prepare_segment bytes (ac_cohort config) start (ac_storage_window_seconds config) = Inr part"
        "m1 = omap_insert ulid (source_of path ulid part) m"
        using load_header_Inr [OF step] by blast
      have "pp_window_start part = start" using load(2) by (rule prepare_segment_Inr) simp
      then have "loaded config ws fs (source_of path ulid part)"
        using load obj by (simp add: loaded_def source_of_def)
      then show ?thesis
        using Cons.prems(2) load(3) by (simp add: inv_def omap_insert_inv omap_get_insert source_of_def)
    qed (use Cons.prems(2) in simp)
    then show ?case using Cons.IH rest Cons.prems(3) load_header_Inr [OF step] by simp
  qed simp
  obtain m s'' where fold: "io_fold (load_header (on_files env) (ac_cohort config) (ac_storage_window_seconds config))
      [] objs (fs, d) = (Inr m, s'')" and m2: "sources = omap_values m"
    using run by (auto simp: load_source_headers_def io_bind_Inr)
  have "inv []" by (simp add: inv_def omap_inv_def omap_get_def)
  then have "inv m" by (rule fold_inv [OF fold])
  note m = this m2
  have mem: "ulid_of source = u \<and> loaded config ws fs source" if "(u, source) \<in> set m" for u source
    using that m(1) omap_get_mem [of m u source] by (simp add: inv_def)
  have "map ulid_of sources = map fst m"
    unfolding m(2) omap_values_def map_map
  proof (rule map_cong [OF refl])
    fix x assume "x \<in> set m"
    then show "(ulid_of \<circ> snd) x = fst x" using mem [of "fst x" "snd x"] by simp
  qed
  moreover have "distinct (map fst m)" using m(1) by (simp add: inv_def omap_inv_def strict_sorted_iff)
  moreover have "loaded config ws fs source" if "source \<in> set sources" for source
  proof -
    from that obtain u where "(u, source) \<in> set m" by (auto simp: m(2) omap_values_def)
    then show ?thesis by (rule conjunct2 [OF mem])
  qed
  ultimately show ?thesis by (simp add: list_all_iff)
qed

section \<open>Durable intermediates\<close>

text \<open>The part has a pair of intermediates that the next round keeps.\<close>

definition durable :: "'d round_env \<Rightarrow> aggregation_config \<Rightarrow> files \<Rightarrow> source_part \<Rightarrow> bool" where
  "durable env config fs source \<longleftrightarrow>
     (\<exists>tp sp tb sb i. intermediate_paths (ac_cohort config) (lp_window_start (src_listed source)) (ulid_of source)
          = Inr (tp, sp)
        \<and> omap_get fs tp = Some tb \<and> omap_get fs sp = Some sb
        \<and> read_intermediate_pair_bytes (env_parquet env) tb sb = Inr i
        \<and> matches_source_metadata i source (ac_cohort config) \<and> is_compatible config i)"

lemma durable_frame:
  assumes "durable env config fs source"
    and "\<And>tp sp. intermediate_paths (ac_cohort config) (lp_window_start (src_listed source)) (ulid_of source)
      = Inr (tp, sp) \<Longrightarrow> omap_get fs' tp = omap_get fs tp \<and> omap_get fs' sp = omap_get fs sp"
  shows "durable env config fs' source"
  using assms unfolding durable_def by metis

lemma scan_source_on_files:
  assumes "scan_source (on_files env) config objs scan source (fs, d) = (Inr scan', s')"
  shows "s' = (fs, d) \<and>
    (sc_pending scan' = sc_pending scan @ [source] \<or> sc_pending scan' = sc_pending scan \<and> durable env config fs source)"
proof -
  obtain tp sp where paths: "intermediate_paths (ac_cohort config) (lp_window_start (src_listed source)) (ulid_of source)
      = Inr (tp, sp)" using intermediate_paths_total by blast
  show ?thesis
  proof (cases "tp \<in> set objs \<and> sp \<in> set objs")
    case False
    then show ?thesis using assms paths by (auto simp: scan_source_def)
  next
    case True
    then obtain tb sb where b: "omap_get fs tp = Some tb" "omap_get fs sp = Some sb"
      using assms paths by (auto simp: scan_source_def io_bind_Inr split: option.splits)
    show ?thesis
    proof (cases "read_intermediate_pair_bytes (env_parquet env) tb sb")
      case (Inl e)
      then show ?thesis using assms paths True b by (auto simp: scan_source_def io_bind_Inr)
    next
      case (Inr i)
      then show ?thesis using assms paths True b
        by (auto simp: scan_source_def io_bind_Inr durable_def split: if_splits)
    qed
  qed
qed

lemma scan_sources_on_files:
  assumes "io_fold (scan_source (on_files env) config objs) scan sources (fs, d) = (Inr scan', s')"
  shows "s' = (fs, d) \<and> (\<forall>source \<in> set sources. source \<in> set (sc_pending scan') \<or> durable env config fs source)
    \<and> subseq (sc_pending scan') (sc_pending scan @ sources) \<and> prefix (sc_pending scan) (sc_pending scan')"
  using assms
proof (induction sources arbitrary: scan)
  case (Cons source sources)
  obtain scan1 s1 where step: "scan_source (on_files env) config objs scan source (fs, d) = (Inr scan1, s1)"
    and rest: "io_fold (scan_source (on_files env) config objs) scan1 sources s1 = (Inr scan', s')"
    using Cons.prems by (auto simp: io_bind_Inr)
  note one = scan_source_on_files [OF step]
  note rest = Cons.IH [of scan1] rest one
  show ?case
  proof (cases "sc_pending scan1 = sc_pending scan @ [source]")
    case True
    then show ?thesis using rest by (auto dest: append_prefixD set_mono_prefix)
  next
    case False
    then have "sc_pending scan1 = sc_pending scan" "durable env config fs source" using one by auto
    moreover have "subseq (sc_pending scan @ sources) (sc_pending scan @ source # sources)"
      by (simp add: list_emb_append_mono subseq_Cons')
    ultimately show ?thesis using rest by (auto intro: subseq_order.trans)
  qed
qed simp

text \<open>When every source is durable and its paths are listed, none is pending.\<close>

lemma scan_source_durable:
  assumes "durable env config fs source"
    and "\<And>tp sp. intermediate_paths (ac_cohort config) (lp_window_start (src_listed source)) (ulid_of source)
      = Inr (tp, sp) \<Longrightarrow> {tp, sp} \<subseteq> set objs"
    and "env_parquet env' = env_parquet env"
  shows "\<exists>c. scan_source (on_files env') config objs scan source (fs, d) = (Inr (scan\<lparr>sc_compatible := c\<rparr>), (fs, d))"
  using assms unfolding durable_def
  by (auto simp: scan_source_def io_bind_def)

lemma scan_sources_durable:
  assumes "\<forall>source \<in> set sources. durable env config fs source"
    and "\<And>source tp sp. source \<in> set sources \<Longrightarrow>
      intermediate_paths (ac_cohort config) (lp_window_start (src_listed source)) (ulid_of source) = Inr (tp, sp)
      \<Longrightarrow> {tp, sp} \<subseteq> set objs"
    and "env_parquet env' = env_parquet env"
  shows "\<exists>c. io_fold (scan_source (on_files env') config objs) scan sources (fs, d)
    = (Inr (scan\<lparr>sc_compatible := c\<rparr>), (fs, d))"
  using assms(1,2)
proof (induction sources arbitrary: scan)
  case Nil
  show ?case by (intro exI [of _ "sc_compatible scan"]) simp
next
  case (Cons source sources)
  obtain c where step: "scan_source (on_files env') config objs scan source (fs, d)
      = (Inr (scan\<lparr>sc_compatible := c\<rparr>), (fs, d))"
    using scan_source_durable [OF _ _ assms(3)] Cons.prems by (metis list.set_intros(1))
  obtain c' where "io_fold (scan_source (on_files env') config objs) (scan\<lparr>sc_compatible := c\<rparr>) sources (fs, d)
      = (Inr (scan\<lparr>sc_compatible := c, sc_compatible := c'\<rparr>), (fs, d))"
    using Cons.IH [of "scan\<lparr>sc_compatible := c\<rparr>"] Cons.prems by auto
  then show ?case using step by (auto simp: io_bind_def)
qed


lemma store_measured_on_files:
  assumes "store_measured (on_files env) config source m (fs, d) = (Inr i, s')"
  obtains tp sp tb sb where "intermediate_paths (ac_cohort config) (lp_window_start (src_listed source)) (ulid_of source)
      = Inr (tp, sp)"
    and "encode_intermediate_pair (env_parquet env) (mp_metadata m) (mp_truth_rows m) (mp_sweep_rows m) = Inr (tb, sb)"
    and "read_intermediate_pair_bytes (env_parquet env) tb sb = Inr i"
    and "s' = (omap_insert sp sb (omap_insert tp tb fs), d)"
  using assms by (auto simp: store_measured_def Let_def io_bind_Inr result_simps)

lemma measure_source_on_files:
  assumes "measure_source (on_files env) config now source (fs, d) = (Inr outcome, s')"
  obtains bytes part w w' where "omap_get fs (src_path source) = Some bytes"
    and "prepare_segment bytes (ac_cohort config) (lp_window_start (src_listed source))
           (ac_storage_window_seconds config) = Inr part"
    and "measure_prepared_part (env_measurer (on_files env)) (env_cancelled (on_files env)) part (ulid_of source)
           config now w = (Inr outcome, w')"
    and "fst s' = fs"
proof -
  obtain bytes part where load: "omap_get fs (src_path source) = Some bytes"
    "prepare_segment bytes (ac_cohort config) (lp_window_start (src_listed source))
           (ac_storage_window_seconds config) = Inr part"
    and run: "(case measure_prepared_part (env_measurer (on_files env)) (env_cancelled (on_files env)) part
        (ulid_of source) config now (fs, d) of (result, w) \<Rightarrow> (map_err (P_SourceSegment (src_path source)) result, w))
      = (Inr outcome, s')"
    using assms by (auto simp: measure_source_def io_bind_Inr result_simps split: option.splits)
  have "fst (snd (measure_prepared_part (env_measurer (on_files env)) (env_cancelled (on_files env)) part
      (ulid_of source) config now (fs, d))) = fst (fs, d)"
    by (rule measure_prepared_part_keeps) (simp add: on_files_def beside_def split: prod.split)
  moreover have "measure_prepared_part (env_measurer (on_files env)) (env_cancelled (on_files env)) part
      (ulid_of source) config now (fs, d) = (Inr outcome, s')"
    using run by (simp add: result_simps split: prod.splits)
  ultimately show thesis using that load by simp
qed

lemma measured_part_metadata:
  assumes "measure_prepared_part ms cancelled part ulid config now w = (Inr (MP_Complete m), w')"
  shows "\<exists>failed measured. mp_metadata m = measured_metadata part ulid config now failed measured"
  using assms
  by (auto simp: measure_prepared_part_def measure_loop_early split: prod.splits sum.splits if_splits) blast

lemma stored_pair_durable:
  assumes law: "parquet_law (env_parquet env)"
    and grid: "sorted_wrt (<) (ac_ef_grid config)" "i32_list (ac_ef_grid config)"
    and inv: "omap_inv fs" and loaded: "loaded config ws fs source"
    and measured: "measure_source (on_files env) config now source (fs, d) = (Inr (MP_Complete m), s1)"
    and stored: "store_measured (on_files env) config source m s1 = (Inr i, (fs2, d2))"
  shows "durable env config fs2 source \<and> omap_inv fs2 \<and> source_files (fs2, d2) = source_files (fs, d)
    \<and> (\<forall>other. ulid_of other \<noteq> ulid_of source \<longrightarrow> durable env config fs other \<longrightarrow> durable env config fs2 other)"
proof (rule measure_source_on_files [OF measured], goal_cases)
  case (1 bytes part w w')
  obtain d1 where s1: "s1 = (fs, d1)" using 1(4) by (cases s1) simp
  obtain tp sp tb sb where st: "intermediate_paths (ac_cohort config) (lp_window_start (src_listed source)) (ulid_of source)
      = Inr (tp, sp)"
    "encode_intermediate_pair (env_parquet env) (mp_metadata m) (mp_truth_rows m) (mp_sweep_rows m) = Inr (tb, sb)"
    "read_intermediate_pair_bytes (env_parquet env) tb sb = Inr i"
    "(fs2, d2) = (omap_insert sp sb (omap_insert tp tb fs), d1)"
    using store_measured_on_files [OF stored [unfolded s1]] by metis
  have get: "omap_get fs2 p = (if p = sp then Some sb else if p = tp then Some tb else omap_get fs p)" for p
    using st(4) inv by (simp add: omap_get_insert omap_insert_inv)
  have "i = \<lparr>ip_metadata = mp_metadata m, ip_samples = map (joined_sample (mp_sweep_rows m)) (mp_truth_rows m)\<rparr>"
    using encoded_part_reads [OF law 1(2,3) grid st(2)] st(3) by simp
  then obtain failed measured where md: "ip_metadata i = measured_metadata part (ulid_of source) config now failed measured"
    using measured_part_metadata [OF 1(3)] by auto
  obtain part' where "prepare_segment bytes (ac_cohort config) (lp_window_start (src_listed source))
      (ac_storage_window_seconds config) = Inr part'"
    and listed: "lp_window_seconds (src_listed source) = pp_window_seconds part'"
      "lp_received_frame_count (src_listed source) = pp_received_frame_count part'"
      "lp_record_count (src_listed source) = pp_record_count part'"
    using loaded 1(1) by (auto simp: loaded_def)
  then have "part' = part" using 1(2) by simp
  moreover have "pp_cohort part = ac_cohort config" "pp_window_start part = lp_window_start (src_listed source)"
    using 1(2) by (rule prepare_segment_Inr, simp)+
  ultimately have "matches_source_metadata i source (ac_cohort config)" "is_compatible config i"
    using listed by (simp_all add: matches_source_metadata_def is_compatible_def Let_def md measured_metadata_def)
  moreover have "tp \<noteq> sp" using intermediate_paths_apart(1) [OF st(1) st(1)] .
  ultimately have "durable env config fs2 source"
    using st(1,3) unfolding durable_def by (metis get)
  moreover have "durable env config fs2 other"
    if "ulid_of other \<noteq> ulid_of source" "durable env config fs other" for other
  proof (rule durable_frame [OF that(2)])
    fix tp' sp'
    assume "intermediate_paths (ac_cohort config) (lp_window_start (src_listed other)) (ulid_of other) = Inr (tp', sp')"
    with that(1) show "omap_get fs2 tp' = omap_get fs tp' \<and> omap_get fs2 sp' = omap_get fs sp'"
      using intermediate_paths_apart [OF _ st(1)] intermediate_paths_apart(1) [OF st(1)] by (metis get)
  qed
  moreover have "\<not> starts_with tp ''cohorts/''" "\<not> starts_with sp ''cohorts/''"
    using st(1) by (rule intermediate_paths_form, simp)+
  then have "source_files (fs2, d2) = source_files (fs, d)"
    using st(4) source_files_put by (metis fst_conv prod.inject)
  moreover have "omap_inv fs2" using st(4) inv by (simp add: omap_insert_inv)
  ultimately show ?case by blast
qed

lemma measure_pending_on_files:
  assumes law: "parquet_law (env_parquet env)"
    and grid: "sorted_wrt (<) (ac_ef_grid config)" "i32_list (ac_ef_grid config)"
    and "measure_pending (on_files env) config now c pending (fs, d) = (Inr (PA_Done c' None), (fs', d'))"
    and "omap_inv fs" and "list_all (loaded config ws fs) pending" and "distinct (map ulid_of pending)"
  shows "omap_inv fs' \<and> source_files (fs', d') = source_files (fs, d)
    \<and> (\<forall>source \<in> set pending. durable env config fs' source)
    \<and> (\<forall>other. ulid_of other \<notin> ulid_of ` set pending \<longrightarrow> durable env config fs other \<longrightarrow> durable env config fs' other)"
  using assms(4-7)
proof (induction pending arbitrary: c fs d)
  case (Cons source rest)
  obtain outcome s1 where first: "measure_source (on_files env) config now source (fs, d) = (Inr outcome, s1)"
    and cont: "(case outcome of
       MP_Complete measured \<Rightarrow>
         io_bind (store_measured (on_files env) config source measured) (\<lambda>intermediate.
         measure_pending (on_files env) config now (omap_insert (ulid_of source) intermediate c) rest)
     | MP_TableSmallerThanK abort \<Rightarrow> io_pure (PA_Done c (Some abort))
     | MP_ConnectionUnavailable e \<Rightarrow> io_fail (P_ConnectionUnavailable (ulid_of source) e)
     | MP_Cancelled \<Rightarrow> io_pure PA_Cancelled) s1 = (Inr (PA_Done c' None), (fs', d'))"
    using Cons.prems(1) by (auto simp: io_bind_Inr io_read_def split: if_splits)
  obtain m where m: "outcome = MP_Complete m" using cont by (cases outcome) simp_all
  then have measured: "measure_source (on_files env) config now source (fs, d) = (Inr (MP_Complete m), s1)"
    using first by simp
  obtain i s2 where "store_measured (on_files env) config source m s1 = (Inr i, s2)"
    and "measure_pending (on_files env) config now (omap_insert (ulid_of source) i c) rest s2
      = (Inr (PA_Done c' None), (fs', d'))" using cont m by (auto simp: io_bind_Inr)
  then obtain fs2 d2 where stored: "store_measured (on_files env) config source m s1 = (Inr i, (fs2, d2))"
    and run: "measure_pending (on_files env) config now (omap_insert (ulid_of source) i c) rest (fs2, d2)
      = (Inr (PA_Done c' None), (fs', d'))" by (cases s2) simp
  have l: "loaded config ws fs source" using Cons.prems(3) by simp
  note step = stored_pair_durable [OF law grid Cons.prems(2) l measured stored]
  have "loaded config ws fs2 other" if "loaded config ws fs other" for other
    using that step omap_get_source [of "src_path other" fs d] omap_get_source [of "src_path other" fs2 d2]
    by (simp add: loaded_def)
  then have "list_all (loaded config ws fs2) rest" using Cons.prems(3) by (simp add: list_all_iff)
  from Cons.IH [OF run _ this] have rest: "omap_inv fs'" "source_files (fs', d') = source_files (fs2, d2)"
    "\<forall>source \<in> set rest. durable env config fs' source"
    "\<forall>other. ulid_of other \<notin> ulid_of ` set rest \<longrightarrow> durable env config fs2 other \<longrightarrow> durable env config fs' other"
    using step Cons.prems(4) by auto
  have "ulid_of source \<notin> ulid_of ` set rest" using Cons.prems(4) by auto
  then show ?case using rest step by auto
qed auto

section \<open>The next round\<close>

text \<open>What finishing a round changes: at most the two documents of its cohort.\<close>

definition only_documents :: "string \<Rightarrow> string \<Rightarrow> files \<times> 'd \<Rightarrow> files \<times> 'd \<Rightarrow> bool" where
  "only_documents history latest s s' \<longleftrightarrow>
     snd s' = snd s \<and> omap_inv (fst s') \<and> source_files s' = source_files s
     \<and> (\<forall>p. p \<noteq> history \<longrightarrow> p \<noteq> latest \<longrightarrow> omap_get (fst s') p = omap_get (fst s) p)"

lemma only_documents_refl: "omap_inv (fst s) \<Longrightarrow> only_documents history latest s s"
  by (simp add: only_documents_def)

lemma only_documents_put:
  assumes "only_documents history latest s (fs, d)" and "p \<in> {history, latest}"
    and "\<not> starts_with p ''cohorts/''"
  shows "only_documents history latest s (omap_insert p b fs, d)"
  using assms source_files_put [OF assms(3), of b fs d d]
  by (auto simp: only_documents_def omap_insert_inv omap_get_insert)

lemma publish_on_files:
  assumes "publish (on_files env) history latest input (fs, d) = (r, s')"
    and "omap_inv fs" and "\<not> starts_with history ''cohorts/''" and "\<not> starts_with latest ''cohorts/''"
  shows "only_documents history latest (fs, d) s'"
proof -
  have base: "only_documents history latest (fs, d) (fs, d)" using assms(2) by (intro only_documents_refl) simp
  have one: "only_documents history latest (fs, d) (omap_insert history b fs, d)" for b
    by (rule only_documents_put [OF base _ assms(3)]) simp
  have two: "only_documents history latest (fs, d) (omap_insert latest b (omap_insert history b fs), d)" for b
    by (rule only_documents_put [OF one _ assms(4)]) simp
  show ?thesis
    using assms(1) base one two
    by (auto simp: publish_def io_bind_def io_lift_def split: prod.splits sum.splits)
qed

lemma load_previous_on_files:
  "\<exists>q. load_previous_round (on_files env) path (fs, d) = (q, (fs, d))"
  by (auto simp: load_previous_round_def on_files_def mem_store_def split: option.split sum.split)

lemma finish_round_on_files:
  assumes run: "finish_round (on_files env) config round_end computed_at sources scan phase_a (fs, d) = (r, s')"
    and paths: "round_paths (ac_cohort config) round_end = Inr (history, latest)" and inv: "omap_inv fs"
  shows "only_documents history latest (fs, d) s'"
proof -
  have base: "only_documents history latest (fs, d) (fs, d)" using inv by (intro only_documents_refl) simp
  have apart: "\<not> starts_with history ''cohorts/''" "\<not> starts_with latest ''cohorts/''"
    using paths by (auto simp: round_paths_def result_simps)
  show ?thesis
  proof (cases phase_a)
    case PA_Cancelled
    then show ?thesis using run base by (auto simp: finish_round_def)
  next
    case (PA_Done compatible abort)
    obtain q where prev: "load_previous_round (on_files env) latest (fs, d) = (q, (fs, d))"
      using load_previous_on_files [of env latest fs d] by (elim exE)
    show ?thesis
    proof (cases "env_cancelled env d")
      case True
      then show ?thesis using run base PA_Done by (auto simp: finish_round_def io_bind_def io_read_def)
    next
      case False
      show ?thesis
      proof (cases q)
        case (Inl e)
        then show ?thesis using run base PA_Done False prev paths
          by (auto simp: finish_round_def io_bind_def io_read_def io_lift_def)
      next
        case (Inr previous)
        then obtain input where "publish (on_files env) history latest input (fs, d) = (r, s')"
          using run PA_Done False prev paths
          by (auto simp: finish_round_def io_bind_def io_read_def io_lift_def)
        then show ?thesis by (rule publish_on_files [OF _ inv apart])
      qed
    qed
  qed
qed

text \<open>A measurer that never finds the table too small never aborts phase A.\<close>

text \<open>A published round tells whether Phase A was aborted.\<close>

lemma finish_round_error:
  assumes "finish_round env config round_end computed_at sources scan (PA_Done c abort) s = (Inr (Published out), s')"
  shows "rd_error out = map_option abort_error abort"
proof -
  obtain input where "aggregate (env_beta env) input = Inr out" "ai_phase_a_abort input = abort"
    using assms by (auto simp: finish_round_def publish_def io_bind_Inr result_simps split: if_splits)
  then show ?thesis using round_labels(4) by metis
qed


text \<open>The listing of measurements holds every stored path of the windows.\<close>

lemma list_measurements_on_files:
  "\<exists>objs. list_measurement_objects (on_files env) cohort ws (fs, d) = (Inr objs, (fs, d)) \<and>
     (\<forall>start \<in> set ws. \<forall>t p. format_window_timestamp start = Inr t \<longrightarrow> p \<in> fst ` set fs \<longrightarrow>
        starts_with p ((''measurements/'' @ cohort @ ''/window='' @ t) @ ''/'') \<longrightarrow> p \<in> set objs)"
proof -
  define one where "one start = io_bind (io_lift (map_err P_Window (format_window_timestamp start))) (\<lambda>timestamp.
      list_paths (on_files env) (''measurements/'' @ cohort @ ''/window='' @ timestamp))" for start
  have "\<exists>found. io_map one ws (fs, d) = (Inr found, (fs, d)) \<and>
     (\<forall>start \<in> set ws. \<forall>t p. format_window_timestamp start = Inr t \<longrightarrow> p \<in> fst ` set fs \<longrightarrow>
        starts_with p ((''measurements/'' @ cohort @ ''/window='' @ t) @ ''/'') \<longrightarrow> p \<in> set (concat found))"
  proof (induction ws)
    case (Cons start ws)
    then obtain found where found: "io_map one ws (fs, d) = (Inr found, (fs, d))"
      "\<forall>start \<in> set ws. \<forall>t p. format_window_timestamp start = Inr t \<longrightarrow> p \<in> fst ` set fs \<longrightarrow>
        starts_with p ((''measurements/'' @ cohort @ ''/window='' @ t) @ ''/'') \<longrightarrow> p \<in> set (concat found)" by blast
    obtain t where t: "format_window_timestamp start = Inr t" using format_window_timestamp_total by blast
    let ?here = "filter (\<lambda>p. starts_with p ((''measurements/'' @ cohort @ ''/window='' @ t) @ ''/'')) (map fst fs)"
    have "io_map one (start # ws) (fs, d) = (Inr (?here # found), (fs, d))"
      using found(1) t by (simp add: one_def io_bind_def io_lift_def del: append_assoc append_Cons)
    then show ?case using found(2) t by (intro exI [of _ "?here # found"]) (auto simp del: append_assoc append_Cons)
  qed simp
  then obtain found where "io_map one ws (fs, d) = (Inr found, (fs, d))"
    "\<forall>start \<in> set ws. \<forall>t p. format_window_timestamp start = Inr t \<longrightarrow> p \<in> fst ` set fs \<longrightarrow>
        starts_with p ((''measurements/'' @ cohort @ ''/window='' @ t) @ ''/'') \<longrightarrow> p \<in> set (concat found)" by blast
  then show ?thesis
    unfolding list_measurement_objects_def one_def [symmetric]
    by (intro exI [of _ "concat found"]) (simp add: io_bind_def io_lift_def)
qed

lemma durable_paths_listed:
  assumes "durable env config fs source" and "lp_window_start (src_listed source) \<in> set ws"
    and "list_measurement_objects (on_files env') (ac_cohort config) ws (fs, d) = (Inr objs, s)"
    and "intermediate_paths (ac_cohort config) (lp_window_start (src_listed source)) (ulid_of source) = Inr (tp, sp)"
  shows "{tp, sp} \<subseteq> set objs"
proof -
  obtain t where t: "format_window_timestamp (lp_window_start (src_listed source)) = Inr t"
    "tp = (''measurements/'' @ ac_cohort config @ ''/window='') @ t @ CHR ''/'' # (''part-'' @ ulid_of source) @ ''.truth.parquet''"
    "sp = (''measurements/'' @ ac_cohort config @ ''/window='') @ t @ CHR ''/'' # (''part-'' @ ulid_of source) @ ''.sweep.parquet''"
    using intermediate_paths_form [OF assms(4)] by metis
  have "starts_with tp ((''measurements/'' @ ac_cohort config @ ''/window='' @ t) @ ''/'')"
    "starts_with sp ((''measurements/'' @ ac_cohort config @ ''/window='' @ t) @ ''/'')"
    unfolding t(2,3) starts_with_append by simp_all
  moreover have "tp \<in> fst ` set fs" "sp \<in> fst ` set fs"
    using assms(1,4) by (auto simp: durable_def omap_get_def dest!: map_of_SomeD intro: rev_image_eqI)
  ultimately show ?thesis
    using list_measurements_on_files [of env' "ac_cohort config" ws fs d] assms(2,3) t(1) by auto
qed

text \<open>Which sources a round loads does not depend on the rest of its environment.\<close>

lemma list_source_objects_env:
  "list_source_objects (on_files env') cohort ws = list_source_objects (on_files env) cohort ws"
  unfolding list_source_objects_def list_paths_def by (simp add: on_files_def)

lemma load_source_headers_env:
  assumes "env_ulid env' = env_ulid env"
  shows "load_source_headers (on_files env') cohort width objs = load_source_headers (on_files env) cohort width objs"
proof -
  have get: "get_bytes (on_files env') = get_bytes (on_files env)"
    by (intro ext) (simp add: get_bytes_def on_files_def)
  have "load_header (on_files env') cohort width = load_header (on_files env) cohort width"
    unfolding load_header_def on_files_simps assms get ..
  then show ?thesis by (simp add: load_source_headers_def)
qed

text \<open>The state after a published round: every source is durable, and the sources are as they were.\<close>

lemma published_round_durable:
  assumes law: "parquet_law (env_parquet env)"
    and grid: "sorted_wrt (<) (ac_ef_grid config)" "i32_list (ac_ef_grid config)"
    and inv: "omap_inv fs"
    and no_abort: "rd_error out = None"
    and run: "run_cohort_round (on_files env) config round_end computed_at computed_at_us (fs, d)
      = (Inr (Published out), (fs1, d1))"
    and windows: "in_scope_window_starts round_end (ac_window_duration_seconds config)
      (ac_storage_window_seconds config) = Inr ws"
  obtains objs sources where "list_source_objects (on_files env) (ac_cohort config) ws (fs, d) = (Inr objs, (fs, d))"
    and "\<forall>(start, path) \<in> set objs. start \<in> set ws \<and> starts_with path ''cohorts/''"
    and "load_source_headers (on_files env) (ac_cohort config) (ac_storage_window_seconds config) objs (fs, d)
      = (Inr sources, (fs, d))"
    and "\<forall>source \<in> set sources. durable env config fs1 source \<and> lp_window_start (src_listed source) \<in> set ws"
    and "source_files (fs1, d1) = source_files (fs, d)" and "omap_inv fs1"
proof -
  obtain objs s1 where objs: "list_source_objects (on_files env) (ac_cohort config) ws (fs, d) = (Inr objs, s1)"
    and "run_cohort_round (on_files env) config round_end computed_at computed_at_us (fs, d)
      = (Inr (Published out), (fs1, d1))"
    using run windows by (auto simp: run_cohort_round_def load_round_def io_bind_Inr split: prod.splits)
  have s1: "s1 = (fs, d)" by (rule reads_keep [OF list_source_objects_reads objs])
  have form: "\<forall>(start, path) \<in> set objs. start \<in> set ws \<and> starts_with path ''cohorts/''"
    by (rule returnsD [OF list_source_objects_returns objs])
  obtain mos where mos: "list_measurement_objects (on_files env) (ac_cohort config) ws (fs, d) = (Inr mos, (fs, d))"
    using list_measurements_on_files [of env "ac_cohort config" ws fs d] by blast
  obtain sources s2 scan s3 where sources: "load_source_headers (on_files env) (ac_cohort config)
      (ac_storage_window_seconds config) objs (fs, d) = (Inr sources, s2)"
    and scan: "io_fold (scan_source (on_files env) config mos)
      \<lparr>sc_compatible = [], sc_pending = [], sc_incompatible = 0\<rparr> sources s2 = (Inr scan, s3)"
    and rest: "io_bind (measure_pending (on_files env) config computed_at_us (sc_compatible scan) (sc_pending scan))
       (finish_round (on_files env) config round_end computed_at sources scan) s3 = (Inr (Published out), (fs1, d1))"
    using run windows objs [unfolded s1] mos by (auto simp: run_cohort_round_def load_round_def io_bind_Inr)
  have s2: "s2 = (fs, d)" by (rule reads_keep [OF load_headers_reads [OF form] sources])
  note sources = sources [unfolded s2] and scan = scan [unfolded s2]
  have loaded: "list_all (loaded config ws fs) sources" "distinct (map ulid_of sources)"
    using load_headers_loaded [OF form sources] by simp_all
  have scanned: "s3 = (fs, d)" "\<forall>source \<in> set sources. source \<in> set (sc_pending scan) \<or> durable env config fs source"
    "subseq (sc_pending scan) sources"
    using scan_sources_on_files [OF scan] by simp_all
  obtain c' abort fs2 d2 where pending: "measure_pending (on_files env) config computed_at_us (sc_compatible scan)
      (sc_pending scan) (fs, d) = (Inr (PA_Done c' abort), (fs2, d2))"
    and finish: "finish_round (on_files env) config round_end computed_at sources scan (PA_Done c' abort) (fs2, d2)
      = (Inr (Published out), (fs1, d1))"
  proof -
    obtain pa s where pa: "measure_pending (on_files env) config computed_at_us (sc_compatible scan)
      (sc_pending scan) (fs, d) = (Inr pa, s)"
      "finish_round (on_files env) config round_end computed_at sources scan pa s = (Inr (Published out), (fs1, d1))"
      using rest scanned(1) by (auto simp: io_bind_Inr)
    show thesis using pa that by (cases pa; cases s) (auto simp: finish_round_def)
  qed
  have "list_all (loaded config ws fs) (sc_pending scan)"
    using loaded(1) scanned(3) by (auto simp: list_all_iff dest: list_emb_set)
  moreover have "distinct (map ulid_of (sc_pending scan))"
    using loaded(2) subseq_map [OF scanned(3), of ulid_of] by (auto simp: subseq_conv_nths distinct_nthsI)
  moreover have "abort = None" using finish_round_error [OF finish] no_abort by simp
  ultimately have after: "omap_inv fs2" "source_files (fs2, d2) = source_files (fs, d)"
    "\<forall>source \<in> set (sc_pending scan). durable env config fs2 source"
    "\<forall>other. ulid_of other \<notin> ulid_of ` set (sc_pending scan) \<longrightarrow> durable env config fs other \<longrightarrow> durable env config fs2 other"
    using measure_pending_on_files [OF law grid _ inv, of computed_at_us "sc_compatible scan" "sc_pending scan" d c' fs2 d2 ws]
      pending by auto
  obtain history latest where paths: "round_paths (ac_cohort config) round_end = Inr (history, latest)"
    using round_paths_total by blast
  have only: "only_documents history latest (fs2, d2) (fs1, d1)"
    by (rule finish_round_on_files [OF finish paths after(1)])
  have durable1: "durable env config fs1 source" if "source \<in> set sources" for source
  proof (rule durable_frame)
    show "durable env config fs2 source"
    proof (cases "source \<in> set (sc_pending scan)")
      case False
      then have "durable env config fs source" using scanned(2) that by blast
      moreover have "ulid_of source \<notin> ulid_of ` set (sc_pending scan)"
        using False that loaded(2) list_emb_set [OF scanned(3)] by (auto simp: distinct_map inj_on_def)
      ultimately show ?thesis using after(4) by blast
    qed (use after(3) in blast)
    fix tp sp
    assume "intermediate_paths (ac_cohort config) (lp_window_start (src_listed source)) (ulid_of source) = Inr (tp, sp)"
    then have "tp \<notin> {history, latest}" "sp \<notin> {history, latest}"
      using paths by (auto simp: round_paths_def result_simps elim!: intermediate_paths_form)
    then show "omap_get fs1 tp = omap_get fs2 tp \<and> omap_get fs1 sp = omap_get fs2 sp"
      using only by (simp add: only_documents_def)
  qed
  have all: "\<forall>source \<in> set sources. durable env config fs1 source \<and> lp_window_start (src_listed source) \<in> set ws"
    using durable1 loaded(1) by (auto simp: list_all_iff loaded_def)
  have "source_files (fs1, d1) = source_files (fs, d)" "omap_inv fs1"
    using only after(2) unfolding only_documents_def by auto
  then show thesis by (rule that [OF objs [unfolded s1] form sources all])
qed

text \<open>
  C8. A round published without an error is durable: over a store that keeps what is put, a round that
  follows it with the same configuration and the same end, after a restart or with another measurer,
  sends nothing to the database, whatever it holds by then, and changes at most the two documents of its
  cohort. A round published with an error (Phase A was aborted because the table returned fewer than
  \<open>k\<close> rows) promises nothing: its pending parts are measured again. The Parquet library must keep its
  law.
\<close>

theorem published_round_is_not_measured_again:
  fixes env env' :: "'d round_env"
  assumes "parquet_law (env_parquet env)"
    and "sorted_wrt (<) (ac_ef_grid config)" and "i32_list (ac_ef_grid config)" and "omap_inv fs"
    and "rd_error out = None"
    and "run_cohort_round (on_files env) config round_end computed_at computed_at_us (fs, d)
      = (Inr (Published out), (fs1, d1))"
    and "env_parquet env' = env_parquet env" and "env_ulid env' = env_ulid env"
    and "run_cohort_round (on_files env') config round_end later later_us (fs1, d2) = (r, (fs2, d3))"
    and "round_paths (ac_cohort config) round_end = Inr (history, latest)"
  shows "d3 = d2 \<and> (\<forall>p. p \<notin> {history, latest} \<longrightarrow> omap_get fs2 p = omap_get fs1 p)"
proof -
  obtain ws where ws: "in_scope_window_starts round_end (ac_window_duration_seconds config)
      (ac_storage_window_seconds config) = Inr ws"
    using assms(6) by (auto simp: run_cohort_round_def load_round_def io_bind_Inr result_simps)
  obtain objs sources where run1: "list_source_objects (on_files env) (ac_cohort config) ws (fs, d) = (Inr objs, (fs, d))"
    "\<forall>(start, path) \<in> set objs. start \<in> set ws \<and> starts_with path ''cohorts/''"
    "load_source_headers (on_files env) (ac_cohort config) (ac_storage_window_seconds config) objs (fs, d)
      = (Inr sources, (fs, d))"
    "\<forall>source \<in> set sources. durable env config fs1 source \<and> lp_window_start (src_listed source) \<in> set ws"
    "source_files (fs1, d1) = source_files (fs, d)" "omap_inv fs1"
    by (rule published_round_durable [OF assms(1-6) ws])
  have view: "source_files (fs1, d2) = source_files (fs, d)" using run1(5) by (simp add: source_files_def)
  have objs: "list_source_objects (on_files env') (ac_cohort config) ws (fs1, d2) = (Inr objs, (fs1, d2))"
    using reads_same [OF list_source_objects_reads run1(1) view] list_source_objects_env [of env'] by metis
  obtain mos where mos: "list_measurement_objects (on_files env') (ac_cohort config) ws (fs1, d2) = (Inr mos, (fs1, d2))"
    using list_measurements_on_files [of env' "ac_cohort config" ws fs1 d2] by blast
  have headers: "load_source_headers (on_files env') (ac_cohort config) (ac_storage_window_seconds config) objs (fs1, d2)
      = (Inr sources, (fs1, d2))"
    using reads_same [OF load_headers_reads [OF run1(2)] run1(3) view] load_source_headers_env [OF assms(8)] by metis
  have listed: "{tp, sp} \<subseteq> set mos"
    if "source \<in> set sources"
      "intermediate_paths (ac_cohort config) (lp_window_start (src_listed source)) (ulid_of source) = Inr (tp, sp)"
    for source tp sp
    using run1(4) that(1) by (intro durable_paths_listed [OF _ _ mos that(2)]) auto
  obtain c where scan: "io_fold (scan_source (on_files env') config mos)
      \<lparr>sc_compatible = [], sc_pending = [], sc_incompatible = 0\<rparr> sources (fs1, d2)
      = (Inr \<lparr>sc_compatible = c, sc_pending = [], sc_incompatible = 0\<rparr>, (fs1, d2))"
    using scan_sources_durable [OF _ listed assms(7), where scan = "\<lparr>sc_compatible = [], sc_pending = [], sc_incompatible = 0\<rparr>"]
      run1(4) by fastforce
  have "finish_round (on_files env') config round_end later sources
      \<lparr>sc_compatible = c, sc_pending = [], sc_incompatible = 0\<rparr> (PA_Done c None) (fs1, d2) = (r, (fs2, d3))"
    using assms(9) ws objs mos headers scan
    by (simp add: run_cohort_round_def load_round_def io_bind_def io_lift_def)
  from finish_round_on_files [OF this assms(10) run1(6)] show ?thesis by (simp add: only_documents_def)
qed


section \<open>An example\<close>

text \<open>
  One source part whose only sample the database refuses, in a world that counts the samples it is sent: the round measures it, stores its pair and
  publishes a round without a recommendation.
\<close>

definition refusing_measurer :: "nat measurer" where
  "refusing_measurer vector config w = (Inl (ME_Database ''refused''), Suc w)"

definition example_metadata :: intermediate_metadata where
  "example_metadata = measured_metadata example_prepared_part ''01A'' example_part_config 5 1 0"

definition example_batches :: "record_batch \<times> record_batch" where
  "example_batches = (\<lparr>rb_columns = [Int32Array [], UInt64Array [], Int32Array [], Int64Array [], Float64Array [],
        ListInt64Array [], ListFloat64Array []], rb_num_rows = 0\<rparr>,
     \<lparr>rb_columns = [Int32Array [], Int32Array [], ListInt64Array [], Float64Array [], Float64Array [], Int32Array []],
      rb_num_rows = 0\<rparr>)"

definition example_env :: "nat round_env" where
  "example_env =
     \<lparr>env_store = \<lparr>os_list = \<lambda>_ w. (Inr [], w), os_get = \<lambda>p w. (Inl (Se_NotFound p), w), os_put = \<lambda>_ _ w. (Inr (), w)\<rparr>,
      env_measurer = refusing_measurer, env_cancelled = \<lambda>_. False,
      env_parquet = example_parquet (truth_schema, fst example_batches, metadata_key_values example_metadata)
                      (sweep_schema, snd example_batches, metadata_key_values example_metadata),
      env_ulid = Some, env_beta = \<lambda>_ _ _. Fin 0, env_json_read = \<lambda>_. Inl ''malformed'',
      env_json_write = \<lambda>_. Inr [3]\<rparr>"

definition example_files :: files where
  "example_files = [(''cohorts/prod/window=19700101T0010Z/part-01A.vseam'', example_segment_bytes)]"

lemma example_division:
  "tdiv 719468 146097 = 4" "tdiv 135080 1460 = 92" "tdiv 135080 36524 = 3" "tdiv 135080 146096 = 0"
  "tdiv 134991 365 = 369" "tdiv 369 4 = 92" "tdiv 369 100 = 3" "tdiv 1532 153 = 10" "tdiv 1532 5 = 306"
  by (simp_all add: tdiv_def)

lemma example_day: "civil_from_days 0 = Inr (1970, 1, 1)"
  by (simp add: civil_from_days_def i64_checked_add_def example_division)

lemma example_digits:
  "digit_char 0 = CHR ''0''" "digit_char (Suc 0) = CHR ''1''" "digit_char 2 = CHR ''2''" "digit_char 7 = CHR ''7''"
  "digit_char 9 = CHR ''9''"
  by (simp_all add: digit_char_def char_of_def bit_0)

lemma example_timestamps:
  "format_window_timestamp 0 = Inr ''19700101T0000Z''" "format_window_timestamp 600 = Inr ''19700101T0010Z''"
  "format_window_timestamp 1200 = Inr ''19700101T0020Z''"
  by (simp_all add: format_window_timestamp_def example_day SECONDS_PER_DAY_def SECONDS_PER_HOUR_def
      SECONDS_PER_MINUTE_def show_int_padded_def show_padded_def show_nat_def dec_digits.simps example_digits
      numeral_nat(7))

lemma example_extension: "path_extension ''cohorts/prod/window=19700101T0010Z/part-01A.vseam'' = Some ''vseam''"
  by code_simp

lemma example_dirs:
  "\<not> starts_with ''cohorts/prod/window=19700101T0010Z/part-01A.vseam'' ''cohorts/prod/window=19700101T0000Z/''"
  "starts_with ''cohorts/prod/window=19700101T0010Z/part-01A.vseam'' ''cohorts/prod/window=19700101T0010Z/''"
  by code_simp+

lemma example_listing:
  "list_source_objects (on_files example_env) ''prod'' [0, 600] (example_files, 0)
     = (Inr [(600, ''cohorts/prod/window=19700101T0010Z/part-01A.vseam'')], (example_files, 0))"
proof -
  have "map fst example_files = [''cohorts/prod/window=19700101T0010Z/part-01A.vseam'']" by (simp add: example_files_def)
  then show ?thesis
    by (simp add: list_source_objects_def io_bind_def io_lift_def example_timestamps example_extension example_dirs)
qed

lemma example_measurements:
  "list_measurement_objects (on_files example_env) ''prod'' [0, 600] (example_files, 0) = (Inr [], (example_files, 0))"
  by (simp add: list_measurement_objects_def io_bind_def io_lift_def example_timestamps example_files_def)

definition example_source :: source_part where
  "example_source = source_of ''cohorts/prod/window=19700101T0010Z/part-01A.vseam'' ''01A'' example_prepared_part"

lemma example_ulid: "source_part_ulid (env_ulid example_env) ''cohorts/prod/window=19700101T0010Z/part-01A.vseam'' = Some ''01A''"
  by (simp add: source_part_ulid_def path_filename_def strip_prefix_def strip_suffix_def example_env_def)

lemma example_object: "omap_get example_files ''cohorts/prod/window=19700101T0010Z/part-01A.vseam'' = Some example_segment_bytes"
  by (simp add: omap_get_def example_files_def)

lemma example_headers:
  "load_source_headers (on_files example_env) ''prod'' 600
     [(600, ''cohorts/prod/window=19700101T0010Z/part-01A.vseam'')] (example_files, 0)
     = (Inr [example_source], (example_files, 0))"
  unfolding load_source_headers_def load_header_def io_fold.simps prod.case on_files_simps example_ulid option.case
  by (simp add: io_bind_def example_object io_lift_def example_prepared example_source_def omap_values_def)
    (simp add: omap_get_def)

lemma example_paths:
  "intermediate_paths ''prod'' 600 ''01A'' = Inr (''measurements/prod/window=19700101T0010Z/part-01A.truth.parquet'',
     ''measurements/prod/window=19700101T0010Z/part-01A.sweep.parquet'')"
  by (simp add: intermediate_paths_def example_timestamps)

lemma example_source_fields:
  "src_path example_source = ''cohorts/prod/window=19700101T0010Z/part-01A.vseam''"
  "src_listed example_source = \<lparr>lp_part_ulid = ''01A'', lp_window_start = 600, lp_window_seconds = 600,
     lp_received_frame_count = 2, lp_record_count = 1\<rparr>"
  by (simp_all add: example_source_def source_of_def example_prepared_part_def)

lemma example_config_fields:
  "ac_cohort example_part_config = ''prod''" "ac_window_duration_seconds example_part_config = 1200"
  "ac_storage_window_seconds example_part_config = 600" "ac_ef_grid example_part_config = [10, 20]"
  by (simp_all add: example_part_config_def)

lemma example_scan:
  "scan_source (on_files example_env) example_part_config [] scan example_source s
     = (Inr (scan\<lparr>sc_pending := sc_pending scan @ [example_source]\<rparr>), s)"
  by (simp add: scan_source_def example_source_fields example_config_fields example_paths io_lift_def)

lemma example_refused:
  "measure_prepared_part (env_measurer (on_files example_env)) (env_cancelled (on_files example_env))
     example_prepared_part ''01A'' example_part_config 5 (fs, n)
   = (Inr (MP_Complete \<lparr>mp_metadata = example_metadata, mp_truth_rows = [], mp_sweep_rows = []\<rparr>), (fs, Suc n))"
  by (simp add: measure_prepared_part_def example_prepared_part_def Measure.example_sample_def on_files_def example_env_def
      refusing_measurer_def beside_def usize_bound_def example_metadata_def)

lemma example_encoded:
  "encode_intermediate_pair (env_parquet example_env) example_metadata [] [] = Inr ([1], [2])"
proof -
  have "truth_schema \<noteq> sweep_schema" by (simp add: truth_schema_def sweep_schema_def)
  moreover have "truth_record_batch [] = Inr (fst example_batches)"
    by (simp add: truth_record_batch_def record_batch_new_def truth_schema_def example_batches_def)
  moreover have "sweep_record_batch [] = Inr (snd example_batches)"
    by (simp add: sweep_record_batch_def record_batch_new_def sweep_schema_def example_batches_def)
  ultimately show ?thesis
    by (simp add: encode_intermediate_pair_def encode_parquet_def example_env_def example_parquet_def)
qed

lemma example_law: "parquet_law (env_parquet example_env)"
  by (simp add: example_env_def example_parquet_law)

lemma example_grid: "sorted_wrt (<) (ac_ef_grid example_part_config)" "i32_list (ac_ef_grid example_part_config)"
  by (simp_all add: example_part_config_def i32_list_def)

lemma example_read:
  "read_intermediate_pair_bytes (env_parquet example_env) [1] [2]
     = Inr \<lparr>ip_metadata = example_metadata, ip_samples = []\<rparr>"
  using encoded_part_reads [OF example_law example_prepared example_refused example_grid] example_encoded by simp

definition example_stored :: files where
  "example_stored = omap_insert ''measurements/prod/window=19700101T0010Z/part-01A.sweep.parquet'' [2]
     (omap_insert ''measurements/prod/window=19700101T0010Z/part-01A.truth.parquet'' [1] example_files)"

lemma example_phase_a:
  "measure_pending (on_files example_env) example_part_config 5 [] [example_source] (example_files, 0)
     = (Inr (PA_Done [(''01A'', \<lparr>ip_metadata = example_metadata, ip_samples = []\<rparr>)] None), (example_stored, 1))"
proof -
  have "measure_source (on_files example_env) example_part_config 5 example_source (example_files, 0)
    = (Inr (MP_Complete \<lparr>mp_metadata = example_metadata, mp_truth_rows = [], mp_sweep_rows = []\<rparr>), (example_files, 1))"
    by (simp add: measure_source_def io_bind_def example_source_fields example_object io_lift_def example_config_fields
        example_prepared example_refused)
  moreover have "store_measured (on_files example_env) example_part_config example_source
      \<lparr>mp_metadata = example_metadata, mp_truth_rows = [], mp_sweep_rows = []\<rparr> (example_files, 1)
    = (Inr \<lparr>ip_metadata = example_metadata, ip_samples = []\<rparr>, (example_stored, 1))"
    by (simp add: store_measured_def Let_def example_source_fields example_config_fields example_paths example_encoded
        io_bind_def io_lift_def example_read example_stored_def)
  moreover have "\<not> env_cancelled example_env d" for d by (simp add: example_env_def)
  ultimately show ?thesis
    by (simp add: io_bind_def io_read_def io_lift_def example_source_fields)
qed


definition example_round :: aggregation_input where
  "example_round =
     \<lparr>ai_config = example_part_config, ai_round_end = 1200, ai_computed_at = ''now'', ai_phase_a_abort = None,
      ai_phase_a_incompatible_parts = 0, ai_previous_round = None, ai_listed_parts = [src_listed example_source],
      ai_intermediates = [\<lparr>ip_metadata = example_metadata, ip_samples = []\<rparr>]\<rparr>"

lemma example_round_fields:
  "ai_config example_round = example_part_config" "ai_round_end example_round = 1200"
  "ai_phase_a_incompatible_parts example_round = 0" "ai_phase_a_abort example_round = None"
  "ai_intermediates example_round = [\<lparr>ip_metadata = example_metadata, ip_samples = []\<rparr>]"
  "ai_listed_parts example_round = [src_listed example_source]"
  by (simp_all add: example_round_def)

lemma example_round_config:
  "validate_aggregation_config example_part_config = Inr ()"
  "ac_percentile example_part_config = Fin (1 / 2)"
  "ac_selection_confidence example_part_config = Fin (1 / 2)"
  "ac_approval_confidence example_part_config = Fin (1 / 2)"
  by (simp_all add: validate_aggregation_config_def example_part_config_def ef_grid_ok_def MAX_EF_SEARCH_def
      example_threshold a_math_def)

lemma example_round_parts:
  "unique_in_scope_parts [src_listed example_source] 0 1200 = Inr [(''01A'', src_listed example_source)]"
  "try_fold available_step 0 (omap_values [(''01A'', src_listed example_source)]) = Inr 1"
  "\<exists>f. dropped_frame_fraction (map (\<lambda>part.
         (lp_part_ulid part, lp_received_frame_count part, lp_record_count part))
         (omap_values [(''01A'', src_listed example_source)])) = Inr f"
  by (simp_all add: example_source_fields unique_in_scope_parts_def scope_step_def
      checked_add_def omap_get_def omap_values_def available_step_def dropped_frame_fraction_def drop_step_def)

lemma example_metadata_fields:
  "im_part_ulid example_metadata = ''01A''" "im_measured_count example_metadata = 0"
  "im_failed_count example_metadata = 1" "im_window_start example_metadata = 600"
  by (simp_all add: example_metadata_def measured_metadata_def example_prepared_part_def)

lemma example_round_intermediates:
  "unique_intermediates [\<lparr>ip_metadata = example_metadata, ip_samples = []\<rparr>]
     = Inr [(''01A'', \<lparr>ip_metadata = example_metadata, ip_samples = []\<rparr>)]"
  by (simp add: unique_intermediates_def intermediate_step_def omap_get_def example_metadata_fields)

lemma example_round_usage:
  "\<exists>u. try_fold (use_step example_part_config [(''01A'', src_listed example_source)])
     \<lparr>us_used = [], us_incompatible = 0, us_measured = 0, us_failed = 0\<rparr>
     [(''01A'', \<lparr>ip_metadata = example_metadata, ip_samples = []\<rparr>)] = Inr u
     \<and> deduplicate_samples (used_samples (us_used u)) = []"
  by (simp add: use_step_def omap_get_def checked_add_def example_metadata_fields used_samples_def
      deduplicate_samples_def omap_values_def)

lemma example_empty:
  "validate_population [] [10, 20] = Inr ()" "try_fold (split_step c) ([], []) [] = Inr ([], [])"
  "compliance_confidence (\<lambda>_ _ _. Fin 0) 0 0 (Fin (1 / 2)) = Inr (Fin 0)"
  by (simp_all add: validate_population_def compliance_confidence_def)

lemma example_empty_summaries: "\<exists>ps. per_ef_summaries [] example_part_config = Inr ps"
  by (simp add: per_ef_summaries_def example_part_config_def)

lemma example_aggregated: "\<exists>out. aggregate (\<lambda>_ _ _. Fin 0) example_round = Inr out"
proof -
  obtain f where f: "dropped_frame_fraction (map (\<lambda>part.
         (lp_part_ulid part, lp_received_frame_count part, lp_record_count part))
         (omap_values [(''01A'', src_listed example_source)])) = Inr f" using example_round_parts(3) by blast
  obtain ps where ps: "per_ef_summaries [] example_part_config = Inr ps"
    using example_empty_summaries by blast
  obtain w w' where w: "iso8601_seconds 1200 = Inr w" "iso8601_seconds 0 = Inr w'"
    using iso8601_seconds_total by blast
  obtain u where u: "try_fold (use_step example_part_config [(''01A'', src_listed example_source)])
     \<lparr>us_used = [], us_incompatible = 0, us_measured = 0, us_failed = 0\<rparr>
     [(''01A'', \<lparr>ip_metadata = example_metadata, ip_samples = []\<rparr>)] = Inr u"
     "deduplicate_samples (used_samples (us_used u)) = []" using example_round_usage by blast
  have c: "checked_sub 1200 1200 = Some (0 :: u64)" by (simp add: checked_sub_def)
  have i: "insufficient example_round [] [] a b" for a b
    by (simp add: insufficient_def example_round_fields)
  show ?thesis
    by (simp add: aggregate_def Let_def example_round_fields example_round_config example_config_fields example_windows c
        example_round_parts f example_round_intermediates u example_empty ps i w a_math_def del: try_fold.simps)
qed


lemma example_stored_keys:
  "round_paths ''prod'' 1200 = Inr (''calibrations/prod/round-19700101T0020Z.json'', ''calibrations/prod/latest.json'')"
  "omap_get example_stored ''calibrations/prod/latest.json'' = None"
  by (simp_all add: round_paths_def example_timestamps example_stored_def example_files_def omap_get_def)

lemma example_published:
  "\<exists>out fs. run_cohort_round (on_files example_env) example_part_config 1200 ''now'' 5 (example_files, 0)
     = (Inr (Published out), (fs, 1)) \<and> rd_error out = None"
proof -
  obtain out where out: "aggregate (\<lambda>_ _ _. Fin 0) example_round = Inr out" using example_aggregated by blast
  have env: "env_beta example_env = (\<lambda>_ _ _. Fin 0)" "env_json_write example_env = (\<lambda>_. Inr [3])"
    "\<not> env_cancelled example_env d" "env_store (on_files example_env) = mem_store"
    "env_beta (on_files e) = env_beta e" "env_json_write (on_files e) = env_json_write e" for d and e :: "nat round_env"
    by (simp_all add: example_env_def on_files_def)
  have "load_round (on_files example_env) example_part_config 1200 (example_files, 0)
    = (Inr ([example_source], \<lparr>sc_compatible = [], sc_pending = [example_source], sc_incompatible = 0\<rparr>), (example_files, 0))"
    by (simp add: load_round_def io_bind_def io_lift_def example_config_fields example_windows example_listing
        example_measurements example_headers example_scan)
  moreover have "rd_error out = None" using round_labels(4) [OF out] by (simp add: example_round_def)
  moreover have "omap_values [(''01A'', \<lparr>ip_metadata = example_metadata, ip_samples = []\<rparr>)]
      = [\<lparr>ip_metadata = example_metadata, ip_samples = []\<rparr>]"
    by (simp add: omap_values_def)
  ultimately show ?thesis
    using out unfolding example_round_def
    by (simp add: run_cohort_round_def io_bind_def example_phase_a finish_round_def io_read_def io_lift_def env
        example_config_fields example_stored_keys load_previous_round_def publish_def put_bytes_def mem_store_def
        del: measure_pending.simps)
qed


lemma example_files_inv: "omap_inv example_files"
  by (simp add: example_files_def omap_inv_def)

theorem published_round_is_not_measured_again_witness:
  "\<exists>out fs1 r fs2 d.
     run_cohort_round (on_files example_env) example_part_config 1200 ''now'' 5 (example_files, 0)
       = (Inr (Published out), (fs1, 1)) \<and> rd_error out = None
     \<and> run_cohort_round (on_files example_env) example_part_config 1200 ''later'' 6 (fs1, 1) = (r, (fs2, d))
     \<and> d = 1 \<and> (\<forall>p. p \<notin> {''calibrations/prod/round-19700101T0020Z.json'', ''calibrations/prod/latest.json''}
           \<longrightarrow> omap_get fs2 p = omap_get fs1 p)"
proof -
  obtain out fs1 where run: "run_cohort_round (on_files example_env) example_part_config 1200 ''now'' 5 (example_files, 0)
     = (Inr (Published out), (fs1, 1))" and no_error: "rd_error out = None"
    using example_published by blast
  obtain r fs2 d where again: "run_cohort_round (on_files example_env) example_part_config 1200 ''later'' 6 (fs1, 1)
     = (r, (fs2, d))"
    by (metis surj_pair)
  have paths: "round_paths (ac_cohort example_part_config) 1200
    = Inr (''calibrations/prod/round-19700101T0020Z.json'', ''calibrations/prod/latest.json'')"
    by (simp add: example_config_fields example_stored_keys)
  note same = published_round_is_not_measured_again [OF example_law example_grid example_files_inv no_error run refl refl
      again paths]
  show ?thesis
    by (intro exI conjI) (rule run, rule no_error, rule again, rule conjunct1 [OF same], rule conjunct2 [OF same])
qed

end
