(* ===== verification/Tuner.thy ===== *)
theory Tuner
  imports Resume Database TunerConfig
begin

text \<open>
  The tuner service (\<open>seam/src/tuner.rs\<close>): one database session per data source, connected at start
  and again at the start of every round that finds it closed or given up, and one pass over the cohorts
  per round. The state of the tuner is the map of its sessions; the rest of the world (the store, the
  servers, the drivers, the cancellation token) is a state of the environment. A panic ends the pass:
  its result is \<open>None\<close>, so the turns the model still takes after one are of no consequence.
\<close>

section \<open>Definitions\<close>

subsection \<open>The environment\<close>

text \<open>What a session uses of PostgreSQL and of Tokio; \<open>pd_driver\<close> ends the driver task and awaits it.\<close>

record 'w pg_driver =
  pd_client :: "'w pg_client"
  pd_wait :: "instant \<Rightarrow> 'w \<Rightarrow> bool \<times> 'w"
  pd_connect :: "pg_config \<Rightarrow> 'w \<Rightarrow> connect_answer \<times> 'w"
  pd_driver :: "'w \<Rightarrow> driver_answer \<times> 'w"
  pd_is_closed :: "'w \<Rightarrow> bool"

text \<open>The environment of the tuner: one server per data source name. \<open>te_error_text\<close> is \<open>to_string\<close>.\<close>

record 'w tuner_env =
  te_server :: "string \<Rightarrow> 'w pg_driver"
  te_env_var :: "string \<Rightarrow> var_error + string"
  te_error_text :: "database_connection_error \<Rightarrow> string"
  te_store :: "'w object_store"
  te_cancelled :: "'w \<Rightarrow> bool"
  te_parquet :: parquet
  te_ulid :: "string \<Rightarrow> string option"
  te_beta :: beta_reg
  te_json_read :: "u8 list \<Rightarrow> string + round_output"
  te_json_write :: "round_output \<Rightarrow> string + u8 list"

subsection \<open>Sessions\<close>

datatype data_source_runtime = Rt_Connected database_connection | Rt_Unavailable string

definition abandon_session ::
  "'w pg_driver \<Rightarrow> database_connection \<Rightarrow> ('w, database_connection_error, unit) io" where
  "abandon_session server connection w =
     (if \<not> dc_driver connection then (abandon connection Driver_Ok, w)
      else case pd_driver server w of (driver, w) \<Rightarrow> (abandon connection driver, w))"

definition close_session ::
  "'w pg_driver \<Rightarrow> database_connection \<Rightarrow> ('w, database_connection_error, unit) io" where
  "close_session server connection w =
     (if \<not> dc_driver connection then (close connection Driver_Ok, w)
      else case pd_driver server w of (driver, w) \<Rightarrow> (close connection driver, w))"

text \<open>\<open>DataSourceRuntime::measure_sample\<close>; a failure to observe the abandoned driver is only logged.\<close>

definition runtime_measure_sample ::
  "'w pg_driver \<Rightarrow> data_source_runtime \<Rightarrow> f32_bits list \<Rightarrow> aggregation_config \<Rightarrow> 'w
     \<Rightarrow> ((sample_measure_error + sample_measurement) \<times> data_source_runtime \<times> 'w) option" where
  "runtime_measure_sample server runtime vector config w =
     map_option (\<lambda>(result, runtime, w).
         case result of
           Inl (ME_Connection error) \<Rightarrow>
             (result, Rt_Unavailable error,
              case runtime of
                Rt_Connected connection \<Rightarrow> snd (abandon_session server connection w)
              | Rt_Unavailable _ \<Rightarrow> w)
         | _ \<Rightarrow> (result, runtime, w))
       (case runtime of
          Rt_Connected connection \<Rightarrow>
            map_option (\<lambda>(result, connection, w). (result, Rt_Connected connection, w))
              (measure_sample (pd_client server) (pd_wait server) connection vector config w)
        | Rt_Unavailable error \<Rightarrow> Some (Inl (ME_Connection error), runtime, w))"

definition connect_data_source ::
  "'w tuner_env \<Rightarrow> string \<Rightarrow> data_source_config \<Rightarrow> budget_config \<Rightarrow> 'w \<Rightarrow> data_source_runtime \<times> 'w" where
  "connect_data_source env name data_source budget w =
     (let server = te_server env name in
      case connect (pd_client server) (te_env_var env) (pd_connect server) data_source budget w of
        (Inr connection, w) \<Rightarrow> (Rt_Connected connection, w)
      | (Inl error, w) \<Rightarrow> (Rt_Unavailable (te_error_text env error), w))"

subsection \<open>The tuner\<close>

text \<open>The object store is in the environment.\<close>

record tuner =
  tu_config :: tuner_config
  tu_data_sources :: "(string, data_source_runtime) omap"

datatype tuner_start_error =
    CreateStorageRoot string string
  | OpenLocalStore string store_error
  | StartupTask string

fun connect_all ::
  "'w tuner_env \<Rightarrow> budget_config \<Rightarrow> (string \<times> data_source_config) list \<Rightarrow> (string, data_source_runtime) omap
     \<Rightarrow> 'w \<Rightarrow> (string, data_source_runtime) omap \<times> 'w" where
  "connect_all env budget [] sources w = (sources, w)"
| "connect_all env budget ((name, data_source) # rest) sources w =
     (case connect_data_source env name data_source budget w of
        (runtime, w) \<Rightarrow> connect_all env budget rest (omap_insert name runtime sources) w)"

definition start_with_store :: "'w tuner_env \<Rightarrow> tuner_config \<Rightarrow> 'w \<Rightarrow> tuner \<times> 'w" where
  "start_with_store env config w =
     (case connect_all env (tc_budget config) (tc_data_sources config) [] w of
        (sources, w) \<Rightarrow> (\<lparr>tu_config = config, tu_data_sources = sources\<rparr>, w))"

text \<open>
  \<open>Tuner::start\<close>: \<open>task\<close> is what joining the blocking task gave, \<open>create\<close> and \<open>open_store\<close> are the
  answers of the file system to it.
\<close>

definition tuner_start ::
  "'w tuner_env \<Rightarrow> tuner_config \<Rightarrow> string + unit \<Rightarrow> string + unit \<Rightarrow> store_error + unit \<Rightarrow> 'w
     \<Rightarrow> (tuner_start_error + tuner) \<times> 'w" where
  "tuner_start env config task create open_store w =
     (let root = sto_root (tc_storage config) in
      case res_bind (map_err StartupTask task) (\<lambda>_.
           res_bind (map_err (CreateStorageRoot root) create) (\<lambda>_.
           map_err (OpenLocalStore root) open_store)) of
        Inl e \<Rightarrow> (Inl e, w)
      | Inr _ \<Rightarrow> (case start_with_store env config w of (tuner, w) \<Rightarrow> (Inr tuner, w)))"

definition needs_reconnect :: "'w tuner_env \<Rightarrow> (string, data_source_runtime) omap \<Rightarrow> 'w \<Rightarrow> string \<Rightarrow> bool" where
  "needs_reconnect env sources w name =
     (case omap_get sources name of
        Some (Rt_Connected connection) \<Rightarrow> is_closed (pd_is_closed (te_server env name)) connection w
      | Some (Rt_Unavailable _) \<Rightarrow> True
      | None \<Rightarrow> True)"

definition reconnect_step ::
  "'w tuner_env \<Rightarrow> budget_config \<Rightarrow> string \<times> data_source_config \<Rightarrow> (string, data_source_runtime) omap \<times> 'w
     \<Rightarrow> (string, data_source_runtime) omap \<times> 'w" where
  "reconnect_step env budget = (\<lambda>(name, data_source) (sources, w).
     let w = (case omap_get sources name of
                Some (Rt_Connected connection) \<Rightarrow> snd (abandon_session (te_server env name) connection w)
              | _ \<Rightarrow> w);
         sources = filter (\<lambda>(k, _). k \<noteq> name) sources
     in case connect_data_source env name data_source budget w of
          (runtime, w) \<Rightarrow> (omap_insert name runtime sources, w))"

definition reconnect_unavailable_data_sources :: "'w tuner_env \<Rightarrow> tuner \<Rightarrow> 'w \<Rightarrow> tuner \<times> 'w" where
  "reconnect_unavailable_data_sources env tuner w =
     (let config = tu_config tuner;
          candidates = filter (\<lambda>(name, _). needs_reconnect env (tu_data_sources tuner) w name) (tc_data_sources config)
      in case fold (reconnect_step env (tc_budget config)) candidates (tu_data_sources tuner, w) of
           (sources, w) \<Rightarrow> (tuner\<lparr>tu_data_sources := sources\<rparr>, w))"

text \<open>
  \<open>shutdown\<close>: the sessions are closed in order. The deadline may pass while a driver is awaited, and
  then the rest is dropped; \<open>elapsed\<close> tells whether it has.
\<close>

fun close_all :: "'w tuner_env \<Rightarrow> ('w \<Rightarrow> bool) \<Rightarrow> (string, data_source_runtime) omap \<Rightarrow> 'w \<Rightarrow> 'w" where
  "close_all env elapsed [] w = w"
| "close_all env elapsed ((name, Rt_Unavailable _) # rest) w = close_all env elapsed rest w"
| "close_all env elapsed ((name, Rt_Connected connection) # rest) w =
     (let w = snd (close_session (te_server env name) connection w)
      in if elapsed w then w else close_all env elapsed rest w)"

definition shutdown :: "'w tuner_env \<Rightarrow> ('w \<Rightarrow> bool) \<Rightarrow> tuner \<Rightarrow> 'w \<Rightarrow> 'w" where
  "shutdown env elapsed tuner w = close_all env elapsed (tu_data_sources tuner) w"

subsection \<open>A cohort\<close>

text \<open>
  A cohort's round acts on the world, on the session of its data source, and on a flag that a panic
  raises.
\<close>

type_synonym 'w cohort_state = "'w \<times> data_source_runtime \<times> bool"

definition on_world :: "('w \<Rightarrow> 'a \<times> 'w) \<Rightarrow> 'w cohort_state \<Rightarrow> 'a \<times> 'w cohort_state" where
  "on_world m = (\<lambda>(w, s). case m w of (x, w) \<Rightarrow> (x, (w, s)))"

definition runtime_measurer :: "'w pg_driver \<Rightarrow> 'w cohort_state measurer" where
  "runtime_measurer server vector config = (\<lambda>(w, runtime, panicked).
     case runtime_measure_sample server runtime vector config w of
       None \<Rightarrow> (Inl ME_CancelledBeforeTransaction, (w, runtime, True))
     | Some (result, runtime, w) \<Rightarrow> (result, (w, runtime, panicked)))"

definition cohort_env :: "'w tuner_env \<Rightarrow> string \<Rightarrow> 'w cohort_state round_env" where
  "cohort_env env data_source =
     \<lparr>env_store = \<lparr>os_list = \<lambda>p. on_world (os_list (te_store env) p),
                   os_get = \<lambda>p. on_world (os_get (te_store env) p),
                   os_put = \<lambda>p b. on_world (os_put (te_store env) p b)\<rparr>,
      env_measurer = runtime_measurer (te_server env data_source), env_cancelled = te_cancelled env \<circ> fst,
      env_parquet = te_parquet env, env_ulid = te_ulid env, env_beta = te_beta env,
      env_json_read = te_json_read env, env_json_write = te_json_write env\<rparr>"

definition run_cohort ::
  "'w tuner_env \<Rightarrow> string \<Rightarrow> aggregation_config \<Rightarrow> u64 \<Rightarrow> string \<Rightarrow> u64 \<Rightarrow> data_source_runtime \<Rightarrow> 'w
     \<Rightarrow> ((pipeline_error + cohort_round_outcome) \<times> data_source_runtime \<times> 'w) option" where
  "run_cohort env data_source config round_end computed_at computed_at_us runtime w =
     (case run_cohort_round (cohort_env env data_source) config round_end computed_at computed_at_us
             (w, runtime, False) of
        (result, (w, runtime, panicked)) \<Rightarrow> if panicked then None else Some (result, runtime, w))"

subsection \<open>A pass over the cohorts\<close>

text \<open>The message of a failed cohort: one of the fixed texts, or that of the error.\<close>

datatype cohort_failure = Unexpected string | Round_Failed pipeline_error

record round_run_report =
  rr_published :: "(string, round_output) omap"
  rr_failed_cohorts :: "(string, cohort_failure) omap"
  rr_cancelled :: bool

definition report_failure :: "cohort_name \<Rightarrow> cohort_failure \<Rightarrow> round_run_report \<Rightarrow> round_run_report" where
  "report_failure cohort failure report =
     report\<lparr>rr_failed_cohorts := omap_insert (as_str cohort) failure (rr_failed_cohorts report)\<rparr>"

definition cohort_source :: "tuner_config \<Rightarrow> cohort_name \<Rightarrow> string + string \<times> aggregation_config" where
  "cohort_source config cohort =
     res_bind (ok_or (for_cohort config cohort) ''validated cohort projection unexpectedly failed'') (\<lambda>aggregation.
     res_bind (ok_or (omap_get (tc_cohorts config) cohort) ''validated cohort configuration disappeared'')
       (\<lambda>cohort_config.
     res_bind (ok_or (omap_get (tc_indexes config) (ch_index cohort_config))
                 ''validated index configuration disappeared'') (\<lambda>index.
     Inr (ix_data_source index, aggregation))))"

fun run_cohorts ::
  "'w tuner_env \<Rightarrow> tuner_config \<Rightarrow> u64 \<Rightarrow> string \<Rightarrow> u64 \<Rightarrow> cohort_name list \<Rightarrow> round_run_report
     \<Rightarrow> (string, data_source_runtime) omap \<Rightarrow> 'w
     \<Rightarrow> (round_run_report \<times> (string, data_source_runtime) omap \<times> 'w) option" where
  "run_cohorts env config round_end computed_at us [] report sources w = Some (report, sources, w)"
| "run_cohorts env config round_end computed_at us (cohort # rest) report sources w =
     (if te_cancelled env w then Some (report\<lparr>rr_cancelled := True\<rparr>, sources, w)
      else case cohort_source config cohort of
        Inl message \<Rightarrow>
          run_cohorts env config round_end computed_at us rest (report_failure cohort (Unexpected message) report) sources w
      | Inr (data_source, aggregation) \<Rightarrow>
          (case omap_get sources data_source of
             None \<Rightarrow>
               run_cohorts env config round_end computed_at us rest
                 (report_failure cohort (Unexpected ''validated data source runtime disappeared'') report) sources w
           | Some runtime \<Rightarrow>
               Option.bind (run_cohort env data_source aggregation round_end computed_at us runtime w)
                 (\<lambda>(result, runtime, w).
               let sources = omap_insert data_source runtime sources in
               case result of
                 Inr (Published out) \<Rightarrow>
                   run_cohorts env config round_end computed_at us rest
                     (report\<lparr>rr_published := omap_insert (as_str cohort) out (rr_published report)\<rparr>) sources w
               | Inr Round_Cancelled \<Rightarrow> Some (report\<lparr>rr_cancelled := True\<rparr>, sources, w)
               | Inl error \<Rightarrow>
                   run_cohorts env config round_end computed_at us rest
                     (report_failure cohort (Round_Failed error) report) sources w)))"

definition run_round ::
  "'w tuner_env \<Rightarrow> u64 \<Rightarrow> string \<Rightarrow> u64 \<Rightarrow> tuner \<Rightarrow> 'w \<Rightarrow> (round_run_report \<times> tuner \<times> 'w) option" where
  "run_round env round_end computed_at computed_at_us tuner w =
     (case reconnect_unavailable_data_sources env tuner w of
        (tuner, w) \<Rightarrow>
          map_option (\<lambda>(report, sources, w). (report, tuner\<lparr>tu_data_sources := sources\<rparr>, w))
            (run_cohorts env (tu_config tuner) round_end computed_at computed_at_us
               (omap_keys (tc_cohorts (tu_config tuner)))
               \<lparr>rr_published = [], rr_failed_cohorts = [], rr_cancelled = False\<rparr> (tu_data_sources tuner) w))"

text \<open>The rounds of a run of the service, with their end and their two time stamps.\<close>

fun run_rounds ::
  "'w tuner_env \<Rightarrow> (u64 \<times> string \<times> u64) list \<Rightarrow> tuner \<Rightarrow> 'w \<Rightarrow> (round_run_report list \<times> tuner \<times> 'w) option" where
  "run_rounds env [] tuner w = Some ([], tuner, w)"
| "run_rounds env ((round_end, computed_at, computed_at_us) # rest) tuner w =
     Option.bind (run_round env round_end computed_at computed_at_us tuner w) (\<lambda>(report, tuner, w).
     map_option (\<lambda>(reports, tuner, w). (report # reports, tuner, w)) (run_rounds env rest tuner w))"


section \<open>Facts\<close>

subsection \<open>The report of a pass\<close>

lemma as_str_eq [simp]: "as_str a = as_str b \<longleftrightarrow> a = b"
  by (cases a; cases b) simp

lemma omap_insert_ball: "\<forall>x \<in> set m. Q x \<Longrightarrow> Q (k, v) \<Longrightarrow> \<forall>x \<in> set (omap_insert k v m). Q x"
  by (induction k v m rule: omap_insert.induct) auto

lemma omap_get_key: "omap_get m k \<noteq> None \<longleftrightarrow> k \<in> fst ` set m"
  by (simp add: omap_get_def map_of_eq_None_iff)

text \<open>The first of the cohorts, and all of them unless the pass was cancelled, have a result, and one only.\<close>

definition round_accounted :: "tuner_config \<Rightarrow> round_run_report \<Rightarrow> bool" where
  "round_accounted config report \<longleftrightarrow>
     (let published = fst ` set (rr_published report);
          failed = fst ` set (rr_failed_cohorts report);
          cohorts = map as_str (omap_keys (tc_cohorts config)) in
      published \<inter> failed = {}
      \<and> (\<exists>n \<le> length cohorts. published \<union> failed = set (take n cohorts)
           \<and> (n < length cohorts \<longrightarrow> rr_cancelled report))
      \<and> (\<forall>(name, out) \<in> set (rr_published report).
           rd_cohort out = name \<and> rd_ef_grid out = cal_ef_search (tc_calibration config))
      \<and> (\<forall>(_, failure) \<in> set (rr_failed_cohorts report). \<exists>e. failure = Round_Failed e))"

text \<open>The report while the pass is at the cohorts that follow \<open>before\<close>.\<close>

definition report_upto ::
  "int list \<Rightarrow> cohort_name list \<Rightarrow> (string, round_output) omap \<Rightarrow> (string, cohort_failure) omap \<Rightarrow> bool" where
  "report_upto grid before pub failed \<longleftrightarrow>
     fst ` set pub \<inter> fst ` set failed = {}
     \<and> fst ` set pub \<union> fst ` set failed = as_str ` set before
     \<and> (\<forall>(name, out) \<in> set pub. rd_cohort out = name \<and> rd_ef_grid out = grid)
     \<and> (\<forall>(_, failure) \<in> set failed. \<exists>e. failure = Round_Failed e)"

lemma insert_disjoint_both:
  assumes "c \<notin> P \<union> F" and "P \<inter> F = {}"
  shows "insert c P \<inter> F = {}" and "P \<inter> insert c F = {}"
  using assms by auto

lemma report_upto_published:
  assumes "report_upto grid before pub failed" and "cohort \<notin> set before"
    and "rd_cohort out = as_str cohort" and "rd_ef_grid out = grid"
  shows "report_upto grid (before @ [cohort]) (omap_insert (as_str cohort) out pub) failed"
  unfolding report_upto_def omap_insert_keys
proof (intro conjI)
  have r: "fst ` set pub \<inter> fst ` set failed = {}" "fst ` set pub \<union> fst ` set failed = as_str ` set before"
    "\<forall>(name, out) \<in> set pub. rd_cohort out = name \<and> rd_ef_grid out = grid"
    "\<forall>(_, failure) \<in> set failed. \<exists>e. failure = Round_Failed e"
    by (rule assms(1) [unfolded report_upto_def, THEN conjunct1]
        assms(1) [unfolded report_upto_def, THEN conjunct2, THEN conjunct1]
        assms(1) [unfolded report_upto_def, THEN conjunct2, THEN conjunct2, THEN conjunct1]
        assms(1) [unfolded report_upto_def, THEN conjunct2, THEN conjunct2, THEN conjunct2])+
  have "as_str cohort \<notin> fst ` set pub \<union> fst ` set failed" unfolding r(2) using assms(2) by (simp add: image_iff)
  then show "insert (as_str cohort) (fst ` set pub) \<inter> fst ` set failed = {}" using r(1) by (rule insert_disjoint_both)
  have "as_str ` set (before @ [cohort]) = insert (as_str cohort) (as_str ` set before)" by simp
  then show "insert (as_str cohort) (fst ` set pub) \<union> fst ` set failed = as_str ` set (before @ [cohort])"
    unfolding r(2) [symmetric] by (simp only: Un_insert_left Un_insert_right)
  show "\<forall>(name, out) \<in> set (omap_insert (as_str cohort) out pub). rd_cohort out = name \<and> rd_ef_grid out = grid"
    by (rule omap_insert_ball [OF r(3)]) (simp add: assms(3,4))
  show "\<forall>(_, failure) \<in> set failed. \<exists>e. failure = Round_Failed e" by (rule r(4))
qed

lemma report_upto_failed:
  assumes "report_upto grid before pub failed" and "cohort \<notin> set before"
  shows "report_upto grid (before @ [cohort]) pub (omap_insert (as_str cohort) (Round_Failed e) failed)"
  unfolding report_upto_def omap_insert_keys
proof (intro conjI)
  have r: "fst ` set pub \<inter> fst ` set failed = {}" "fst ` set pub \<union> fst ` set failed = as_str ` set before"
    "\<forall>(name, out) \<in> set pub. rd_cohort out = name \<and> rd_ef_grid out = grid"
    "\<forall>(_, failure) \<in> set failed. \<exists>e. failure = Round_Failed e"
    by (rule assms(1) [unfolded report_upto_def, THEN conjunct1]
        assms(1) [unfolded report_upto_def, THEN conjunct2, THEN conjunct1]
        assms(1) [unfolded report_upto_def, THEN conjunct2, THEN conjunct2, THEN conjunct1]
        assms(1) [unfolded report_upto_def, THEN conjunct2, THEN conjunct2, THEN conjunct2])+
  have "as_str cohort \<notin> fst ` set pub \<union> fst ` set failed" unfolding r(2) using assms(2) by (simp add: image_iff)
  then show "fst ` set pub \<inter> insert (as_str cohort) (fst ` set failed) = {}" using r(1) by (rule insert_disjoint_both)
  have "as_str ` set (before @ [cohort]) = insert (as_str cohort) (as_str ` set before)" by simp
  then show "fst ` set pub \<union> insert (as_str cohort) (fst ` set failed) = as_str ` set (before @ [cohort])"
    unfolding r(2) [symmetric] by (simp only: Un_insert_left Un_insert_right)
  show "\<forall>(name, out) \<in> set pub. rd_cohort out = name \<and> rd_ef_grid out = grid" by (rule r(3))
  show "\<forall>(_, failure) \<in> set (omap_insert (as_str cohort) (Round_Failed e) failed). \<exists>e. failure = Round_Failed e"
    by (rule omap_insert_ball [OF r(4)]) simp
qed

lemma run_cohort_round_returns:
  "returns (run_cohort_round env config round_end computed_at computed_at_us)
     (\<lambda>outcome. \<forall>out. outcome = Published out \<longrightarrow>
        rd_cohort out = ac_cohort config \<and> rd_ef_grid out = ac_ef_grid config)"
proof -
  have publish: "returns (publish env history latest input) (\<lambda>outcome. \<forall>out. outcome = Published out \<longrightarrow>
      rd_cohort out = ac_cohort config \<and> rd_ef_grid out = ac_ef_grid config)"
    if "ai_config input = config" for history latest input
    unfolding publish_def
  proof (rule returns_bind [where P = "\<lambda>out. aggregate (env_beta env) input = Inr out"], goal_cases)
    case (2 out)
    then have "rd_cohort out = ac_cohort config \<and> rd_ef_grid out = ac_ef_grid config"
      unfolding that [symmetric] by (rule aggregate_inversion) blast
    then show ?case
      by (auto intro!: returns_bind [OF returns_True] returns_lift)
  qed (auto intro!: returns_lift simp: result_simps)
  show ?thesis
    unfolding run_cohort_round_def finish_round_def
    by (rule returns_bind [OF returns_True], simp only: split_paired_all prod.case,
        rule returns_bind [OF returns_True])
      (auto intro!: returns_lift returns_bind [OF returns_True] publish split: phase_a.split)
qed


lemma run_cohort_published:
  assumes "run_cohort env data_source config round_end computed_at us runtime w = Some (Inr (Published out), runtime', w')"
  shows "rd_cohort out = ac_cohort config \<and> rd_ef_grid out = ac_ef_grid config"
proof -
  obtain s where "run_cohort_round (cohort_env env data_source) config round_end computed_at us (w, runtime, False)
      = (Inr (Published out), s)"
    using assms by (auto simp: run_cohort_def split: prod.splits if_splits)
  from returnsD [OF run_cohort_round_returns this] show ?thesis by blast
qed

text \<open>Every cohort of the list has a projection, and a session for its data source.\<close>

definition cohort_ready :: "tuner_config \<Rightarrow> (string, data_source_runtime) omap \<Rightarrow> cohort_name \<Rightarrow> bool" where
  "cohort_ready config sources cohort \<longleftrightarrow>
     (\<exists>data_source aggregation. cohort_source config cohort = Inr (data_source, aggregation)
        \<and> ac_cohort aggregation = as_str cohort \<and> ac_ef_grid aggregation = cal_ef_search (tc_calibration config)
        \<and> data_source \<in> fst ` set sources)"

lemma cohort_ready_mono:
  "cohort_ready config sources cohort \<Longrightarrow> fst ` set sources \<subseteq> fst ` set sources' \<Longrightarrow> cohort_ready config sources' cohort"
  unfolding cohort_ready_def by blast

lemma run_cohorts_accounts:
  assumes "run_cohorts env config round_end computed_at us cohorts report sources w = Some (report', sources', w')"
    and "list_all (cohort_ready config sources) cohorts" and "distinct (before @ cohorts)"
    and "report_upto (cal_ef_search (tc_calibration config)) before (rr_published report) (rr_failed_cohorts report)"
  shows "fst ` set sources' = fst ` set sources
     \<and> (\<exists>n \<le> length cohorts. (n < length cohorts \<longrightarrow> rr_cancelled report')
          \<and> report_upto (cal_ef_search (tc_calibration config)) (before @ take n cohorts)
              (rr_published report') (rr_failed_cohorts report'))"
  using assms
proof (induction cohorts arbitrary: before report sources w)
  case (Cons cohort rest)
  let ?grid = "cal_ef_search (tc_calibration config)"
  obtain ds ac where src: "cohort_source config cohort = Inr (ds, ac)" "ac_cohort ac = as_str cohort"
    "ac_ef_grid ac = ?grid" "ds \<in> fst ` set sources"
    using Cons.prems(2) by (auto simp: cohort_ready_def)
  obtain runtime where rt: "omap_get sources ds = Some runtime"
    using src(4) omap_get_key [of sources ds] by auto
  have new: "cohort \<notin> set before" using Cons.prems(3) by simp
  have stop: ?case if "rr_cancelled report'" "rr_published report' = rr_published report"
    "rr_failed_cohorts report' = rr_failed_cohorts report" "fst ` set sources' = fst ` set sources"
    using that Cons.prems(4) by (intro conjI exI [of _ 0]) simp_all
  show ?case
  proof (cases "te_cancelled env w")
    case True
    then show ?thesis using Cons.prems(1) by (intro stop) auto
  next
    case False
    obtain result runtime' w1 where one: "run_cohort env ds ac round_end computed_at us runtime w = Some (result, runtime', w1)"
      and rest: "(case result of
                 Inr (Published out) \<Rightarrow>
                   run_cohorts env config round_end computed_at us rest
                     (report\<lparr>rr_published := omap_insert (as_str cohort) out (rr_published report)\<rparr>)
                     (omap_insert ds runtime' sources) w1
               | Inr Round_Cancelled \<Rightarrow> Some (report\<lparr>rr_cancelled := True\<rparr>, omap_insert ds runtime' sources, w1)
               | Inl error \<Rightarrow>
                   run_cohorts env config round_end computed_at us rest
                     (report_failure cohort (Round_Failed error) report) (omap_insert ds runtime' sources) w1)
         = Some (report', sources', w')"
      using Cons.prems(1) False src(1) rt by (auto simp: Let_def split: bind_splits)
    have keys: "fst ` set (omap_insert ds runtime' sources) = fst ` set sources"
      using src(4) by (auto simp: omap_insert_keys)
    have ready: "list_all (cohort_ready config (omap_insert ds runtime' sources)) rest"
      using Cons.prems(2) by (auto simp: list_all_iff intro: cohort_ready_mono [OF _ equalityD2 [OF keys]])
    have next_cohort: ?thesis
      if "run_cohorts env config round_end computed_at us rest r (omap_insert ds runtime' sources) w1 = Some (report', sources', w')"
        "report_upto ?grid (before @ [cohort]) (rr_published r) (rr_failed_cohorts r)" for r
    proof -
      from Cons.IH [OF that(1) ready _ that(2)] Cons.prems(3) obtain n where n: "n \<le> length rest"
        "n < length rest \<longrightarrow> rr_cancelled report'" "fst ` set sources' = fst ` set sources"
        "report_upto ?grid ((before @ [cohort]) @ take n rest) (rr_published report') (rr_failed_cohorts report')"
        using keys by auto
      then show ?thesis by (intro conjI exI [of _ "Suc n"]) simp_all
    qed
    show ?thesis
    proof (cases result)
      case (Inl e)
      then show ?thesis
        using rest report_upto_failed [OF Cons.prems(4) new, of e] by (intro next_cohort) (auto simp: report_failure_def)
    next
      case (Inr outcome)
      show ?thesis
      proof (cases outcome)
        case (Published out)
        then have "rd_cohort out = as_str cohort" "rd_ef_grid out = ?grid"
          using run_cohort_published [OF one [unfolded Inr Published]] src(2,3) by simp_all
        then show ?thesis
          using rest Inr Published report_upto_published [OF Cons.prems(4) new] by (intro next_cohort) auto
      next
        case Round_Cancelled
        then show ?thesis using rest Inr keys by (intro stop) auto
      qed
    qed
  qed
qed simp


text \<open>Every session of a configured data source is in the map, whatever became of it.\<close>

definition tuner_covers :: "tuner \<Rightarrow> bool" where
  "tuner_covers tuner \<longleftrightarrow> fst ` set (tc_data_sources (tu_config tuner)) \<subseteq> fst ` set (tu_data_sources tuner)"

lemma connect_all_keys:
  "connect_all env budget ds sources w = (sources', w') \<Longrightarrow> fst ` set sources' = fst ` set sources \<union> fst ` set ds"
  by (induction env budget ds sources w rule: connect_all.induct) (auto simp: omap_insert_keys split: prod.splits)

lemma start_covers:
  assumes "start_with_store env config w = (tuner, w')"
  shows "tuner_covers tuner \<and> tu_config tuner = config"
proof -
  obtain sources where all: "connect_all env (tc_budget config) (tc_data_sources config) [] w = (sources, w')"
    and t: "tuner = \<lparr>tu_config = config, tu_data_sources = sources\<rparr>"
    using assms by (auto simp: start_with_store_def split: prod.splits)
  from connect_all_keys [OF all] show ?thesis by (simp add: t tuner_covers_def)
qed

lemma reconnect_step_keys:
  "fst ` set (fst (reconnect_step env budget (name, ds) (sources, w))) = insert name (fst ` set sources)"
proof -
  have "insert name (fst ` set (filter (\<lambda>(k, _). k \<noteq> name) sources)) = insert name (fst ` set sources)" by force
  then show ?thesis by (simp add: reconnect_step_def Let_def omap_insert_keys split_beta)
qed

lemma reconnect_fold_keys:
  "fst ` set (fst (fold (reconnect_step env budget) ds s)) = fst ` set ds \<union> fst ` set (fst s)"
proof (induction ds arbitrary: s)
  case (Cons d ds)
  then show ?case by (cases d; cases s) (simp add: reconnect_step_keys del: fold_simps add: fold_simps)
qed simp

lemma reconnect_covers:
  assumes "reconnect_unavailable_data_sources env tuner w = (tuner', w')" and "tuner_covers tuner"
  shows "tuner_covers tuner' \<and> tu_config tuner' = tu_config tuner"
proof -
  obtain ds sources where "fold (reconnect_step env (tc_budget (tu_config tuner))) ds (tu_data_sources tuner, w) = (sources, w')"
    and t: "tuner' = tuner\<lparr>tu_data_sources := sources\<rparr>"
    using assms(1) by (auto simp: reconnect_unavailable_data_sources_def Let_def split: prod.splits)
  then have "fst ` set (tu_data_sources tuner) \<subseteq> fst ` set sources"
    using reconnect_fold_keys [of env "tc_budget (tu_config tuner)" ds "(tu_data_sources tuner, w)"] by simp
  then show ?thesis using assms(2) t by (auto simp: tuner_covers_def)
qed

lemma from_raw_ready:
  assumes "from_raw raw e = Inr config" and "cohort \<in> set (omap_keys (tc_cohorts config))"
    and "fst ` set (tc_data_sources config) \<subseteq> fst ` set sources"
  shows "cohort_ready config sources cohort"
proof -
  obtain c where c: "omap_get (tc_cohorts config) cohort = Some c"
    using assms(2) omap_get_key [of "tc_cohorts config" cohort] by (auto simp: omap_keys_def)
  from from_raw_cohort [OF assms(1) c] obtain name ix t where
    "omap_get (tc_indexes config) (ch_index c) = Some ix" "omap_get (tc_targets config) (ch_target c) = Some t"
    "omap_get (tc_data_sources config) (ix_data_source ix) \<noteq> None" by metis
  then show ?thesis
    using c assms(3) omap_get_key [of "tc_data_sources config" "ix_data_source ix"]
    by (auto simp: cohort_ready_def cohort_source_def for_cohort_def)
qed

lemma run_round_accounts:
  assumes "from_raw raw e = Inr config" and "tuner_covers tuner" and "tu_config tuner = config"
    and "run_round env round_end computed_at us tuner w = Some (report, tuner', w')"
  shows "round_accounted config report \<and> tuner_covers tuner' \<and> tu_config tuner' = config"
proof -
  let ?cohorts = "omap_keys (tc_cohorts config)"
  let ?start = "\<lparr>rr_published = [], rr_failed_cohorts = [], rr_cancelled = False\<rparr>"
  obtain t1 w1 where re: "reconnect_unavailable_data_sources env tuner w = (t1, w1)" by fastforce
  note covers = reconnect_covers [OF re assms(2)]
  obtain sources' where run: "run_cohorts env config round_end computed_at us ?cohorts ?start (tu_data_sources t1) w1
      = Some (report, sources', w')" and t': "tuner' = t1\<lparr>tu_data_sources := sources'\<rparr>"
    using assms(3,4) covers by (auto simp: run_round_def re)
  have known: "fst ` set (tc_data_sources config) \<subseteq> fst ` set (tu_data_sources t1)"
    and t1: "tu_config t1 = config"
    using covers assms(3) unfolding tuner_covers_def by metis+
  have ready: "list_all (cohort_ready config (tu_data_sources t1)) ?cohorts"
    unfolding list_all_iff
  proof
    fix cohort assume "cohort \<in> set ?cohorts"
    then show "cohort_ready config (tu_data_sources t1) cohort"
      by (rule from_raw_ready [OF assms(1) _ known])
  qed
  obtain cohorts where "tc_cohorts config = omap_of_list cohorts" using from_raw_Inr(6) [OF assms(1)] by blast
  then have distinct: "distinct ([] @ ?cohorts)"
    using omap_of_list_inv [of cohorts] by (simp add: omap_inv_def omap_keys_def strict_sorted_iff)
  from run_cohorts_accounts [OF run ready distinct]
  obtain n where n: "n \<le> length ?cohorts" "n < length ?cohorts \<longrightarrow> rr_cancelled report"
    "report_upto (cal_ef_search (tc_calibration config)) (take n ?cohorts) (rr_published report) (rr_failed_cohorts report)"
    and keys: "fst ` set sources' = fst ` set (tu_data_sources t1)"
    by (auto simp: report_upto_def)
  have "round_accounted config report"
    using n unfolding round_accounted_def Let_def report_upto_def
    by (intro conjI exI [of _ n]) (simp_all add: take_map)
  moreover have "tuner_covers tuner'" "tu_config tuner' = config"
    using known keys t1 unfolding t' tuner_covers_def by simp_all
  ultimately show ?thesis by blast
qed

lemma run_rounds_accounts:
  assumes "from_raw raw e = Inr config" and "tuner_covers tuner" and "tu_config tuner = config"
    and "run_rounds env rounds tuner w = Some (reports, tuner', w')"
  shows "length reports = length rounds \<and> list_all (round_accounted config) reports"
  using assms(2-4)
proof (induction rounds arbitrary: tuner w reports)
  case (Cons r rounds)
  obtain round_end computed_at us where r: "r = (round_end, computed_at, us)" by (cases r)
  obtain report t1 w1 rest where one: "run_round env round_end computed_at us tuner w = Some (report, t1, w1)"
    and more: "run_rounds env rounds t1 w1 = Some (rest, tuner', w')" and reports: "reports = report # rest"
    using Cons.prems(3) r by (auto split: bind_splits)
  note here = run_round_accounts [OF assms(1) Cons.prems(1,2) one]
  show ?case using Cons.IH [OF _ _ more] here reports by simp
qed simp


subsection \<open>The requests of a session\<close>

text \<open>A round keeps what its store and its measurer keep.\<close>

definition env_keeps :: "('w \<Rightarrow> bool) \<Rightarrow> aggregation_config \<Rightarrow> 'w round_env \<Rightarrow> bool" where
  "env_keeps I config env \<longleftrightarrow>
     (\<forall>p. keeps I (os_list (env_store env) p)) \<and> (\<forall>p. keeps I (os_get (env_store env) p))
     \<and> (\<forall>p b. keeps I (os_put (env_store env) p b)) \<and> (\<forall>v. keeps I (env_measurer env v config))"

lemma measure_loop_invariant:
  assumes "\<And>v. keeps I (ms v config)" and "measure_loop ms cancelled config samples rows w = (r, w')" and "I w"
  shows "I w'"
  using assms
proof (induction ms cancelled config samples rows w rule: measure_loop.induct)
  case (2 ms cancelled config sample samples rows w)
  show ?case
  proof (cases "cancelled w")
    case nc: False
    show ?thesis
    proof (cases "pr_receive_time_us sample")
      case (Inl e)
      then show ?thesis using "2.prems" "2.IH"(1) nc by simp
    next
      case time: (Inr time)
      show ?thesis
      proof (cases "pr_vector sample")
        case (Inl e)
        then show ?thesis using "2.prems" "2.IH"(2) nc time by simp
      next
        case vector: (Inr vector)
        obtain r1 w1 where m: "ms vector config w = (r1, w1)" by (cases "ms vector config w")
        have "I w1" by (rule keepsD [OF "2.prems"(1) m "2.prems"(3)])
        then show ?thesis
          using "2.prems" "2.IH"(3-) nc time vector m
          by (cases r1) (auto split: if_splits sum.splits sample_measure_error.splits)
      qed
    qed
  qed (use "2.prems" in simp)
qed simp

lemma env_keeps_ops:
  assumes "env_keeps I config env"
  shows "keeps I (list_paths env dir)" and "keeps I (get_bytes env path)" and "keeps I (put_bytes env path bytes)"
    and "keeps I (load_previous_round env path)"
  using assms unfolding env_keeps_def keeps_def list_paths_def get_bytes_def put_bytes_def load_previous_round_def
  by (auto split: prod.split sum.split store_error.split) (metis snd_conv)+

lemma measure_source_keeps:
  assumes "env_keeps I config env"
  shows "keeps I (measure_source env config us source)"
proof -
  have part: "keeps I (\<lambda>w. case measure_prepared_part (env_measurer env) (env_cancelled env) prepared ulid config us w of
      (result, w) \<Rightarrow> (map_err f result, w))" for prepared ulid and f :: "prepare_part_error \<Rightarrow> pipeline_error"
    unfolding keeps_def
  proof (intro allI impI)
    fix s assume s: "I s"
    obtain r s' where run: "measure_loop (env_measurer env) (env_cancelled env) config (pp_samples prepared)
        \<lparr>mr_failed = 0, mr_truth = [], mr_sweeps = []\<rparr> s = (r, s')" by fastforce
    have "I s'" using assms by (intro measure_loop_invariant [where I = I, OF _ run s]) (simp add: env_keeps_def)
    then show "I (snd (case measure_prepared_part (env_measurer env) (env_cancelled env) prepared ulid config us s of
      (result, w) \<Rightarrow> (map_err f result, w)))"
      by (simp add: measure_prepared_part_def run split: sum.split)
  qed
  show ?thesis unfolding measure_source_def by (intro keeps_bind env_keeps_ops [OF assms] keeps_lift part)
qed

lemma run_cohort_round_keeps:
  assumes "env_keeps I config env"
  shows "keeps I (run_cohort_round env config round_end computed_at us)"
proof -
  note ops = env_keeps_ops [OF assms] measure_source_keeps [OF assms]
  have pending: "keeps I (measure_pending env config us compatible sources)" for compatible sources
    by (induction sources arbitrary: compatible)
      (auto simp: store_measured_def Let_def intro!: ops keeps_bind split: measure_part_outcome.split)
  have loaded: "keeps I (load_round env config round_end)"
    unfolding load_round_def list_source_objects_def list_measurement_objects_def load_source_headers_def
    by (auto simp: load_header_def scan_source_def Let_def intro!: ops keeps_bind keeps_map keeps_fold
        split: option.split sum.split)
  have finish: "keeps I (finish_round env config round_end computed_at sources scan pa)" for sources scan pa
    unfolding finish_round_def publish_def
    by (auto intro!: ops keeps_bind split: phase_a.split)
  show ?thesis unfolding run_cohort_round_def by (auto intro!: keeps_bind loaded pending finish)
qed


text \<open>The log of the requests to every server.\<close>

type_synonym 'w pg_logging = "('w, pg_request \<times> pg_answer) logging"

definition server_logged :: "'w pg_driver \<Rightarrow> 'w pg_logging pg_driver" where
  "server_logged server =
     \<lparr>pd_client = pg_logged (pd_client server), pd_wait = \<lambda>t. unlogged (pd_wait server t),
      pd_connect = \<lambda>c. unlogged (pd_connect server c), pd_driver = unlogged (pd_driver server),
      pd_is_closed = pd_is_closed server \<circ> fst\<rparr>"

definition tuner_env_logged :: "'w tuner_env \<Rightarrow> 'w pg_logging tuner_env" where
  "tuner_env_logged env =
     \<lparr>te_server = server_logged \<circ> te_server env, te_env_var = te_env_var env, te_error_text = te_error_text env,
      te_store = \<lparr>os_list = \<lambda>p. unlogged (os_list (te_store env) p),
                  os_get = \<lambda>p. unlogged (os_get (te_store env) p),
                  os_put = \<lambda>p b. unlogged (os_put (te_store env) p b)\<rparr>,
      te_cancelled = te_cancelled env \<circ> fst, te_parquet = te_parquet env, te_ulid = te_ulid env,
      te_beta = te_beta env, te_json_read = te_json_read env, te_json_write = te_json_write env\<rparr>"

text \<open>
  The exchange of a transaction: begun, a prefix of the script of some vector, and an end that the server
  acknowledged. It is whole too when its begin was refused. It is broken when its end is unknown.
\<close>

definition whole_transaction :: "duration \<Rightarrow> aggregation_config \<Rightarrow> (pg_request \<times> pg_answer) list \<Rightarrow> bool" where
  "whole_transaction statement_timeout config t \<longleftrightarrow>
     (\<exists>a. t = [(Pg_BeginRepeatableRead, a)] \<and> pg_refused a) \<or>
     (\<exists>a vector body q b. t = (Pg_BeginRepeatableRead, a) # body @ [(q, b)] \<and> pg_ok a \<and> pg_ok b \<and> none_lost body
        \<and> prefix (map fst body) (sample_script statement_timeout vector config) \<and> q \<in> {Pg_Commit, Pg_Rollback})"

definition broken_transaction :: "duration \<Rightarrow> aggregation_config \<Rightarrow> (pg_request \<times> pg_answer) list \<Rightarrow> bool" where
  "broken_transaction statement_timeout config t \<longleftrightarrow>
     (\<exists>a. t = [(Pg_BeginRepeatableRead, a)] \<and> pg_lost a) \<or>
     (\<exists>a vector body fin. t = (Pg_BeginRepeatableRead, a) # body @ fin \<and> pg_ok a
        \<and> prefix (map fst body) (sample_script statement_timeout vector config)
        \<and> (fin = [] \<or> (\<exists>q b. fin = [(q, b)] \<and> q \<in> {Pg_Commit, Pg_Rollback} \<and> \<not> pg_ok b)))"

lemma transaction_whole:
  assumes "transaction_log (sample_script st vector config) r t" and "\<And>e. r \<noteq> Inl (ME_Connection e)"
  shows "whole_transaction st config t"
  using assms unfolding transaction_log_def whole_transaction_def
  by (cases r; cases "projl r") auto

lemma transaction_broken:
  assumes "transaction_log (sample_script st vector config) (Inl (ME_Connection e) :: _ + 'a) t"
  shows "broken_transaction st config t"
proof -
  consider (unbegun) a where "t = [(Pg_BeginRepeatableRead, a)]" "pg_lost a"
    | (started) a body fin where "t = (Pg_BeginRepeatableRead, a) # body @ fin" "pg_ok a"
        "prefix (map fst body) (sample_script st vector config)"
        "fin = [] \<or> (\<exists>q a. fin = [(q, a)] \<and> q \<in> {Pg_Commit, Pg_Rollback} \<and> \<not> pg_ok a)"
    using assms unfolding transaction_log_def sum.case sample_measure_error.case
    by (elim disjE exE conjE) (auto simp del: insert_iff)
  then show ?thesis
  proof cases
    case unbegun
    then show ?thesis unfolding broken_transaction_def by blast
  next
    case started
    then show ?thesis unfolding broken_transaction_def
      by (intro disjI2 exI [of _ a] exI [of _ vector] exI [of _ body] exI [of _ fin]) simp
  qed
qed

text \<open>
  The log of a session: whole transactions, and at most one broken one, the last, after which the session
  is given up; a session that was unavailable sends nothing and stays so.
\<close>

definition session_log ::
  "aggregation_config \<Rightarrow> data_source_runtime \<Rightarrow> data_source_runtime \<Rightarrow> (pg_request \<times> pg_answer) list \<Rightarrow> bool" where
  "session_log config before after t \<longleftrightarrow>
     (case before of
        Rt_Unavailable _ \<Rightarrow> after = before \<and> t = []
      | Rt_Connected c \<Rightarrow>
          \<exists>ts end. t = concat ts @ end \<and> list_all (whole_transaction (dc_statement_timeout c) config) ts
            \<and> (case after of
                 Rt_Connected c' \<Rightarrow> end = [] \<and> dc_statement_timeout c' = dc_statement_timeout c
               | Rt_Unavailable _ \<Rightarrow> end = [] \<or> broken_transaction (dc_statement_timeout c) config end))"

lemma measure_sample_timeouts:
  "measure_sample pg wait c vector config w = Some (r, c', w') \<Longrightarrow> dc_statement_timeout c' = dc_statement_timeout c"
  by (auto simp: measure_sample_def split: if_splits)

lemma abandon_session_log: "snd (snd (abandon_session (server_logged server) c (w, l))) = l"
  by (simp add: abandon_session_def server_logged_def unlogged_def split: prod.split)

lemma runtime_session_log:
  assumes run: "runtime_measure_sample (server_logged server) runtime vector config (w, l) = Some (r, runtime', (w', l'))"
  shows "\<exists>t. l' = l @ t \<and> session_log config runtime runtime' t"
proof (cases runtime)
  case (Rt_Unavailable e)
  then show ?thesis using run by (auto simp: runtime_measure_sample_def session_log_def)
next
  case (Rt_Connected c)
  obtain r1 c1 w1 l1 where m: "measure_sample (pd_client (server_logged server)) (pd_wait (server_logged server)) c vector config (w, l)
      = Some (r1, c1, (w1, l1))"
    using run Rt_Connected by (auto simp: runtime_measure_sample_def)
  note ends = run [unfolded runtime_measure_sample_def Rt_Connected data_source_runtime.case m option.map prod.case]
  obtain t where t: "l1 = l @ t" and log: "t = [] \<and> (r1 = Inl ME_CancelledBeforeTransaction \<or> (\<exists>e. r1 = Inl (ME_Connection e)))
     \<or> transaction_log (sample_script (dc_statement_timeout c) vector config) r1 t"
    using measure_sample_log [of "pd_client server" "pd_wait server" c vector config w l r1 c1 w1 l1] m
    by (auto simp: server_logged_def)
  have same: "dc_statement_timeout c1 = dc_statement_timeout c" by (rule measure_sample_timeouts [OF m])
  show ?thesis
  proof (cases "\<exists>e. r1 = Inl (ME_Connection e)")
    case True
    then obtain e where e: "r1 = Inl (ME_Connection e)" by blast
    have "runtime' = Rt_Unavailable e" "l' = l1"
      using ends e abandon_session_log [of server c1 w1 l1] by (auto simp: prod_eq_iff)
    moreover have "t = [] \<or> broken_transaction (dc_statement_timeout c) config t"
      using log e transaction_broken by blast
    then have "\<exists>ts end. t = concat ts @ end \<and> list_all (whole_transaction (dc_statement_timeout c) config) ts
        \<and> (end = [] \<or> broken_transaction (dc_statement_timeout c) config end)"
      by (intro exI [of _ "[]"] exI [of _ t]) simp
    ultimately show ?thesis using t Rt_Connected by (simp add: session_log_def)
  next
    case False
    then have "runtime' = Rt_Connected c1" "l' = l1"
      using ends by (auto split: sum.splits sample_measure_error.splits)
    moreover have "\<exists>ts. t = concat ts \<and> list_all (whole_transaction (dc_statement_timeout c) config) ts"
    proof (cases "t = []")
      case False
      then have "whole_transaction (dc_statement_timeout c) config t"
        using log \<open>\<nexists>e. r1 = Inl (ME_Connection e)\<close> by (intro transaction_whole) auto
      then show ?thesis by (intro exI [of _ "[t]"]) simp
    qed (auto intro: exI [of _ "[]"])
    ultimately show ?thesis using t Rt_Connected same by (simp add: session_log_def)
  qed
qed

lemma session_log_step:
  assumes "session_log config a b t" and "session_log config b c u"
  shows "session_log config a c (t @ u)"
proof (cases a)
  case (Rt_Unavailable e)
  then show ?thesis using assms by (simp add: session_log_def)
next
  case a: (Rt_Connected x)
  show ?thesis
  proof (cases b)
    case (Rt_Unavailable e)
    then show ?thesis using assms by (simp add: session_log_def)
  next
    case (Rt_Connected y)
    then obtain ts where ts: "t = concat ts" "list_all (whole_transaction (dc_statement_timeout x) config) ts"
      and same: "dc_statement_timeout y = dc_statement_timeout x"
      using assms(1) a by (auto simp: session_log_def)
    obtain us last where "u = concat us @ last" "list_all (whole_transaction (dc_statement_timeout x) config) us"
      "case c of Rt_Connected c' \<Rightarrow> last = [] \<and> dc_statement_timeout c' = dc_statement_timeout x
       | Rt_Unavailable _ \<Rightarrow> last = [] \<or> broken_transaction (dc_statement_timeout x) config last"
      using assms(2) unfolding session_log_def Rt_Connected data_source_runtime.case same
      by (elim exE conjE) (rule that)
    then show ?thesis using a ts by (auto simp: session_log_def intro!: exI [of _ "ts @ us"] exI [of _ last])
  qed
qed

lemma session_log_start: "session_log config runtime runtime []"
  by (auto simp: session_log_def intro: exI [of _ "[]"] split: data_source_runtime.split)

lemma run_cohort_session_log:
  fixes env :: "'w tuner_env"
  assumes "run_cohort (tuner_env_logged env) data_source config round_end computed_at us runtime (w, l)
    = Some (r, runtime', (w', l'))"
  shows "\<exists>t. l' = l @ t \<and> session_log config runtime runtime' t"
proof -
  define I :: "'w pg_logging cohort_state \<Rightarrow> bool"
    where "I = (\<lambda>((v, k), rt, _). \<exists>t. k = l @ t \<and> session_log config runtime rt t)"
  have store: "keeps I (on_world (unlogged m))" for m :: "'w \<Rightarrow> ('e + 'a) \<times> 'w"
    by (auto simp: keeps_def I_def on_world_def unlogged_def split: prod.splits)
  have measurer: "keeps I (runtime_measurer (server_logged server) v config)" for server v
    unfolding keeps_def
  proof clarify
    fix x k rt p
    assume "I ((x, k), rt, p)"
    then obtain t where t: "k = l @ t" "session_log config runtime rt t" by (auto simp: I_def)
    show "I (snd (runtime_measurer (server_logged server) v config ((x, k), rt, p)))"
    proof (cases "runtime_measure_sample (server_logged server) rt v config (x, k)")
      case None
      then show ?thesis using t by (simp add: runtime_measurer_def I_def)
    next
      case (Some z)
      obtain res rt' x' k' where z: "z = (res, rt', (x', k'))" by (cases z) auto
      from runtime_session_log [OF Some [unfolded z]]
      obtain u where u: "k' = k @ u" "session_log config rt rt' u" by (elim exE conjE)
      have "k' = l @ (t @ u)" using t(1) u(1) by simp
      then have "I ((x', k'), rt', p)"
        unfolding I_def prod.case by (intro exI [of _ "t @ u"] conjI session_log_step [OF t(2) u(2)])
      then show ?thesis using Some z by (simp add: runtime_measurer_def)
    qed
  qed
  have "env_keeps I config (cohort_env (tuner_env_logged env) data_source)"
    by (simp add: env_keeps_def cohort_env_def tuner_env_logged_def store measurer)
  then have "keeps I (run_cohort_round (cohort_env (tuner_env_logged env) data_source) config round_end computed_at us)"
    by (rule run_cohort_round_keeps)
  moreover obtain p where "run_cohort_round (cohort_env (tuner_env_logged env) data_source) config round_end computed_at us
      ((w, l), runtime, False) = (r, ((w', l'), runtime', p))"
    using assms by (auto simp: run_cohort_def split: prod.splits if_splits)
  moreover have "I ((w, l), runtime, False)" by (simp add: I_def session_log_start)
  ultimately have "I ((w', l'), runtime', p)" by (rule keepsD)
  then show ?thesis by (simp add: I_def)
qed


section \<open>Properties\<close>

text \<open>
  C11. A pass gives every configured cohort its result: over any rounds of a tuner that was started with
  a validated configuration, whatever the store, the servers and the cancellation do, the first cohorts
  in order, all of them unless the pass was cancelled, each end either published or failed and never
  both; a published round is the cohort's own, over the configured grid; a failure is an error of the
  cohort's round, never one of the messages of a configuration or a session that disappeared.
\<close>

theorem pass_accounts_every_cohort:
  assumes "from_raw raw env_exists = Inr config"
    and "start_with_store env config w = (tuner, w1)"
    and "run_rounds env rounds tuner w1 = Some (reports, tuner', w')"
  shows "length reports = length rounds \<and> list_all (round_accounted config) reports"
  using start_covers [OF assms(2)] by (intro run_rounds_accounts [OF assms(1) _ _ assms(3)]) simp_all

text \<open>
  C10. A session whose transaction is in doubt is never used again: whatever a cohort's round does, the
  requests it sends to its server are whole transactions, each refused by the server at its begin or
  ended by an acknowledged commit or rollback after answered requests only, but for at most one broken
  transaction (its begin was not answered or met a closed connection, or it began and its end is not
  acknowledged), which ends the log of the round and leaves the session unavailable. A session that stays connected has no transaction open, and
  an unavailable one sends nothing and stays unavailable.
\<close>

theorem session_in_doubt_is_given_up:
  assumes "run_cohort (tuner_env_logged env) data_source config round_end computed_at us runtime (w, l)
    = Some (r, runtime', (w', l'))"
  shows "\<exists>t. l' = l @ t \<and> session_log config runtime runtime' t"
  by (rule run_cohort_session_log [OF assms])

section \<open>An example\<close>

text \<open>A world whose servers refuse every connection and whose transactions never begin.\<close>

definition mute_server :: "unit pg_driver" where
  "mute_server =
     \<lparr>pd_client = \<lparr>pg_clock = \<lambda>_. 0, pg_serve = \<lambda>_ w. (Pg_Elapsed, w)\<rparr>, pd_wait = \<lambda>_ w. (False, w),
      pd_connect = \<lambda>_ w. (Connect_Elapsed, w), pd_driver = \<lambda>w. (Driver_Cancelled, w), pd_is_closed = \<lambda>_. False\<rparr>"

definition example_tuner_env :: "unit tuner_env" where
  "example_tuner_env =
     \<lparr>te_server = \<lambda>_. mute_server, te_env_var = \<lambda>_. Inl NotPresent, te_error_text = \<lambda>_. ''unavailable'',
      te_store = \<lparr>os_list = \<lambda>dir w. (Inr (if dir = ''cohorts/prod/window=19700101T0010Z''
                                          then [''cohorts/prod/window=19700101T0010Z/part-01A.vseam''] else []), w),
                  os_get = \<lambda>_ w. (Inr (Inr example_segment_bytes), w), os_put = \<lambda>_ _ w. (Inr (), w)\<rparr>,
      te_cancelled = \<lambda>_. False,
      te_parquet = \<lparr>pq_write = \<lambda>_ _ _. Inl ''unused'', pq_key_values = \<lambda>_. Inl ''unused'', pq_open = \<lambda>_. Inl ''unused''\<rparr>,
      te_ulid = Some, te_beta = \<lambda>_ _ _. Fin 0, te_json_read = \<lambda>_. Inl ''malformed'', te_json_write = \<lambda>_. Inr [3]\<rparr>"

abbreviation example_world :: "unit pg_logging cohort_state round_env" where
  "example_world \<equiv> cohort_env (tuner_env_logged example_tuner_env) ''pg''"

lemma example_world_fields:
  "env_store example_world = \<lparr>os_list = \<lambda>dir s. (Inr (if dir = ''cohorts/prod/window=19700101T0010Z''
        then [''cohorts/prod/window=19700101T0010Z/part-01A.vseam''] else []), s),
     os_get = \<lambda>_ s. (Inr (Inr example_segment_bytes), s), os_put = \<lambda>_ _ s. (Inr (), s)\<rparr>"
  "env_cancelled example_world = (\<lambda>_. False)" "env_ulid example_world = Some"
  "env_measurer example_world = runtime_measurer (server_logged mute_server)"
  by (auto simp: cohort_env_def tuner_env_logged_def example_tuner_env_def on_world_def unlogged_def fun_eq_iff
      split: prod.split)

lemma example_world_listing:
  "list_source_objects example_world ''prod'' [0, 600] s
     = (Inr [(600, ''cohorts/prod/window=19700101T0010Z/part-01A.vseam'')], s)"
  "list_measurement_objects example_world ''prod'' [0, 600] s = (Inr [], s)"
  by (simp_all add: list_source_objects_def list_measurement_objects_def list_paths_def example_world_fields
      io_bind_def io_lift_def example_timestamps example_extension)

lemma example_world_headers:
  "load_source_headers example_world ''prod'' 600
     [(600, ''cohorts/prod/window=19700101T0010Z/part-01A.vseam'')] s = (Inr [example_source], s)"
proof -
  have "source_part_ulid Some ''cohorts/prod/window=19700101T0010Z/part-01A.vseam'' = Some ''01A''"
    using example_ulid by (simp add: example_env_def)
  then show ?thesis
    unfolding load_source_headers_def load_header_def io_fold.simps prod.case example_world_fields
    by (simp add: io_bind_def get_bytes_def example_world_fields io_lift_def example_prepared example_source_def
        omap_values_def omap_get_def)
qed

lemma example_world_measures:
  "\<exists>e. runtime_measurer (server_logged mute_server) v config (((), l), Rt_Connected example_connection, False)
     = (Inl (ME_Connection e), (((), l @ [(Pg_BeginRepeatableRead, Pg_Elapsed)]), Rt_Unavailable e, False))"
proof -
  have "mul_f64 0 (f64_div (f64_sub (Fin 1) (Fin 1)) (Fin 1)) = Some 0"
    using round_half_even_of_int [of 0]
    by (simp add: mul_f64_def f64_sub_def from_secs_f64_def duration_bound_def)
  then show ?thesis
    by (simp add: runtime_measurer_def runtime_measure_sample_def server_logged_def mute_server_def
        measure_sample_def run_cancelable_before_start_def run_ready_def Let_def run_sample_transaction_def
        begin_sample_transaction_def client_operation_def logged_def io_bind_def unlogged_def example_connection_def
        pg_logged_def abandon_session_def instant_add_def instant_bound_def)
qed


lemma example_world_round:
  "\<exists>e. run_cohort (tuner_env_logged example_tuner_env) ''pg'' example_part_config 1200 ''now'' 5
       (Rt_Connected example_connection) ((), [])
     = Some (Inl (P_ConnectionUnavailable ''01A'' e), Rt_Unavailable e, ((), [(Pg_BeginRepeatableRead, Pg_Elapsed)]))"
proof -
  let ?s = "(((), []), Rt_Connected example_connection, False) :: unit pg_logging cohort_state"
  obtain e where e: "runtime_measurer (server_logged mute_server) [1065353216] example_part_config ?s
     = (Inl (ME_Connection e), (((), [(Pg_BeginRepeatableRead, Pg_Elapsed)]), Rt_Unavailable e, False))"
    using example_world_measures [of "[1065353216]" example_part_config "[]"] by auto
  have load: "load_round example_world example_part_config 1200 ?s
    = (Inr ([example_source], \<lparr>sc_compatible = [], sc_pending = [example_source], sc_incompatible = 0\<rparr>), ?s)"
    by (simp add: load_round_def io_bind_def io_lift_def example_config_fields example_windows example_world_listing
        example_world_headers scan_source_def example_source_fields example_paths)
  have "measure_source example_world example_part_config 5 example_source ?s
    = (Inr (MP_ConnectionUnavailable e), (((), [(Pg_BeginRepeatableRead, Pg_Elapsed)]), Rt_Unavailable e, False))"
    by (simp add: measure_source_def io_bind_def get_bytes_def example_source_fields io_lift_def example_config_fields
        example_prepared measure_prepared_part_def example_prepared_part_def Measure.example_sample_def
        example_world_fields e)
  then show ?thesis
    by (simp add: run_cohort_def run_cohort_round_def io_bind_def load io_read_def io_lift_def
        example_world_fields example_source_fields)
qed

theorem session_in_doubt_is_given_up_witness:
  "\<exists>r e. run_cohort (tuner_env_logged example_tuner_env) ''pg'' example_part_config 1200 ''now'' 5
       (Rt_Connected example_connection) ((), [])
     = Some (r, Rt_Unavailable e, ((), [(Pg_BeginRepeatableRead, Pg_Elapsed)]))
     \<and> (\<exists>t. [(Pg_BeginRepeatableRead, Pg_Elapsed)] = [] @ t
          \<and> session_log example_part_config (Rt_Connected example_connection) (Rt_Unavailable e) t)"
proof -
  obtain e where run: "run_cohort (tuner_env_logged example_tuner_env) ''pg'' example_part_config 1200 ''now'' 5
       (Rt_Connected example_connection) ((), [])
     = Some (Inl (P_ConnectionUnavailable ''01A'' e), Rt_Unavailable e, ((), [(Pg_BeginRepeatableRead, Pg_Elapsed)]))"
    using example_world_round by blast
  from session_in_doubt_is_given_up [OF run] run show ?thesis by blast
qed


text \<open>No session of the example tuner is ever connected, so that its rounds do not panic.\<close>

definition all_unavailable :: "(string, data_source_runtime) omap \<Rightarrow> bool" where
  "all_unavailable sources \<longleftrightarrow> (\<forall>x \<in> set sources. \<exists>e. snd x = Rt_Unavailable e)"

lemma all_unavailable_insert: "all_unavailable sources \<Longrightarrow> all_unavailable (omap_insert k (Rt_Unavailable e) sources)"
  unfolding all_unavailable_def by (rule omap_insert_ball) simp_all

lemma mute_connect: "\<exists>e. connect_data_source example_tuner_env name ds budget () = (Rt_Unavailable e, ())"
proof -
  have "\<exists>e. connect (pd_client mute_server) env_var (pd_connect mute_server) ds budget () = (Inl e, ())" for env_var
    by (auto simp: connect_def mute_server_def io_bind_def io_lift_def split: sum.split prod.split)
  moreover have "te_server example_tuner_env name = mute_server" by (simp add: example_tuner_env_def)
  ultimately show ?thesis unfolding connect_data_source_def by (simp add: Let_def) (metis (no_types, lifting) prod.case sum.case(1))
qed

lemma mute_connect_all:
  "all_unavailable sources \<Longrightarrow> all_unavailable (fst (connect_all example_tuner_env budget ds sources ()))"
proof (induction ds arbitrary: sources)
  case (Cons d ds)
  obtain name x where d: "d = (name, x)" by (cases d)
  obtain e where "connect_data_source example_tuner_env name x budget () = (Rt_Unavailable e, ())"
    using mute_connect by blast
  then show ?case using Cons.IH [OF all_unavailable_insert [OF Cons.prems]] d by simp
qed simp

lemma mute_reconnect:
  "all_unavailable (fst s) \<Longrightarrow> all_unavailable (fst (fold (reconnect_step example_tuner_env budget) ds s))"
proof (induction ds arbitrary: s)
  case (Cons d ds)
  obtain name x sources w where d: "d = (name, x)" "s = (sources, w)" by (cases d; cases s)
  have "all_unavailable (filter (\<lambda>(k, _). k \<noteq> name) sources)"
    using Cons.prems d by (auto simp: all_unavailable_def)
  then have "all_unavailable (fst (reconnect_step example_tuner_env budget d s))"
    using mute_connect [of name x budget] all_unavailable_insert
    by (auto simp: reconnect_step_def Let_def d split: prod.split)
  then show ?case using Cons.IH by simp
qed simp

lemma unavailable_no_panic:
  "\<exists>r e w'. run_cohort env ds config round_end computed_at us (Rt_Unavailable e0) w = Some (r, Rt_Unavailable e, w')"
proof -
  let ?I = "\<lambda>(w, runtime, panicked). (\<exists>e. runtime = Rt_Unavailable e) \<and> \<not> panicked"
  have "env_keeps ?I config (cohort_env env ds)"
    by (auto simp: env_keeps_def keeps_def cohort_env_def on_world_def runtime_measurer_def runtime_measure_sample_def
        split: prod.splits)
  then have "keeps ?I (run_cohort_round (cohort_env env ds) config round_end computed_at us)"
    by (rule run_cohort_round_keeps)
  moreover obtain r s where run: "run_cohort_round (cohort_env env ds) config round_end computed_at us
      (w, Rt_Unavailable e0, False) = (r, s)"
    by (cases "run_cohort_round (cohort_env env ds) config round_end computed_at us (w, Rt_Unavailable e0, False)")
  ultimately have "?I s" by (rule keepsD) simp
  then show ?thesis
    by (cases s) (auto simp: run_cohort_def run)
qed

lemma unavailable_run_cohorts:
  assumes "all_unavailable sources"
  shows "\<exists>x. run_cohorts env config round_end computed_at us cohorts report sources w = Some x"
  using assms
proof (induction cohorts arbitrary: report sources w)
  case (Cons cohort rest)
  show ?case
  proof (cases "\<exists>ds ac runtime. cohort_source config cohort = Inr (ds, ac) \<and> omap_get sources ds = Some runtime")
    case True
    then obtain ds ac runtime where src: "cohort_source config cohort = Inr (ds, ac)" "omap_get sources ds = Some runtime"
      by blast
    have "(ds, runtime) \<in> set sources" using src(2) by (auto simp: omap_get_def dest: map_of_SomeD)
    then obtain e0 where e0: "runtime = Rt_Unavailable e0" using Cons.prems by (auto simp: all_unavailable_def)
    obtain r e w' where "run_cohort env ds ac round_end computed_at us runtime w = Some (r, Rt_Unavailable e, w')"
      unfolding e0 using unavailable_no_panic [of env ds ac round_end computed_at us e0 w] by (elim exE)
    then show ?thesis
      using src Cons.IH [OF all_unavailable_insert [OF Cons.prems]]
      by (auto simp: Let_def split: sum.split cohort_round_outcome.split)
  next
    case False
    then show ?thesis using Cons.IH [OF Cons.prems] by (auto split: sum.split option.split)
  qed
qed simp

theorem pass_accounts_every_cohort_witness:
  "\<exists>config tuner reports tuner'. from_raw example_raw_config (\<lambda>_. False) = Inr config
     \<and> start_with_store example_tuner_env config () = (tuner, ())
     \<and> run_rounds example_tuner_env [(1200, ''now'', 5)] tuner () = Some (reports, tuner', ())
     \<and> length reports = length [(1200 :: u64, ''now'', 5 :: u64)] \<and> list_all (round_accounted config) reports"
proof -
  obtain config where config: "from_raw example_raw_config (\<lambda>_. False) = Inr config"
    using example_from_raw by blast
  obtain tuner where start: "start_with_store example_tuner_env config () = (tuner, ())"
    by (cases "start_with_store example_tuner_env config ()") simp
  have "all_unavailable (tu_data_sources tuner)"
    using start mute_connect_all [of "[]" "tc_budget config" "tc_data_sources config"]
    by (auto simp: start_with_store_def all_unavailable_def split: prod.splits)
  moreover obtain tuner1 where re: "reconnect_unavailable_data_sources example_tuner_env tuner () = (tuner1, ())"
    by (cases "reconnect_unavailable_data_sources example_tuner_env tuner ()") simp
  ultimately have "all_unavailable (tu_data_sources tuner1)"
    using mute_reconnect [of "(tu_data_sources tuner, ())"]
    by (auto simp: reconnect_unavailable_data_sources_def Let_def split: prod.splits) (metis fst_conv)
  then obtain report tuner' where "run_round example_tuner_env 1200 ''now'' 5 tuner () = Some (report, tuner', ())"
    using unavailable_run_cohorts [of "tu_data_sources tuner1" example_tuner_env "tu_config tuner1" 1200 "''now''" 5
        "omap_keys (tc_cohorts (tu_config tuner1))" "\<lparr>rr_published = [], rr_failed_cohorts = [], rr_cancelled = False\<rparr>" "()"]
    by (auto simp: run_round_def re)
  then have run: "run_rounds example_tuner_env [(1200, ''now'', 5)] tuner () = Some ([report], tuner', ())" by simp
  from pass_accounts_every_cohort [OF config start run] config start run show ?thesis by blast
qed

end
