(* ===== verification/Spec2Isabelle.thy ===== *)
theory Spec2Isabelle
  imports Float64 Window Segment Counters Memory CollectorConfig Reader Collector RecServer Supervision
    CollectorProcess
    Aggregate Measure Schedule TunerConfig Intermediate Database Tuner
begin

text \<open>
  vectorseam samples the query vectors of an application and tunes the \<open>ef_search\<close> parameter of a
  vector index. Applications send sampled vectors in binary frames to a collector, which buffers them
  per cohort and window and stores them as \<open>.vseam\<close> segments in an object store. A tuner reads the
  segments of each cohort, measures every distinct vector against the database (phase A), aggregates
  the measurements of a rolling window into a round with a recommended \<open>ef_search\<close> (phase B) and
  stores it as \<open>calibrations/<cohort>/latest.json\<close>. A recommendation server answers lookups from
  these documents. Paths below are relative to \<open>src/crates/\<close>.

  The shared formats (\<open>vectorseam-core\<close>):
  \<^item> Prelude: machine integers as words, \<open>usize\<close> as \<open>nat\<close> below \<open>usize_bound\<close> (64-bit targets),
    \<open>Result\<close> as a sum whose left side is the error, \<open>?\<close> as \<open>res_bind\<close>, fallible folds, little-endian
    bytes, UTF-8 validity, decimal text.
  \<^item> Cohort (\<open>cohort.rs\<close>), Frame (\<open>binary.rs\<close>, \<open>frame.rs\<close>), Window (\<open>window.rs\<close>), Segment
    (\<open>segment.rs\<close>), Recommendation (\<open>recommendation.rs\<close>): validators, parsers and writers. The
    lemmas show that each parser accepts exactly the documented grammar or layout and that reading
    undoes writing.

  The collector (\<open>vectorseam-collector\<close>):
  \<^item> CollectorConfig (\<open>config.rs\<close>), Clock (\<open>time.rs\<close>), Counters (\<open>counters.rs\<close>), Memory
    (\<open>memory.rs\<close>: the pure decisions and a step relation over every interleaving of the
    compare-exchange loops), Reader (\<open>reader.rs\<close>: a connection over the state it shares), Writer
    (\<open>writer.rs\<close>: buffers, caps, windows and flushes) and WriterInv (its invariants), Collector
    (\<open>lib.rs\<close>: the configured tasks, and the system of readers and writer as a step relation),
    CollectorProcess (\<open>lib.rs\<close>, \<open>listener.rs\<close>: the start of the process over a file system and its
    listeners, with the recommendation server's \<open>bind\<close>, and the summary loop). The properties
    follow each frame: it is counted exactly once, memory is exact, and each flush is a readable
    segment of its window; a run that ends has tried to flush what it kept (a flush counts whether or not
    its PUT succeeded); a start removes no file but a socket at its configured path, and listens where it
    is configured to.
  \<^item> A reader's turn (one frame received and offered to the channel) and a writer's handler are atomic
    steps. They meet only in the channel, the counters (each an atomic or behind one lock) and the
    memory tracker, whose own interleavings Memory covers.

  The recommendation server (\<open>vectorseam-recommendation-server\<close>, \<open>vectorseam-runtime\<close>):
  \<^item> RecConfig (options and validation), RecServer (loading a cohort's document, the handler as a start
    and a finish step around the single-flight load, the two caches as maps that may forget entries at
    any time, permits), Supervision (task supervision, the accept loops and their drains over connections
    that may never end by themselves, with the deadlines and the abort that end them, the exit codes of
    both services).

  The tuner (\<open>seam\<close>):
  \<^item> Float64: \<open>f64\<close> as the rational it denotes, rounded to nearest even after each operation, with
    infinities and one NaN; the two zeros are one value. TunerMath (\<open>math.rs\<close>), TunerModel
    (\<open>model.rs\<close>), OrdMap (Rust's \<open>BTreeMap\<close>), Accounting (\<open>accounting.rs\<close>), Population
    (\<open>population.rs\<close>), Aggregate (\<open>aggregate.rs\<close>), Measure (\<open>measure.rs\<close>), Intermediate (\<open>intermediate.rs\<close>), Pacer
    (\<open>pacer.rs\<close>), Database (\<open>database.rs\<close>, over Effects: fallible computations on a state of the
    environment, and the logs of the services they call), Pipeline (\<open>pipeline.rs\<close>: one round of one
    cohort over the object store) and Resume (rounds over a store that keeps what is put), Schedule
    (\<open>daemon.rs\<close>), TunerConfig (\<open>config.rs\<close>) and Tuner (\<open>tuner.rs\<close>: the sessions of the data
    sources and the pass over the cohorts, which runs Pipeline's round over Database's session). The
    properties show which samples survive, how they are split, which \<open>ef\<close> is selected, when the recommendation is
    fresh, carried or absent, that each record, part and intermediate is accounted for, that rounds
    never overlap, that the wall time of paced work keeps within its share,
    that a sample is one transaction whose begin, statements and end are answered or whose session is
    given up, in which order a round writes and that what a round published without an error has
    measured is not measured again (after an abort, pending parts are), that a session whose transaction is
    in doubt is given up, that every cohort of a pass has its result, and that an accepted configuration
    can be aggregated for every cohort.

  A panic (an index or a slice out of range) is an error value of its own, so that its absence is a
  theorem; where a duration overflows (Pacer, and with it Database and Tuner) it is \<open>None\<close>. The locales state the interfaces the components rely on: maps (Alists, OrdMap), the queue
  between reader and writer, the order of keys and ranks in the deduplication; each is interpreted on
  the model's own definitions. Every recursion terminates: on lists, or with a measure (the window
  enumeration, the accept loops); no fuel is used.

  The environment is an argument of the definitions: the outcome of each request to the object store,
  ULIDs, clocks, the iteration order of hash maps, the bytes and the end of a connection, cancellation,
  the answers of PostgreSQL, the regularized incomplete beta function (\<open>statrs\<close>) and the parsed form of
  a stored document (\<open>serde_json\<close>).

  Not modelled: sockets, signals, logging and command-line parsing; HTTP (\<open>axum\<close>, \<open>hyper\<close>); the
  eviction policy of the caches (\<open>moka\<close>); JSON and Parquet encodings; the PostgreSQL
  driver and server; the entry points (\<open>main.rs\<close>),
  which are input and output only; the other languages of the repository, the
  examples and the benchmarks.
\<close>

end
